(* ===== verification/Relay_Prelude.thy ===== *)
theory Relay_Prelude
  imports Main "HOL-Library.Word" "HOL-Library.Multiset"
begin

text \<open>
  Shared vocabulary of the development: Go strings as byte strings, machine integers, instants
  and durations, the pieces of the packages \<open>strings\<close>, \<open>strconv\<close>, \<open>time\<close> and
  \<open>encoding/hex\<close> that the relay calls, and the generic lemmas on lists, maps and decimal
  printing that the components share.

  A Go \<open>string\<close> is a sequence of bytes, as an Isabelle \<^typ>\<open>string\<close> is a list of
  8-bit characters, so \<open>len(s)\<close> is \<^term>\<open>length s\<close>. A Go \<open>map\<close> is a partial function; where
  the code ranges over a map, the (unspecified) iteration order is an explicit list of keys
  that enumerates the domain.
\<close>

named_theorems relay_simps \<open>unfolding rules of the model's small operations\<close>
named_theorems relay_inv \<open>preservation of the components' invariants\<close>

section \<open>Types\<close>

type_synonym byte = "8 word"
type_synonym bytes = "byte list"
type_synonym int64 = "64 word"

text \<open>An instant is a number of nanoseconds since the Unix epoch.\<close>

type_synonym time = int

text \<open>The zero \<open>time.Time\<close> is 1 January of year 1, UTC.\<close>

definition zero_time :: time where
  "zero_time = - 62135596800000000000"

definition max_duration :: int where
  "max_duration = 9223372036854775807"

definition min_duration :: int where
  "min_duration = - 9223372036854775808"

text \<open>\<open>Time.Sub\<close> saturates at the ends of the 64-bit range of a \<open>time.Duration\<close>.\<close>

definition time_sub :: "time \<Rightarrow> time \<Rightarrow> int" where
  "time_sub t u = max min_duration (min max_duration (t - u))"

lemma time_sub_small: "min_duration \<le> t - u \<Longrightarrow> t - u \<le> max_duration \<Longrightarrow> time_sub t u = t - u"
  by (simp add: time_sub_def)

section \<open>Enumerations of a map's keys\<close>

definition enumerates :: "'k list \<Rightarrow> ('k \<rightharpoonup> 'v) \<Rightarrow> bool" where
  "enumerates ks m \<longleftrightarrow> distinct ks \<and> set ks = dom m"

lemma enumerates_distinct [intro]: "enumerates ks m \<Longrightarrow> distinct ks"
  by (simp add: enumerates_def)

lemma enumerates_set: "enumerates ks m \<Longrightarrow> set ks = dom m"
  by (simp add: enumerates_def)

lemma enumerates_exists: "finite (dom m) \<Longrightarrow> \<exists>ks. enumerates ks m"
  unfolding enumerates_def using finite_distinct_list by metis

lemma enumerates_mset:
  assumes "enumerates ks m" and "enumerates ks' m"
  shows "mset ks = mset ks'"
  using assms by (metis enumerates_def set_eq_iff_mset_eq_distinct)

section \<open>Package strings\<close>

definition has_prefix :: "string \<Rightarrow> string \<Rightarrow> bool" where
  "has_prefix p s \<longleftrightarrow> take (length p) s = p"

definition trim_prefix :: "string \<Rightarrow> string \<Rightarrow> string" where
  "trim_prefix p s = (if has_prefix p s then drop (length p) s else s)"

text \<open>\<open>strings.Split(s, sep)\<close> for a one-byte separator; the result is never empty.\<close>

fun split_on :: "char \<Rightarrow> string \<Rightarrow> string list" where
  "split_on c [] = [[]]"
| "split_on c (x # xs) =
     (if x = c then [] # split_on c xs
      else (case split_on c xs of [] \<Rightarrow> [[x]] | y # ys \<Rightarrow> (x # y) # ys))"

text \<open>\<open>strings.SplitN(s, sep, 2)\<close> for a one-byte separator.\<close>

fun split2 :: "char \<Rightarrow> string \<Rightarrow> string list" where
  "split2 c [] = [[]]"
| "split2 c (x # xs) =
     (if x = c then [[], xs]
      else (case split2 c xs of [] \<Rightarrow> [[x]] | y # ys \<Rightarrow> (x # y) # ys))"

text \<open>
  \<open>strings.TrimSpace\<close>: the UTF-8 encodings of the characters with Unicode's White_Space
  property are cut at both ends.
\<close>

definition space_encodings :: "string list" where
  "space_encodings =
     map (map char_of)
       ([[9], [10], [11], [12], [13], [32 :: nat], [194, 133], [194, 160], [225, 154, 128],
         [226, 128, 168], [226, 128, 169], [226, 128, 175], [226, 129, 159], [227, 128, 128]] @
        map (\<lambda>i. [226, 128, 128 + i]) [0..<11])"

definition strip1 :: "string list \<Rightarrow> string \<Rightarrow> string" where
  "strip1 encs s =
     (case find (\<lambda>e. has_prefix e s) encs of None \<Rightarrow> s | Some e \<Rightarrow> drop (length e) s)"

definition trim_left :: "string list \<Rightarrow> string \<Rightarrow> string" where
  "trim_left encs s = (strip1 encs ^^ length s) s"

definition trim_space :: "string \<Rightarrow> string" where
  "trim_space s = rev (trim_left (map rev space_encodings) (rev (trim_left space_encodings s)))"

text \<open>A string of visible ASCII characters has nothing to trim.\<close>

definition visible :: "char \<Rightarrow> bool" where
  "visible c \<longleftrightarrow> 33 \<le> (of_char c :: nat) \<and> (of_char c :: nat) < 127"

lemma space_encodings_not_visible:
  "e \<in> set space_encodings \<Longrightarrow> \<exists>x xs. e = x # xs \<and> \<not> visible x \<and> (\<forall>y \<in> set xs. \<not> visible y)"
  by (auto simp: space_encodings_def visible_def)

lemma strip1_visible:
  assumes "\<And>e. e \<in> set encs \<Longrightarrow> \<exists>x xs. e = x # xs \<and> \<not> visible x" and "\<forall>c \<in> set s. visible c"
  shows "strip1 encs s = s"
proof -
  have "\<not> has_prefix e s" if e: "e \<in> set encs" for e
    using assms(1) [OF e] assms(2) by (cases s) (auto simp: has_prefix_def)
  then have "find (\<lambda>e. has_prefix e s) encs = None" by (simp add: find_None_iff)
  then show ?thesis by (simp add: strip1_def)
qed

lemma funpow_fixed: "f x = x \<Longrightarrow> (f ^^ n) x = x"
  by (induction n) auto

lemma trim_space_visible:
  assumes "\<forall>c \<in> set s. visible c"
  shows "trim_space s = s"
proof -
  have left: "trim_left space_encodings s = s"
    unfolding trim_left_def
    by (rule funpow_fixed, rule strip1_visible [OF _ assms]) (use space_encodings_not_visible in blast)
  have "\<exists>x xs. e = x # xs \<and> \<not> visible x" if e: "e \<in> set (map rev space_encodings)" for e
  proof -
    obtain d where d: "d \<in> set space_encodings" "e = rev d" using e by auto
    then have "e \<noteq> []" and "\<forall>y \<in> set e. \<not> visible y" using space_encodings_not_visible [OF d(1)] by auto
    then show ?thesis by (cases e) auto
  qed
  then have "trim_left (map rev space_encodings) (rev s) = rev s"
    unfolding trim_left_def by (intro funpow_fixed strip1_visible) (use assms in auto)
  with left show ?thesis by (simp add: trim_space_def)
qed

lemma split_on_not_Nil [simp]: "split_on c s \<noteq> []"
  by (induction s) (auto split: list.splits)

lemma split2_not_Nil [simp]: "split2 c s \<noteq> []"
  by (induction s) (auto split: list.splits)

lemma split_on_no_sep: "c \<notin> set s \<Longrightarrow> split_on c s = [s]"
  by (induction s) auto

lemma split_on_sep: "c \<notin> set a \<Longrightarrow> split_on c (a @ c # b) = a # split_on c b"
  by (induction a) auto

lemma split2_sep: "c \<notin> set a \<Longrightarrow> split2 c (a @ c # b) = [a, b]"
  by (induction a) auto

lemma split2_no_sep: "c \<notin> set s \<Longrightarrow> split2 c s = [s]"
  by (induction s) auto

lemma split2_length: "length (split2 c s) \<le> 2"
  by (induction s) (auto split: list.splits)

lemma split2_join:
  "split2 c s = [a, b] \<Longrightarrow> s = a @ c # b \<and> c \<notin> set a"
proof (induction s arbitrary: a)
  case Nil
  then show ?case by simp
next
  case (Cons x xs)
  then show ?case
    by (cases "split2 c xs") (auto split: if_splits)
qed

lemma split_on_concat: "concat (map (\<lambda>p. p @ [c]) (split_on c s)) = s @ [c]"
proof (induction s)
  case Nil
  then show ?case by simp
next
  case (Cons x xs)
  then show ?case by (cases "split_on c xs") auto
qed

lemma split_on_parts_no_sep: "p \<in> set (split_on c s) \<Longrightarrow> c \<notin> set p"
proof (induction s arbitrary: p)
  case Nil
  then show ?case by simp
next
  case (Cons x xs)
  then show ?case
    by (cases "split_on c xs") (auto split: if_splits)
qed

lemma has_prefix_append [simp]: "has_prefix p (p @ s)"
  by (simp add: has_prefix_def)

lemma trim_prefix_append [simp]: "trim_prefix p (p @ s) = s"
  by (simp add: trim_prefix_def)

lemma has_prefix_iff: "has_prefix p s \<longleftrightarrow> (\<exists>t. s = p @ t)"
  unfolding has_prefix_def by (metis append_take_drop_id append_eq_conv_conj)

section \<open>Bytes and text\<close>

definition bytes_of_string :: "string \<Rightarrow> bytes" where
  "bytes_of_string s = map (\<lambda>c. word_of_nat (of_char c)) s"

definition string_of_bytes :: "bytes \<Rightarrow> string" where
  "string_of_bytes bs = map (\<lambda>b. char_of (unat b)) bs"

lemma unat_byte_less: "unat (b :: byte) < 256"
  using unsigned_less [of b, where ?'a = nat] by simp

lemma string_of_bytes_of_string [simp]: "string_of_bytes (bytes_of_string s) = s"
proof -
  have "unat (word_of_nat (of_char c) :: byte) = of_char c" for c :: char
    by (simp add: unat_of_nat)
  then show ?thesis by (simp add: string_of_bytes_def bytes_of_string_def comp_def)
qed

lemma bytes_of_string_of_bytes [simp]: "bytes_of_string (string_of_bytes bs) = bs"
proof -
  have "(of_char (char_of (unat b)) :: nat) = unat b" for b :: byte
    using unat_byte_less [of b] by simp
  then show ?thesis by (simp add: string_of_bytes_def bytes_of_string_def comp_def)
qed

section \<open>Package strconv: decimal printing\<close>

definition dec_digit :: "nat \<Rightarrow> char" where
  "dec_digit d = char_of (48 + d)"

fun show_nat :: "nat \<Rightarrow> string" where
  "show_nat n = (if n < 10 then [dec_digit n] else show_nat (n div 10) @ [dec_digit (n mod 10)])"

declare show_nat.simps [simp del]

definition show_int :: "int \<Rightarrow> string" where
  "show_int i = (if i < 0 then CHR ''-'' # show_nat (nat (- i)) else show_nat (nat i))"

lemma dec_digit_inj: "d < 10 \<Longrightarrow> e < 10 \<Longrightarrow> dec_digit d = dec_digit e \<longleftrightarrow> d = e"
  by (auto simp: dec_digit_def char_of_eq_iff take_bit_eq_mod dest: arg_cong [where f = "of_char :: char \<Rightarrow> nat"])

lemma dec_digit_not_minus: "d < 10 \<Longrightarrow> dec_digit d \<noteq> CHR ''-''"
  by (auto simp: dec_digit_def dest: arg_cong [where f = "of_char :: char \<Rightarrow> nat"])

lemma show_nat_not_Nil [simp]: "show_nat n \<noteq> []"
  by (subst show_nat.simps) simp

lemma show_nat_digits: "c \<in> set (show_nat n) \<Longrightarrow> \<exists>d < 10. c = dec_digit d"
proof (induction n rule: show_nat.induct)
  case (1 n)
  show ?case
  proof (cases "n < 10")
    case True
    with "1.prems" show ?thesis by (subst (asm) show_nat.simps) auto
  next
    case False
    with "1.prems" have "c \<in> set (show_nat (n div 10)) \<or> c = dec_digit (n mod 10)"
      by (subst (asm) show_nat.simps) auto
    with "1.IH" [OF False] show ?thesis by (auto intro: exI [of _ "n mod 10"])
  qed
qed

lemma show_nat_no_minus: "CHR ''-'' \<notin> set (show_nat n)"
  using show_nat_digits dec_digit_not_minus by metis

lemma show_nat_inj: "show_nat m = show_nat n \<longleftrightarrow> m = n"
proof
  assume "show_nat m = show_nat n"
  then show "m = n"
  proof (induction m arbitrary: n rule: show_nat.induct)
    case (1 m)
    note u = show_nat.simps [of m] show_nat.simps [of n]
    consider "m < 10" "n < 10" | "m < 10" "\<not> n < 10" | "\<not> m < 10" "n < 10" | "\<not> m < 10" "\<not> n < 10"
      by blast
    then show ?case
    proof cases
      case 1
      with \<open>show_nat m = show_nat n\<close> show ?thesis by (simp add: u dec_digit_inj)
    next
      case 2
      with \<open>show_nat m = show_nat n\<close> have False
        by (cases "show_nat (n div 10)") (simp_all add: u)
      then show ?thesis ..
    next
      case 3
      with \<open>show_nat m = show_nat n\<close> have False
        by (cases "show_nat (m div 10)") (simp_all add: u)
      then show ?thesis ..
    next
      case 4
      with \<open>show_nat m = show_nat n\<close>
      have "show_nat (m div 10) = show_nat (n div 10)" and "m mod 10 = n mod 10"
        by (simp_all add: u dec_digit_inj)
      with "1.IH" [OF 4(1)] have "m div 10 = n div 10" and "m mod 10 = n mod 10" by blast+
      then show ?thesis by (metis div_mult_mod_eq)
    qed
  qed
qed simp

lemma show_int_inj: "show_int i = show_int j \<longleftrightarrow> i = j"
proof -
  have no: "CHR ''-'' # t \<noteq> show_nat n" for t n
    using show_nat_no_minus [of n] by (metis list.set_intros(1))
  show ?thesis
    by (auto simp: show_int_def show_nat_inj no no [symmetric] split: if_splits)
qed

section \<open>Package encoding/hex and the verb \<open>%p\<close>\<close>

definition hex_digit :: "nat \<Rightarrow> char" where
  "hex_digit d = (if d < 10 then char_of (48 + d) else char_of (87 + d))"

text \<open>\<open>hex.EncodeToString\<close>: two lower-case digits for each byte.\<close>

definition hex_byte :: "byte \<Rightarrow> string" where
  "hex_byte b = [hex_digit (unat b div 16), hex_digit (unat b mod 16)]"

definition hex_encode :: "bytes \<Rightarrow> string" where
  "hex_encode bs = concat (map hex_byte bs)"

fun show_hex :: "nat \<Rightarrow> string" where
  "show_hex n = (if n < 16 then [hex_digit n] else show_hex (n div 16) @ [hex_digit (n mod 16)])"

declare show_hex.simps [simp del]

lemma hex_digit_inj: "d < 16 \<Longrightarrow> e < 16 \<Longrightarrow> hex_digit d = hex_digit e \<longleftrightarrow> d = e"
  by (auto simp: hex_digit_def char_of_eq_iff take_bit_eq_mod split: if_splits
      dest: arg_cong [where f = "of_char :: char \<Rightarrow> nat"])

lemma hex_digit_range: "d < 16 \<Longrightarrow> hex_digit d \<in> set ''0123456789abcdef''"
proof -
  assume "d < 16"
  then have "d \<in> set [0..<16]" by simp
  moreover have "\<forall>d \<in> set [0..<16]. hex_digit d \<in> set ''0123456789abcdef''" by code_simp
  ultimately show ?thesis by blast
qed

lemma hex_byte_inj: "hex_byte a = hex_byte b \<longleftrightarrow> a = b"
proof
  assume "hex_byte a = hex_byte b"
  then have "unat a div 16 = unat b div 16" and "unat a mod 16 = unat b mod 16"
    using unat_byte_less [of a] unat_byte_less [of b] by (auto simp: hex_byte_def hex_digit_inj)
  then have "unat a = unat b" by (metis div_mult_mod_eq)
  then show "a = b" by (simp add: word_unat_eq_iff)
qed simp

lemma hex_encode_Nil [simp]: "hex_encode [] = []"
  by (simp add: hex_encode_def)

lemma hex_encode_Cons: "hex_encode (b # bs) = hex_byte b @ hex_encode bs"
  by (simp add: hex_encode_def)

lemma hex_encode_length: "length (hex_encode bs) = 2 * length bs"
  by (induction bs) (auto simp: hex_encode_Cons hex_byte_def)

lemma hex_encode_inj: "hex_encode as = hex_encode bs \<longleftrightarrow> as = bs"
proof
  assume eq: "hex_encode as = hex_encode bs"
  then have "length as = length bs"
    by (metis hex_encode_length mult_cancel1 zero_neq_numeral)
  then show "as = bs" using eq
  proof (induction as bs rule: list_induct2)
    case Nil
    then show ?case by simp
  next
    case (Cons a as b bs)
    then have "hex_byte a = hex_byte b" and "hex_encode as = hex_encode bs"
      by (auto simp: hex_encode_Cons hex_byte_def)
    with Cons.IH show ?case by (simp add: hex_byte_inj)
  qed
qed simp

lemma hex_encode_chars: "set (hex_encode bs) \<subseteq> set ''0123456789abcdef''"
proof (induction bs)
  case Nil
  then show ?case by simp
next
  case (Cons b bs)
  have "unat b div 16 < 16" and "unat b mod 16 < 16"
    using unat_byte_less [of b] by auto
  then have "set (hex_byte b) \<subseteq> set ''0123456789abcdef''"
    using hex_digit_range by (simp add: hex_byte_def)
  with Cons show ?case unfolding hex_encode_Cons set_append by blast
qed

lemma show_hex_digits: "set (show_hex n) \<subseteq> set ''0123456789abcdef''"
proof (induction n rule: show_hex.induct)
  case (1 n)
  show ?case
  proof (cases "n < 16")
    case True
    then show ?thesis
      using hex_digit_range [of n] by (subst show_hex.simps) simp
  next
    case False
    then show ?thesis
      using "1.IH" [OF False] hex_digit_range [of "n mod 16"] by (subst show_hex.simps) simp
  qed
qed

lemma show_hex_not_Nil [simp]: "show_hex n \<noteq> []"
  by (subst show_hex.simps) simp

lemma show_hex_inj: "show_hex m = show_hex n \<longleftrightarrow> m = n"
proof
  assume "show_hex m = show_hex n"
  then show "m = n"
  proof (induction m arbitrary: n rule: show_hex.induct)
    case (1 m)
    note u = show_hex.simps [of m] show_hex.simps [of n]
    consider "m < 16" "n < 16" | "(m < 16) \<noteq> (n < 16)" | "\<not> m < 16" "\<not> n < 16"
      by blast
    then show ?case
    proof cases
      case 1
      with \<open>show_hex m = show_hex n\<close> show ?thesis by (simp add: u hex_digit_inj)
    next
      case 2
      with \<open>show_hex m = show_hex n\<close> have False
        by (cases "show_hex (n div 16)"; cases "show_hex (m div 16)") (auto simp: u split: if_splits)
      then show ?thesis ..
    next
      case 3
      with \<open>show_hex m = show_hex n\<close>
      have "show_hex (m div 16) = show_hex (n div 16)" and "m mod 16 = n mod 16"
        by (simp_all add: u hex_digit_inj)
      with "1.IH" [OF 3(1)] have "m div 16 = n div 16" and "m mod 16 = n mod 16" by blast+
      then show ?thesis by (metis div_mult_mod_eq)
    qed
  qed
qed simp

end
