(* ===== verification/Bastion_Registry.thy ===== *)
theory Bastion_Registry
  imports Relay_Prelude
begin

text \<open>
  The bastion registration ledger (\<open>internal/registry/registry.go\<close>): the record
  \<open>Bastion\<close>, the in-memory implementation \<open>Memory\<close> of the interface \<open>Registry\<close>, and
  \<open>mintToken\<close>.

  \<open>Memory\<close> holds two maps of pointers into the same rows (\<open>byID\<close> and \<open>byToken\<close>), and an
  update through one pointer is seen through the other. The model keeps the aliasing: a store
  from addresses to rows, and two maps to addresses. What the rest of the relay relies on is
  the interface: the locale \<open>bastion_store\<close> states it against a ledger that has one row for
  each bastion, and is interpreted on the store model.
\<close>

section \<open>Data\<close>

record bastion =
  b_ID :: string
  b_UserID :: string
  b_DaemonToken :: string
  b_LastSeenAt :: time
  b_CreatedAt :: time
  b_ChepherdVersion :: string
  b_Capabilities :: "string list"
  b_Hostname :: string

text \<open>
  Errors of the package; \<open>ErrRequired\<close> is the anonymous error of \<open>Register\<close> and
  \<open>ErrEntropy\<close> carries the text of an error of \<open>rand.Read\<close>.
\<close>

datatype reg_error =
    ErrUnknownBastion
  | ErrUnknownToken
  | ErrTakenByOther
  | ErrRequired
  | ErrEntropy string

fun reg_error_text :: "reg_error \<Rightarrow> string" where
  "reg_error_text ErrUnknownBastion = ''registry: unknown bastion''"
| "reg_error_text ErrUnknownToken = ''registry: unknown daemon token''"
| "reg_error_text ErrTakenByOther = ''registry: bastion_id taken by another user''"
| "reg_error_text ErrRequired = ''registry: ID and UserID required''"
| "reg_error_text (ErrEntropy e) = e"

text \<open>The value of one \<open>rand.Read\<close> of 32 bytes: the bytes, or the text of its error.\<close>

type_synonym entropy = "string + bytes"

definition mint_token :: "entropy \<Rightarrow> string + string" where
  "mint_token e = (case e of Inl err \<Rightarrow> Inl err | Inr bs \<Rightarrow> Inr (''chep_'' @ hex_encode bs))"

record memory =
  rows :: "nat \<Rightarrow> bastion"
  next_row :: nat
  byID :: "string \<rightharpoonup> nat"
  byToken :: "string \<rightharpoonup> nat"

definition zero_bastion :: bastion where
  "zero_bastion =
     \<lparr>b_ID = [], b_UserID = [], b_DaemonToken = [], b_LastSeenAt = zero_time,
      b_CreatedAt = zero_time, b_ChepherdVersion = [], b_Capabilities = [], b_Hostname = []\<rparr>"

definition NewMemory :: memory where
  "NewMemory =
     \<lparr>rows = (\<lambda>_. zero_bastion), next_row = 0, byID = Map.empty, byToken = Map.empty\<rparr>"

section \<open>Operations\<close>

definition Register :: "memory \<Rightarrow> bastion \<Rightarrow> entropy \<Rightarrow> time \<Rightarrow> memory \<times> (reg_error + string)" where
  "Register m b ent now =
     (if b_ID b = [] \<or> b_UserID b = [] then (m, Inl ErrRequired)
      else case byID m (b_ID b) of
        Some p \<Rightarrow>
          let existing = rows m p in
          if b_UserID existing \<noteq> b_UserID b then (m, Inl ErrTakenByOther)
          else
            let m1 = m\<lparr>byToken := (byToken m)(b_DaemonToken existing := None)\<rparr> in
            (case mint_token ent of
               Inl e \<Rightarrow> (m1, Inl (ErrEntropy e))
             | Inr newTok \<Rightarrow>
                 (m1\<lparr>rows := (rows m1)(p := existing
                        \<lparr>b_DaemonToken := newTok, b_LastSeenAt := now,
                         b_Capabilities := b_Capabilities b,
                         b_ChepherdVersion := b_ChepherdVersion b,
                         b_Hostname := b_Hostname b\<rparr>),
                     byToken := (byToken m1)(newTok \<mapsto> p)\<rparr>, Inr newTok))
      | None \<Rightarrow>
          (case mint_token ent of
             Inl e \<Rightarrow> (m, Inl (ErrEntropy e))
           | Inr tok \<Rightarrow>
               let stored = b\<lparr>b_DaemonToken := tok, b_CreatedAt := now, b_LastSeenAt := now\<rparr>;
                   p = next_row m in
               (m\<lparr>rows := (rows m)(p := stored), next_row := Suc p,
                  byID := (byID m)(b_ID b \<mapsto> p), byToken := (byToken m)(tok \<mapsto> p)\<rparr>, Inr tok)))"

definition Touch :: "memory \<Rightarrow> string \<Rightarrow> time \<Rightarrow> memory \<times> reg_error option" where
  "Touch m bastionID now =
     (case byID m bastionID of
        None \<Rightarrow> (m, Some ErrUnknownBastion)
      | Some p \<Rightarrow> (m\<lparr>rows := (rows m)(p := (rows m p)\<lparr>b_LastSeenAt := now\<rparr>)\<rparr>, None))"

definition redact :: "bastion \<Rightarrow> bastion" where
  "redact b = b\<lparr>b_DaemonToken := []\<rparr>"

definition Get :: "memory \<Rightarrow> string \<Rightarrow> reg_error + bastion" where
  "Get m bastionID =
     (case byID m bastionID of
        None \<Rightarrow> Inl ErrUnknownBastion
      | Some p \<Rightarrow> Inr (redact (rows m p)))"

definition VerifyDaemonToken :: "memory \<Rightarrow> string \<Rightarrow> reg_error + bastion" where
  "VerifyDaemonToken m token =
     (if token = [] then Inl ErrUnknownToken
      else case byToken m token of
        None \<Rightarrow> Inl ErrUnknownToken
      | Some p \<Rightarrow> Inr (redact (rows m p)))"

text \<open>\<open>ks\<close> is the order in which the loop over \<open>byID\<close> meets its keys.\<close>

definition ListByUser :: "memory \<Rightarrow> string list \<Rightarrow> string \<Rightarrow> bastion list" where
  "ListByUser m ks userID =
     concat (map (\<lambda>k. case byID m k of
               None \<Rightarrow> []
             | Some p \<Rightarrow> if b_UserID (rows m p) = userID then [redact (rows m p)] else []) ks)"

section \<open>Well-formed stores\<close>

text \<open>
  Every row reached by ID carries that ID and an owner, lies below the allocation mark, and
  every token in \<open>byToken\<close> is the current token of the row it points to.
\<close>

definition reg_inv :: "memory \<Rightarrow> bool" where
  "reg_inv m \<longleftrightarrow>
     finite (dom (byID m)) \<and>
     (\<forall>i p. byID m i = Some p \<longrightarrow>
        p < next_row m \<and> b_ID (rows m p) = i \<and> i \<noteq> [] \<and> b_UserID (rows m p) \<noteq> []) \<and>
     (\<forall>t p. byToken m t = Some p \<longrightarrow>
        b_DaemonToken (rows m p) = t \<and> t \<noteq> [] \<and> byID m (b_ID (rows m p)) = Some p)"

text \<open>Every registered bastion can be found by its current token.\<close>

definition token_complete :: "memory \<Rightarrow> bool" where
  "token_complete m \<longleftrightarrow>
     (\<forall>i p. byID m i = Some p \<longrightarrow> byToken m (b_DaemonToken (rows m p)) = Some p)"

lemma reg_invD:
  assumes "reg_inv m" and "byID m i = Some p"
  shows "p < next_row m" and "b_ID (rows m p) = i" and "i \<noteq> []" and "b_UserID (rows m p) \<noteq> []"
  using assms by (auto simp: reg_inv_def)

lemma reg_inv_tokenD:
  assumes "reg_inv m" and "byToken m t = Some p"
  shows "b_DaemonToken (rows m p) = t" and "t \<noteq> []" and "byID m (b_ID (rows m p)) = Some p"
  using assms by (auto simp: reg_inv_def)

lemma reg_inv_finite: "reg_inv m \<Longrightarrow> finite (dom (byID m))"
  by (simp add: reg_inv_def)

lemma reg_inv_same_row:
  "reg_inv m \<Longrightarrow> byID m i = Some p \<Longrightarrow> byID m j = Some p \<Longrightarrow> i = j"
  using reg_invD(2) by metis

lemma mint_token_not_Nil: "mint_token e = Inr t \<Longrightarrow> t \<noteq> []"
  by (auto simp: mint_token_def split: sum.splits)

lemma reg_inv_NewMemory [relay_inv]: "reg_inv NewMemory"
  by (simp add: reg_inv_def NewMemory_def)

lemma token_complete_NewMemory: "token_complete NewMemory"
  by (simp add: token_complete_def NewMemory_def)

section \<open>The outcomes of Register\<close>

text \<open>
  The five ways through \<open>Register\<close>, with the state each leaves.
\<close>

definition rotated_row :: "bastion \<Rightarrow> bastion \<Rightarrow> string \<Rightarrow> time \<Rightarrow> bastion" where
  "rotated_row old b tok now = old
     \<lparr>b_DaemonToken := tok, b_LastSeenAt := now, b_Capabilities := b_Capabilities b,
      b_ChepherdVersion := b_ChepherdVersion b, b_Hostname := b_Hostname b\<rparr>"

definition fresh_row :: "bastion \<Rightarrow> string \<Rightarrow> time \<Rightarrow> bastion" where
  "fresh_row b tok now = b\<lparr>b_DaemonToken := tok, b_CreatedAt := now, b_LastSeenAt := now\<rparr>"

lemma row_simps [simp]:
  "b_ID (rotated_row old b tok now) = b_ID old"
  "b_UserID (rotated_row old b tok now) = b_UserID old"
  "b_DaemonToken (rotated_row old b tok now) = tok"
  "b_CreatedAt (rotated_row old b tok now) = b_CreatedAt old"
  "b_ID (fresh_row b tok now) = b_ID b"
  "b_UserID (fresh_row b tok now) = b_UserID b"
  "b_DaemonToken (fresh_row b tok now) = tok"
  "b_CreatedAt (fresh_row b tok now) = now"
  "b_DaemonToken (redact b) = []"
  "b_ID (redact b) = b_ID b"
  "b_UserID (redact b) = b_UserID b"
  by (simp_all add: rotated_row_def fresh_row_def redact_def)

lemma Register_cases:
  obtains
    (missing) "b_ID b = [] \<or> b_UserID b = []" "Register m b ent now = (m, Inl ErrRequired)"
  | (taken) p where "b_ID b \<noteq> []" "b_UserID b \<noteq> []" "byID m (b_ID b) = Some p"
      "b_UserID (rows m p) \<noteq> b_UserID b" "Register m b ent now = (m, Inl ErrTakenByOther)"
  | (rotate_fail) p e where "b_ID b \<noteq> []" "b_UserID b \<noteq> []" "byID m (b_ID b) = Some p"
      "b_UserID (rows m p) = b_UserID b" "mint_token ent = Inl e"
      "Register m b ent now =
         (m\<lparr>byToken := (byToken m)(b_DaemonToken (rows m p) := None)\<rparr>, Inl (ErrEntropy e))"
  | (rotate) p tok where "b_ID b \<noteq> []" "b_UserID b \<noteq> []" "byID m (b_ID b) = Some p"
      "b_UserID (rows m p) = b_UserID b" "mint_token ent = Inr tok"
      "Register m b ent now =
         (m\<lparr>rows := (rows m)(p := rotated_row (rows m p) b tok now),
            byToken := (byToken m)(b_DaemonToken (rows m p) := None, tok := Some p)\<rparr>, Inr tok)"
  | (new_fail) e where "b_ID b \<noteq> []" "b_UserID b \<noteq> []" "byID m (b_ID b) = None"
      "mint_token ent = Inl e" "Register m b ent now = (m, Inl (ErrEntropy e))"
  | (new) tok where "b_ID b \<noteq> []" "b_UserID b \<noteq> []" "byID m (b_ID b) = None"
      "mint_token ent = Inr tok"
      "Register m b ent now =
         (m\<lparr>rows := (rows m)(next_row m := fresh_row b tok now), next_row := Suc (next_row m),
            byID := (byID m)(b_ID b \<mapsto> next_row m), byToken := (byToken m)(tok \<mapsto> next_row m)\<rparr>,
          Inr tok)"
proof (cases "b_ID b = [] \<or> b_UserID b = []")
  case True
  then show ?thesis by (intro missing) (auto simp: Register_def)
next
  case False
  then show ?thesis
    by (cases "byID m (b_ID b)"; cases "mint_token ent";
        cases "b_UserID (rows m (the (byID m (b_ID b)))) = b_UserID b")
      (auto simp: Register_def Let_def rotated_row_def fresh_row_def
        intro: taken rotate_fail rotate new_fail new)
qed

lemma Register_inv [relay_inv]:
  assumes "reg_inv m"
  shows "reg_inv (fst (Register m b ent now))"
proof (cases rule: Register_cases [of b m ent now])
  case missing
  with assms show ?thesis by simp
next
  case taken
  with assms show ?thesis by simp
next
  case (rotate_fail p e)
  with assms show ?thesis by (auto simp: reg_inv_def)
next
  case (rotate p tok)
  have "t = b_DaemonToken (rows m p)" if "byToken m t = Some p" for t
    using reg_inv_tokenD(1) [OF assms that] by simp
  with assms rotate mint_token_not_Nil [OF rotate(5)] show ?thesis
    by (auto simp: reg_inv_def)
next
  case new_fail
  with assms show ?thesis by simp
next
  case (new tok)
  have "p \<noteq> next_row m" if "byID m i = Some p" for i p
    using reg_invD(1) [OF assms that] by simp
  moreover have "p \<noteq> next_row m" if "byToken m t = Some p" for t p
    using reg_invD(1) [OF assms reg_inv_tokenD(3) [OF assms that]] by simp
  moreover have "b_ID (rows m p) \<noteq> b_ID b" if "byToken m t = Some p" for t p
    using reg_inv_tokenD(3) [OF assms that] new(3) by auto
  ultimately show ?thesis
    using assms new mint_token_not_Nil [OF new(4)] by (auto simp: reg_inv_def less_Suc_eq)
qed

lemma Touch_inv [relay_inv]: "reg_inv m \<Longrightarrow> reg_inv (fst (Touch m i now))"
  by (auto simp: reg_inv_def Touch_def split: option.splits)


section \<open>The ledger: one row for each bastion\<close>

text \<open>
  The abstract state of the component: what the ledger holds for each bastion ID, without
  addresses. \<open>spec_register\<close> is what the interface promises of \<open>Register\<close>.
\<close>

definition ledger :: "memory \<Rightarrow> string \<rightharpoonup> bastion" where
  "ledger m i = map_option (rows m) (byID m i)"

definition spec_register ::
    "(string \<rightharpoonup> bastion) \<Rightarrow> bastion \<Rightarrow> entropy \<Rightarrow> time \<Rightarrow>
     (string \<rightharpoonup> bastion) \<times> (reg_error + string)" where
  "spec_register l b ent now =
     (if b_ID b = [] \<or> b_UserID b = [] then (l, Inl ErrRequired)
      else case l (b_ID b) of
        Some old \<Rightarrow>
          (if b_UserID old \<noteq> b_UserID b then (l, Inl ErrTakenByOther)
           else case mint_token ent of
             Inl e \<Rightarrow> (l, Inl (ErrEntropy e))
           | Inr tok \<Rightarrow> (l(b_ID b \<mapsto> rotated_row old b tok now), Inr tok))
      | None \<Rightarrow>
          (case mint_token ent of
             Inl e \<Rightarrow> (l, Inl (ErrEntropy e))
           | Inr tok \<Rightarrow> (l(b_ID b \<mapsto> fresh_row b tok now), Inr tok)))"

lemma dom_ledger [simp]: "dom (ledger m) = dom (byID m)"
  by (auto simp: ledger_def)

lemma ledger_NewMemory [simp]: "ledger NewMemory = Map.empty"
  by (simp add: ledger_def NewMemory_def fun_eq_iff)

lemma ledger_id: "reg_inv m \<Longrightarrow> ledger m i = Some b \<Longrightarrow> b_ID b = i"
  by (auto simp: ledger_def dest: reg_invD(2))

lemma ledger_update_row:
  assumes "reg_inv m" and "byID m i = Some p"
  shows "ledger (m\<lparr>rows := (rows m)(p := r)\<rparr>) = (ledger m)(i \<mapsto> r)"
proof
  fix j
  show "ledger (m\<lparr>rows := (rows m)(p := r)\<rparr>) j = ((ledger m)(i \<mapsto> r)) j"
    using assms reg_inv_same_row [OF assms(1), of j p i]
    by (cases "byID m j") (auto simp: ledger_def)
qed

lemma ledger_byToken [simp]: "ledger (m\<lparr>byToken := bt\<rparr>) = ledger m"
  by (simp add: ledger_def fun_eq_iff)

lemma ledger_rows_byToken:
  "ledger (m\<lparr>rows := r, byToken := bt\<rparr>) = ledger (m\<lparr>rows := r\<rparr>)"
  by (simp add: ledger_def fun_eq_iff)

lemma Register_refines:
  assumes "reg_inv m"
  shows "(ledger (fst (Register m b ent now)), snd (Register m b ent now)) =
         spec_register (ledger m) b ent now"
proof (cases rule: Register_cases [of b m ent now])
  case missing
  then show ?thesis by (auto simp: spec_register_def)
next
  case taken
  then show ?thesis by (simp add: spec_register_def ledger_def)
next
  case rotate_fail
  then show ?thesis by (simp add: spec_register_def) (simp add: ledger_def)
next
  case (rotate p tok)
  then show ?thesis
    using ledger_update_row [OF assms rotate(3)]
    by (simp add: spec_register_def ledger_rows_byToken) (simp add: ledger_def)
next
  case new_fail
  then show ?thesis by (simp add: spec_register_def ledger_def)
next
  case (new tok)
  have "p \<noteq> next_row m" if "byID m i = Some p" for i p
    using reg_invD(1) [OF assms that] by simp
  then have "ledger (fst (Register m b ent now)) = (ledger m)(b_ID b \<mapsto> fresh_row b tok now)"
    using new by (auto simp: ledger_def fun_eq_iff map_option_case split: option.splits)
  with new show ?thesis by (simp add: spec_register_def ledger_def)
qed

section \<open>The interface\<close>

text \<open>
  What the HTTP handlers rely on: registration acts on the ledger as \<open>spec_register\<close> says and
  keeps the provider's invariant, and the three readers show redacted rows of the ledger.
\<close>

locale bastion_store =
  fixes register :: "'s \<Rightarrow> bastion \<Rightarrow> entropy \<Rightarrow> time \<Rightarrow> 's \<times> (reg_error + string)"
    and get :: "'s \<Rightarrow> string \<Rightarrow> reg_error + bastion"
    and list_user :: "'s \<Rightarrow> string list \<Rightarrow> string \<Rightarrow> bastion list"
    and inv :: "'s \<Rightarrow> bool"
    and view :: "'s \<Rightarrow> string \<rightharpoonup> bastion"
  assumes inv_register: "inv s \<Longrightarrow> inv (fst (register s b ent now))"
    and register_spec: "inv s \<Longrightarrow>
      (view (fst (register s b ent now)), snd (register s b ent now)) = spec_register (view s) b ent now"
    and get_view: "get s i =
      (case view s i of None \<Rightarrow> Inl ErrUnknownBastion | Some b \<Rightarrow> Inr (redact b))"
    and list_view: "list_user s ks u =
      map redact (filter (\<lambda>b. b_UserID b = u) (concat (map (\<lambda>k. case view s k of None \<Rightarrow> [] | Some b \<Rightarrow> [b]) ks)))"
begin

lemma register_owner:
  assumes "inv s" and "register s b ent now = (s', Inr tok)"
  shows "\<exists>r. view s' (b_ID b) = Some r \<and> b_UserID r = b_UserID b \<and> b_DaemonToken r = tok"
  using register_spec [OF assms(1), of b ent now] assms(2)
  by (auto simp: spec_register_def split: if_splits option.splits sum.splits)

lemma register_then_get:
  assumes "inv s" and "register s b ent now = (s', Inr tok)"
  shows "\<exists>r. get s' (b_ID b) = Inr r \<and> b_UserID r = b_UserID b \<and> b_DaemonToken r = []"
  using register_owner [OF assms] by (auto simp: get_view)

lemma register_other:
  assumes "inv s" and "i \<noteq> b_ID b"
  shows "view (fst (register s b ent now)) i = view s i"
  using register_spec [OF assms(1), of b ent now] assms(2)
  by (auto simp: spec_register_def split: if_splits option.splits sum.splits)

lemma register_keeps_owner:
  assumes "inv s" and "view s i = Some r"
  shows "\<exists>r'. view (fst (register s b ent now)) i = Some r' \<and>
              b_UserID r' = b_UserID r \<and> b_CreatedAt r' = b_CreatedAt r"
  using register_spec [OF assms(1), of b ent now] assms(2)
  by (auto simp: spec_register_def split: if_splits option.splits sum.splits)

lemma register_error_view:
  assumes "inv s" and "register s b ent now = (s', Inl e)"
  shows "view s' = view s"
  using register_spec [OF assms(1), of b ent now] assms(2)
  by (auto simp: spec_register_def split: if_splits option.splits sum.splits)

lemma list_owned: "b \<in> set (list_user s ks u) \<Longrightarrow> b_UserID b = u \<and> b_DaemonToken b = []"
  by (auto simp: list_view)

lemma list_complete:
  assumes "enumerates ks (view s)"
  shows "set (list_user s ks u) = {redact b | b i. view s i = Some b \<and> b_UserID b = u}"
  using enumerates_set [OF assms] by (auto simp: list_view split: option.splits) force

end

lemma Get_ledger:
  "Get m i = (case ledger m i of None \<Rightarrow> Inl ErrUnknownBastion | Some b \<Rightarrow> Inr (redact b))"
  by (simp add: Get_def ledger_def split: option.splits)

lemma ListByUser_ledger:
  "ListByUser m ks u =
     map redact (filter (\<lambda>b. b_UserID b = u)
       (concat (map (\<lambda>k. case ledger m k of None \<Rightarrow> [] | Some b \<Rightarrow> [b]) ks)))"
  by (induction ks) (auto simp: ListByUser_def ledger_def split: option.splits)

interpretation mem: bastion_store Register Get ListByUser reg_inv ledger
  by unfold_locales (simp_all only: Register_inv Register_refines Get_ledger ListByUser_ledger)

end
