(* ===== verification/Registry_Runs.thy ===== *)
theory Registry_Runs
  imports Bastion_Registry
begin

text \<open>
  Whole lives of the registration ledger (\<open>internal/registry/registry.go\<close>): sequences of
  calls of \<open>Register\<close> and \<open>Touch\<close> from the empty \<open>Memory\<close>. The results are about every
  sequence: it acts as the ledger promises, an ID never changes hands, a daemon token is
  accepted exactly while it is the current token of its bastion, and a rotated token stays
  dead. The last two assume that \<open>rand.Read\<close> gives 32 bytes that were not drawn before.
\<close>

section \<open>Sequences of calls\<close>

datatype reg_op = OpRegister bastion entropy time | OpTouch string time

datatype reg_result = RegisterResult "reg_error + string" | TouchResult "reg_error option"

fun reg_step :: "memory \<Rightarrow> reg_op \<Rightarrow> memory \<times> reg_result" where
  "reg_step m (OpRegister b ent now) = map_prod id RegisterResult (Register m b ent now)"
| "reg_step m (OpTouch i now) = map_prod id TouchResult (Touch m i now)"

fun reg_run :: "memory \<Rightarrow> reg_op list \<Rightarrow> memory \<times> reg_result list" where
  "reg_run m [] = (m, [])"
| "reg_run m (x # xs) =
     (let (m1, r) = reg_step m x; (m2, rs) = reg_run m1 xs in (m2, r # rs))"

definition spec_touch ::
    "(string \<rightharpoonup> bastion) \<Rightarrow> string \<Rightarrow> time \<Rightarrow> (string \<rightharpoonup> bastion) \<times> reg_error option" where
  "spec_touch l i now =
     (case l i of
        None \<Rightarrow> (l, Some ErrUnknownBastion)
      | Some b \<Rightarrow> (l(i \<mapsto> b\<lparr>b_LastSeenAt := now\<rparr>), None))"

fun spec_step ::
    "(string \<rightharpoonup> bastion) \<Rightarrow> reg_op \<Rightarrow> (string \<rightharpoonup> bastion) \<times> reg_result" where
  "spec_step l (OpRegister b ent now) = map_prod id RegisterResult (spec_register l b ent now)"
| "spec_step l (OpTouch i now) = map_prod id TouchResult (spec_touch l i now)"

fun spec_run ::
    "(string \<rightharpoonup> bastion) \<Rightarrow> reg_op list \<Rightarrow> (string \<rightharpoonup> bastion) \<times> reg_result list" where
  "spec_run l [] = (l, [])"
| "spec_run l (x # xs) =
     (let (l1, r) = spec_step l x; (l2, rs) = spec_run l1 xs in (l2, r # rs))"

lemma Touch_refines:
  assumes "reg_inv m"
  shows "(ledger (fst (Touch m i now)), snd (Touch m i now)) = spec_touch (ledger m) i now"
proof (cases "byID m i")
  case None
  then show ?thesis by (simp add: Touch_def spec_touch_def ledger_def)
next
  case (Some p)
  then show ?thesis
    using ledger_update_row [OF assms Some] by (simp add: Touch_def spec_touch_def) (simp add: ledger_def)
qed

lemma reg_step_inv [relay_inv]: "reg_inv m \<Longrightarrow> reg_inv (fst (reg_step m x))"
  by (cases x) (simp_all add: Register_inv Touch_inv)

lemma reg_step_refines:
  assumes "reg_inv m"
  shows "(ledger (fst (reg_step m x)), snd (reg_step m x)) = spec_step (ledger m) x"
  using Register_refines [OF assms] Touch_refines [OF assms]
  by (cases x) (simp_all add: map_prod_def case_prod_beta prod_eq_iff)

lemma reg_run_inv [relay_inv]: "reg_inv m \<Longrightarrow> reg_inv (fst (reg_run m xs))"
  by (induction xs arbitrary: m) (auto simp: case_prod_beta Let_def intro: reg_step_inv)

lemma reg_run_refines:
  assumes "reg_inv m"
  shows "(ledger (fst (reg_run m xs)), snd (reg_run m xs)) = spec_run (ledger m) xs"
  using assms
proof (induction xs arbitrary: m)
  case Nil
  then show ?case by simp
next
  case (Cons x xs)
  note step = reg_step_refines [OF Cons.prems, of x]
  note rest = Cons.IH [OF reg_step_inv [OF Cons.prems], of x]
  show ?case
    using step rest by (simp add: case_prod_beta Let_def prod_eq_iff)
qed

lemma reg_run_append:
  "fst (reg_run m (xs @ ys)) = fst (reg_run (fst (reg_run m xs)) ys)"
  by (induction xs arbitrary: m) (auto simp: case_prod_beta Let_def)

lemma reg_run_snoc: "fst (reg_run m (xs @ [x])) = fst (reg_step (fst (reg_run m xs)) x)"
  by (simp add: reg_run_append case_prod_beta Let_def)

section \<open>Owners\<close>

lemma reg_step_keeps_owner:
  assumes "reg_inv m" and "ledger m i = Some r"
  shows "\<exists>r'. ledger (fst (reg_step m x)) i = Some r' \<and>
              b_UserID r' = b_UserID r \<and> b_CreatedAt r' = b_CreatedAt r"
proof (cases x)
  case (OpRegister b ent now)
  then show ?thesis using mem.register_keeps_owner [OF assms] by simp
next
  case (OpTouch j now)
  then show ?thesis
    using Touch_refines [OF assms(1), of j now] assms(2)
    by (auto simp: spec_touch_def split: option.splits)
qed

lemma reg_run_keeps_owner:
  assumes "reg_inv m" and "ledger m i = Some r"
  shows "\<exists>r'. ledger (fst (reg_run m xs)) i = Some r' \<and>
              b_UserID r' = b_UserID r \<and> b_CreatedAt r' = b_CreatedAt r"
  using assms
proof (induction xs arbitrary: m r)
  case Nil
  then show ?case by simp
next
  case (Cons x xs)
  obtain r1 where "ledger (fst (reg_step m x)) i = Some r1"
      and "b_UserID r1 = b_UserID r" and "b_CreatedAt r1 = b_CreatedAt r"
    using reg_step_keeps_owner [OF Cons.prems] by blast
  with Cons.IH [OF reg_step_inv [OF Cons.prems(1)], of x r1] show ?case
    by (auto simp: case_prod_beta Let_def)
qed

section \<open>Fresh entropy\<close>

text \<open>The 32-byte draws of a sequence, in order; \<open>None\<close> stands for a failed draw.\<close>

fun op_draw :: "reg_op \<Rightarrow> bytes option list" where
  "op_draw (OpRegister b ent now) = [case ent of Inl _ \<Rightarrow> None | Inr bs \<Rightarrow> Some bs]"
| "op_draw (OpTouch i now) = []"

definition draws :: "reg_op list \<Rightarrow> bytes option list" where
  "draws xs = concat (map op_draw xs)"

definition fresh_draws :: "reg_op list \<Rightarrow> bool" where
  "fresh_draws xs \<longleftrightarrow> None \<notin> set (draws xs) \<and> distinct (draws xs)"

definition token_of :: "bytes \<Rightarrow> string" where
  "token_of bs = ''chep_'' @ hex_encode bs"

lemma token_of_inj: "token_of a = token_of b \<longleftrightarrow> a = b"
  by (simp add: token_of_def hex_encode_inj)

lemma mint_token_Inr: "mint_token (Inr bs) = Inr (token_of bs)"
  by (simp add: mint_token_def token_of_def)

lemma draws_snoc: "draws (xs @ [x]) = draws xs @ op_draw x"
  by (simp add: draws_def)

definition minted :: "reg_op list \<Rightarrow> string set" where
  "minted xs = {token_of bs | bs. Some bs \<in> set (draws xs)}"

lemma minted_snoc: "minted (xs @ [x]) = minted xs \<union> minted [x]"
  by (auto simp: minted_def draws_def)

text \<open>
  With fresh draws the two maps stay in step: each row is found under its token, and every
  token in use was minted in this run.
\<close>

definition tokens_minted :: "memory \<Rightarrow> reg_op list \<Rightarrow> bool" where
  "tokens_minted m xs \<longleftrightarrow> dom (byToken m) \<subseteq> minted xs"

lemma Register_token_complete:
  assumes inv: "reg_inv m" and "token_complete m"
    and "ent = Inr bs" and "byToken m (token_of bs) = None"
  shows "token_complete (fst (Register m b ent now))"
proof (cases rule: Register_cases [of b m ent now])
  case (rotate p tok)
  have "tok = token_of bs" using rotate(5) assms(3) by (simp add: mint_token_Inr)
  moreover have "byID m i = Some q \<Longrightarrow> q \<noteq> p \<Longrightarrow> b_DaemonToken (rows m q) \<noteq> b_DaemonToken (rows m p)" for i q
    using assms(2) rotate(3) unfolding token_complete_def by (metis option.inject)
  moreover have "byID m i = Some q \<Longrightarrow> b_DaemonToken (rows m q) \<noteq> token_of bs" for i q
    using assms(2,4) unfolding token_complete_def by fastforce
  moreover have "byToken m (b_DaemonToken (rows m q)) = Some q" if "byID m i = Some q" for i q
    using assms(2) that by (simp add: token_complete_def)
  ultimately show ?thesis
    unfolding token_complete_def rotate(6) by (simp add: rotate(3)) metis
next
  case (new tok)
  have tok: "tok = token_of bs" using new(4) assms(3) by (simp add: mint_token_Inr)
  have "byID m i = Some q \<Longrightarrow> b_DaemonToken (rows m q) \<noteq> token_of bs \<and> q \<noteq> next_row m" for i q
    using assms(2,4) reg_invD(1) [OF inv] unfolding token_complete_def by fastforce
  with assms(2) new tok show ?thesis by (auto simp: token_complete_def)
qed (use assms in \<open>auto simp: mint_token_Inr\<close>)

lemma Register_minted:
  "dom (byToken (fst (Register m b (Inr bs) now))) \<subseteq> insert (token_of bs) (dom (byToken m))"
  by (cases rule: Register_cases [of b m "Inr bs" now]) (auto simp: mint_token_Inr split: if_splits)

lemma Touch_byToken [simp]: "byToken (fst (Touch m i now)) = byToken m"
  by (simp add: Touch_def split: option.splits)

lemma Touch_token_complete: "token_complete m \<Longrightarrow> token_complete (fst (Touch m i now))"
  by (auto simp: Touch_def token_complete_def split: option.splits)

lemma reg_run_tokens:
  "fresh_draws xs \<Longrightarrow>
     token_complete (fst (reg_run NewMemory xs)) \<and> tokens_minted (fst (reg_run NewMemory xs)) xs"
proof (induction xs rule: rev_induct)
  case Nil
  then show ?case
    by (simp add: token_complete_NewMemory tokens_minted_def) (simp add: NewMemory_def)
next
  case (snoc x xs)
  let ?m = "fst (reg_run NewMemory xs)"
  have inv: "reg_inv ?m" by (intro reg_run_inv reg_inv_NewMemory)
  have "fresh_draws xs" using snoc.prems by (simp add: fresh_draws_def draws_snoc)
  with snoc.IH have tc: "token_complete ?m" and tm: "tokens_minted ?m xs" by auto
  show ?case
  proof (cases x)
    case (OpRegister b ent now)
    with snoc.prems obtain bs where ent: "ent = Inr bs" and new: "Some bs \<notin> set (draws xs)"
      by (cases ent) (auto simp: fresh_draws_def draws_snoc)
    then have "token_of bs \<notin> minted xs" by (auto simp: minted_def token_of_inj)
    with tm have free: "byToken ?m (token_of bs) = None" by (auto simp: tokens_minted_def)
    have "minted [x] = {token_of bs}" using OpRegister ent by (auto simp: minted_def draws_def)
    moreover have "dom (byToken (fst (Register ?m b (Inr bs) now))) \<subseteq> insert (token_of bs) (minted xs)"
      using tm Register_minted [of ?m b bs now] unfolding tokens_minted_def by blast
    ultimately have "tokens_minted (fst (reg_run NewMemory (xs @ [x]))) (xs @ [x])"
      using OpRegister ent by (simp add: reg_run_snoc tokens_minted_def minted_snoc)
    then show ?thesis
      using Register_token_complete [OF inv tc ent free] OpRegister by (simp add: reg_run_snoc)
  next
    case (OpTouch i now)
    with tc tm show ?thesis
      by (auto simp: reg_run_snoc tokens_minted_def minted_snoc Touch_token_complete)
  qed
qed

lemma Verify_iff:
  assumes "reg_inv m" and "token_complete m"
  shows "VerifyDaemonToken m tok = Inr r \<longleftrightarrow>
         (\<exists>b. ledger m (b_ID b) = Some b \<and> b_DaemonToken b = tok \<and> r = redact b)"
proof
  assume "VerifyDaemonToken m tok = Inr r"
  then obtain p where "byToken m tok = Some p" and r: "r = redact (rows m p)"
    by (auto simp: VerifyDaemonToken_def split: if_splits option.splits)
  from reg_inv_tokenD [OF assms(1) this(1)] r
  show "\<exists>b. ledger m (b_ID b) = Some b \<and> b_DaemonToken b = tok \<and> r = redact b"
    by (auto simp: ledger_def)
next
  assume "\<exists>b. ledger m (b_ID b) = Some b \<and> b_DaemonToken b = tok \<and> r = redact b"
  then obtain p where "byID m (b_ID (rows m p)) = Some p" and tok: "b_DaemonToken (rows m p) = tok"
      and "r = redact (rows m p)"
    by (auto simp: ledger_def)
  moreover from this assms(2) have "byToken m tok = Some p" by (auto simp: token_complete_def)
  moreover from reg_inv_tokenD(2) [OF assms(1) this] have "tok \<noteq> []" .
  ultimately show "VerifyDaemonToken m tok = Inr r" by (simp add: VerifyDaemonToken_def)
qed

lemma Verify_ErrUnknown: "VerifyDaemonToken m tok = Inl e \<Longrightarrow> e = ErrUnknownToken"
  by (auto simp: VerifyDaemonToken_def split: if_splits option.splits)

text \<open>A token that no row carries never comes back while draws are fresh.\<close>

lemma dead_token_stays_dead:
  assumes "fresh_draws (xs @ ys)" and "t \<in> minted xs"
    and "byToken (fst (reg_run NewMemory xs)) t = None"
  shows "byToken (fst (reg_run NewMemory (xs @ ys))) t = None"
  using assms(1)
proof (induction ys rule: rev_induct)
  case Nil
  with assms(3) show ?case by simp
next
  case (snoc y ys)
  let ?m = "fst (reg_run NewMemory (xs @ ys))"
  have fresh: "fresh_draws (xs @ ys)"
    using snoc.prems draws_snoc [of "xs @ ys" y] by (simp add: fresh_draws_def)
  with snoc.IH have dead: "byToken ?m t = None" by blast
  have run: "fst (reg_run NewMemory (xs @ ys @ [y])) = fst (reg_step ?m y)"
    using reg_run_snoc [of NewMemory "xs @ ys" y] by simp
  show ?case
  proof (cases y)
    case (OpRegister b ent now)
    with snoc.prems obtain bs where ent: "ent = Inr bs" and "Some bs \<notin> set (draws xs)"
      by (cases ent) (auto simp: fresh_draws_def draws_def)
    with assms(2) have "t \<noteq> token_of bs" by (auto simp: minted_def token_of_inj)
    with dead Register_minted [of ?m b bs now] show ?thesis
      using OpRegister ent run by (auto simp: domIff)
  next
    case (OpTouch i now)
    with dead run show ?thesis by simp
  qed
qed


lemma rotated_token_dies:
  assumes fresh: "fresh_draws (xs @ [OpRegister b (Inr bs) now])"
    and old: "ledger (fst (reg_run NewMemory xs)) (b_ID b) = Some old"
    and same: "b_UserID old = b_UserID b"
  shows "b_DaemonToken old \<in> minted xs" and
    "byToken (fst (reg_run NewMemory (xs @ [OpRegister b (Inr bs) now]))) (b_DaemonToken old) = None"
proof -
  let ?m = "fst (reg_run NewMemory xs)"
  have inv: "reg_inv ?m" by (intro reg_run_inv reg_inv_NewMemory)
  have "fresh_draws xs" and new: "Some bs \<notin> set (draws xs)"
    using fresh by (auto simp: fresh_draws_def draws_snoc)
  with reg_run_tokens have tc: "token_complete ?m" and tm: "tokens_minted ?m xs" by auto
  from old obtain p where p: "byID ?m (b_ID b) = Some p" and row: "rows ?m p = old"
    by (auto simp: ledger_def)
  have "byToken ?m (b_DaemonToken old) = Some p"
    using tc p row by (auto simp: token_complete_def)
  with tm show minted: "b_DaemonToken old \<in> minted xs" by (auto simp: tokens_minted_def)
  with new have ne: "b_DaemonToken old \<noteq> token_of bs" by (auto simp: minted_def token_of_inj)
  have "b_ID b \<noteq> []" and "b_UserID b \<noteq> []"
    using reg_invD(3,4) [OF inv p] row same by auto
  with p row same ne show
    "byToken (fst (reg_run NewMemory (xs @ [OpRegister b (Inr bs) now]))) (b_DaemonToken old) = None"
    by (simp add: reg_run_snoc Register_def Let_def mint_token_Inr)
qed

section \<open>Properties\<close>

text \<open>
  C17: Every sequence of \<open>Register\<close> and \<open>Touch\<close> calls on a fresh \<open>Memory\<close>, through its two
  maps of shared row pointers, gives the results and the ledger of the specification that keeps
  one row for each bastion ID: an ID of another user is refused, a call by the owner rotates the
  token and keeps the creation time, and nothing else changes.
\<close>

theorem registry_runs_refine_ledger:
  "(ledger (fst (reg_run NewMemory ops)), snd (reg_run NewMemory ops)) = spec_run Map.empty ops"
  using reg_run_refines [OF reg_inv_NewMemory, of ops] by simp

text \<open>
  Once registered, a bastion ID belongs to its first user for good: whatever calls follow,
  by any user, the row is still there with the same owner and the same creation time.
\<close>

theorem bastion_owner_is_permanent:
  assumes "ledger (fst (reg_run NewMemory xs)) i = Some r"
  shows "\<exists>r'. ledger (fst (reg_run NewMemory (xs @ ys))) i = Some r' \<and>
              b_UserID r' = b_UserID r \<and> b_CreatedAt r' = b_CreatedAt r"
  using reg_run_keeps_owner [OF reg_run_inv [OF reg_inv_NewMemory] assms, of ys]
  by (simp add: reg_run_append)

definition draw32 :: "nat \<Rightarrow> bytes" where
  "draw32 k = replicate 32 (word_of_nat k)"

lemma draw32_7: "draw32 1 \<noteq> draw32 7"
  by code_simp

definition sample_bastion :: "string \<Rightarrow> string \<Rightarrow> bastion" where
  "sample_bastion i u = zero_bastion\<lparr>b_ID := i, b_UserID := u\<rparr>"

definition sample_run :: "reg_op list" where
  "sample_run = [OpRegister (sample_bastion ''b1'' ''alice'') (Inr (draw32 1)) 10]"

lemma sample_run_ledger:
  "ledger (fst (reg_run NewMemory sample_run)) ''b1'' =
     Some (fresh_row (sample_bastion ''b1'' ''alice'') (token_of (draw32 1)) 10)"
  by (simp add: sample_run_def Register_def sample_bastion_def zero_bastion_def NewMemory_def
      mint_token_Inr ledger_def Let_def fresh_row_def)

theorem bastion_owner_is_permanent_witness:
  "\<exists>r'. ledger (fst (reg_run NewMemory
          (sample_run @ [OpRegister (sample_bastion ''b1'' ''mallory'') (Inr (draw32 3)) 20]))) ''b1'' = Some r' \<and>
        b_UserID r' = ''alice'' \<and> b_CreatedAt r' = 10"
  using bastion_owner_is_permanent [OF sample_run_ledger,
      of "[OpRegister (sample_bastion ''b1'' ''mallory'') (Inr (draw32 3)) 20]"]
  by (simp add: sample_bastion_def)

text \<open>
  C18: A daemon token is accepted exactly when it is the current token of some registered
  bastion, and then the answer is that bastion's row without the token; provided that no draw
  of random bytes failed or came twice.
\<close>

theorem daemon_token_accepted_iff_current:
  assumes "fresh_draws ops"
  shows "VerifyDaemonToken (fst (reg_run NewMemory ops)) tok = Inr r \<longleftrightarrow>
         (\<exists>b. ledger (fst (reg_run NewMemory ops)) (b_ID b) = Some b \<and>
              b_DaemonToken b = tok \<and> r = redact b)"
  using Verify_iff [OF reg_run_inv [OF reg_inv_NewMemory]] reg_run_tokens [OF assms] by blast

theorem daemon_token_accepted_iff_current_witness:
  "VerifyDaemonToken (fst (reg_run NewMemory sample_run)) (token_of (draw32 1)) =
     Inr (redact (fresh_row (sample_bastion ''b1'' ''alice'') (token_of (draw32 1)) 10))"
proof -
  have "fresh_draws sample_run" by (simp add: fresh_draws_def draws_def sample_run_def)
  from daemon_token_accepted_iff_current [OF this] sample_run_ledger show ?thesis
    by (auto simp: sample_bastion_def intro!: exI [of _ "fresh_row (sample_bastion ''b1'' ''alice'') (token_of (draw32 1)) 10"])
qed

text \<open>
  C19: When the owner registers a bastion again, the previous daemon token is refused from then
  on, after any number of further calls; again with fresh random bytes.
\<close>

theorem rotated_token_stays_revoked:
  assumes "fresh_draws (xs @ OpRegister b (Inr bs) now # ys)"
    and "ledger (fst (reg_run NewMemory xs)) (b_ID b) = Some old"
    and "b_UserID old = b_UserID b"
  shows "VerifyDaemonToken
           (fst (reg_run NewMemory (xs @ OpRegister b (Inr bs) now # ys))) (b_DaemonToken old) =
         Inl ErrUnknownToken"
proof -
  let ?pre = "xs @ [OpRegister b (Inr bs) now]"
  have all: "fresh_draws (?pre @ ys)" using assms(1) by simp
  then have pre: "fresh_draws ?pre" by (simp add: fresh_draws_def draws_def)
  have "b_DaemonToken old \<in> minted ?pre"
    using rotated_token_dies(1) [OF pre assms(2,3)] by (simp add: minted_snoc)
  from dead_token_stays_dead [OF all this rotated_token_dies(2) [OF pre assms(2,3)]]
  show ?thesis by (simp add: VerifyDaemonToken_def)
qed

theorem rotated_token_stays_revoked_witness:
  "VerifyDaemonToken
     (fst (reg_run NewMemory
        (sample_run @ OpRegister (sample_bastion ''b1'' ''alice'') (Inr (draw32 7)) 30 #
           [OpTouch ''b1'' 40]))) (token_of (draw32 1)) = Inl ErrUnknownToken"
proof -
  have "fresh_draws (sample_run @ OpRegister (sample_bastion ''b1'' ''alice'') (Inr (draw32 7)) 30 # [OpTouch ''b1'' 40])"
    using draw32_7 by (simp add: fresh_draws_def draws_def sample_run_def)
  from rotated_token_stays_revoked [OF this, of "fresh_row (sample_bastion ''b1'' ''alice'') (token_of (draw32 1)) 10"]
  show ?thesis using sample_run_ledger by (simp add: sample_bastion_def)
qed

text \<open>
  The error path of a rotation: when the draw of random bytes fails for a bastion that is
  already registered to the caller, the call reports the error but the old token is revoked all
  the same, although the row still carries it: no token of that bastion is accepted any more.
\<close>

theorem failed_rotation_revokes_old_token:
  assumes "reg_inv m" and "ledger m (b_ID b) = Some old" and "b_UserID old = b_UserID b"
  shows "snd (Register m b (Inl e) now) = Inl (ErrEntropy e) \<and>
         ledger (fst (Register m b (Inl e) now)) (b_ID b) = Some old \<and>
         (\<forall>tok r. VerifyDaemonToken (fst (Register m b (Inl e) now)) tok = Inr r \<longrightarrow> b_ID r \<noteq> b_ID b)"
proof -
  from assms(2) obtain p where p: "byID m (b_ID b) = Some p" and row: "rows m p = old"
    by (auto simp: ledger_def)
  let ?m = "m\<lparr>byToken := (byToken m)(b_DaemonToken old := None)\<rparr>"
  have reg: "Register m b (Inl e) now = (?m, Inl (ErrEntropy e))"
    using reg_invD(3,4) [OF assms(1) p] p row assms(3)
    by (simp add: Register_def Let_def mint_token_def)
  have "q \<noteq> p" if "byToken ?m t = Some q" for t q
    using reg_inv_tokenD(1) [OF assms(1), of t q] that row by (auto split: if_splits)
  moreover have "q = p" if "b_ID (rows m q) = b_ID b" and "byToken ?m t = Some q" for t q
    using reg_inv_tokenD(3) [OF assms(1), of t q] p that by (auto split: if_splits)
  ultimately have none: "byToken ?m t = Some q \<Longrightarrow> b_ID (rows m q) \<noteq> b_ID b" for t q
    by metis
  have "b_ID r \<noteq> b_ID b" if "VerifyDaemonToken ?m tok = Inr r" for tok r
  proof -
    from that obtain q where "byToken ?m tok = Some q" and "r = redact (rows m q)"
      unfolding VerifyDaemonToken_def by (simp split: if_splits option.splits)
    with none show ?thesis by simp
  qed
  with reg assms(2) show ?thesis by simp
qed

theorem failed_rotation_revokes_old_token_witness:
  "snd (Register (fst (reg_run NewMemory sample_run)) (sample_bastion ''b1'' ''alice'') (Inl ''no entropy'') 50) =
     Inl (ErrEntropy ''no entropy'') \<and>
   VerifyDaemonToken (fst (reg_run NewMemory sample_run)) (token_of (draw32 1)) \<noteq> Inl ErrUnknownToken"
proof
  have inv: "reg_inv (fst (reg_run NewMemory sample_run))"
    by (intro reg_run_inv reg_inv_NewMemory)
  show "snd (Register (fst (reg_run NewMemory sample_run)) (sample_bastion ''b1'' ''alice'') (Inl ''no entropy'') 50) =
     Inl (ErrEntropy ''no entropy'')"
    using failed_rotation_revokes_old_token [OF inv, of "sample_bastion ''b1'' ''alice''"]
      sample_run_ledger by (simp add: sample_bastion_def)
  show "VerifyDaemonToken (fst (reg_run NewMemory sample_run)) (token_of (draw32 1)) \<noteq> Inl ErrUnknownToken"
    by (simp add: sample_run_def Register_def sample_bastion_def zero_bastion_def NewMemory_def
      mint_token_Inr VerifyDaemonToken_def token_of_def Let_def)
qed

end
