(* ===== verification/Utf8.thy ===== *)
theory Utf8
  imports Relay_Prelude
begin

text \<open>
  What \<open>encoding/json\<close> uses of the package \<open>unicode/utf8\<close>: how many bytes of a text form its
  first rune, and the encoding of a rune. A byte that starts no valid rune is read as the
  replacement character U+FFFD and is one byte long.
\<close>

definition octet :: "char \<Rightarrow> nat" where
  "octet c = of_char c"

lemma octet_char_of: "n < 256 \<Longrightarrow> octet (char_of n) = n"
  by (simp add: octet_def)

lemma char_of_octet [simp]: "char_of (octet c) = c"
  by (simp add: octet_def)

lemma octet_inj: "octet c = octet d \<longleftrightarrow> c = d"
  by (metis char_of_octet)

section \<open>Reading a rune\<close>

definition is_cont :: "char \<Rightarrow> bool" where
  "is_cont c \<longleftrightarrow> 128 \<le> octet c \<and> octet c < 192"

text \<open>
  The second byte is restricted further after four of the leading bytes, which excludes
  overlong forms, surrogates, and what lies above U+10FFFF.
\<close>

definition second_ok :: "nat \<Rightarrow> char \<Rightarrow> bool" where
  "second_ok x c \<longleftrightarrow>
     (if x = 224 then 160 else if x = 240 then 144 else 128) \<le> octet c \<and>
     octet c \<le> (if x = 237 then 159 else if x = 244 then 143 else 191)"

text \<open>The length of the rune at the front; 0 for an empty text and for an invalid byte.\<close>

fun rune_len :: "string \<Rightarrow> nat" where
  "rune_len [] = 0"
| "rune_len (a # s) =
     (if octet a < 128 then 1
      else if 194 \<le> octet a \<and> octet a < 224 then
        (case s of b # _ \<Rightarrow> if is_cont b then 2 else 0 | _ \<Rightarrow> 0)
      else if 224 \<le> octet a \<and> octet a < 240 then
        (case s of b # c # _ \<Rightarrow> if second_ok (octet a) b \<and> is_cont c then 3 else 0 | _ \<Rightarrow> 0)
      else if 240 \<le> octet a \<and> octet a < 245 then
        (case s of b # c # d # _ \<Rightarrow> if second_ok (octet a) b \<and> is_cont c \<and> is_cont d then 4 else 0 | _ \<Rightarrow> 0)
      else 0)"

lemma second_ok_cont: "second_ok x b \<Longrightarrow> is_cont b"
  by (auto simp: second_ok_def is_cont_def split: if_splits)

lemma rune_len_le: "rune_len s \<le> length s"
  by (cases s) (auto split: list.splits)

lemma rune_len_ascii: "octet c < 128 \<Longrightarrow> rune_len (c # s) = 1"
  by simp

lemma rune_len_one: "rune_len (c # s) = 1 \<longleftrightarrow> octet c < 128"
  by (auto split: list.splits)

text \<open>The bytes after the first one of a rune are continuation bytes, and nothing else matters.\<close>

lemma rune_tail_cont: "\<forall>b \<in> set (take (rune_len (c # s) - 1) s). is_cont b"
  by (auto split: list.splits dest: second_ok_cont)

lemma rune_len_take:
  assumes "0 < rune_len s" shows "rune_len (take (rune_len s) s @ t) = rune_len s"
  using assms by (cases s) (auto split: list.splits if_splits)

declare rune_len.simps(2) [simp del]

section \<open>Writing a rune\<close>

definition replacement :: string where
  "replacement = [char_of (239 :: nat), char_of (191 :: nat), char_of (189 :: nat)]"

definition encode_rune :: "nat \<Rightarrow> string" where
  "encode_rune r =
     (if r < 128 then [char_of r]
      else if r < 2048 then [char_of (192 + r div 64), char_of (128 + r mod 64)]
      else if (55296 \<le> r \<and> r < 57344) \<or> 1114112 \<le> r then replacement
      else if r < 65536 then
        [char_of (224 + r div 4096), char_of (128 + r div 64 mod 64), char_of (128 + r mod 64)]
      else [char_of (240 + r div 262144), char_of (128 + r div 4096 mod 64),
            char_of (128 + r div 64 mod 64), char_of (128 + r mod 64)])"

lemma rune_len_3:
  fixes q m l :: nat
  assumes "q < 16" "m < 64" "l < 64" "0 < q \<or> 32 \<le> m" "q \<noteq> 13 \<or> m < 32"
  shows "rune_len (char_of (224 + q) # char_of (128 + m) # char_of (128 + l) # t) = 3"
proof -
  have "octet (char_of (224 + q)) = 224 + q" "octet (char_of (128 + m)) = 128 + m"
    "octet (char_of (128 + l)) = 128 + l"
    using assms by (simp_all add: octet_char_of)
  moreover have "second_ok (224 + q) (char_of (128 + m))"
    using assms calculation(2) by (auto simp: second_ok_def)
  ultimately show ?thesis using assms by (simp add: rune_len.simps(2) is_cont_def)
qed

lemma rune_len_4:
  fixes q n m l :: nat
  assumes "q < 5" "n < 64" "m < 64" "l < 64" "0 < q \<or> 16 \<le> n" "q < 4 \<or> n < 16"
  shows "rune_len (char_of (240 + q) # char_of (128 + n) # char_of (128 + m) # char_of (128 + l) # t) = 4"
proof -
  have "octet (char_of (240 + q)) = 240 + q" "octet (char_of (128 + n)) = 128 + n"
    "octet (char_of (128 + m)) = 128 + m" "octet (char_of (128 + l)) = 128 + l"
    using assms by (simp_all add: octet_char_of)
  moreover have "second_ok (240 + q) (char_of (128 + n))"
    using assms calculation(2) by (auto simp: second_ok_def)
  ultimately show ?thesis using assms by (simp add: rune_len.simps(2) is_cont_def)
qed

lemma rune_len_encode: "rune_len (encode_rune r @ t) = length (encode_rune r)"
proof -
  have repl: "rune_len (replacement @ t) = 3"
    using rune_len_3 [of 15 63 61 t] by (simp add: replacement_def)
  define a q where "a = r div 64" and "q = a div 64"
  have d: "r div 4096 = q" "r div 262144 = q div 64"
    by (simp_all add: a_def q_def div_mult2_eq [symmetric])
  have r: "r = 64 * a + r mod 64" "r mod 64 < 64" "a = 64 * q + a mod 64" "a mod 64 < 64"
    "q = 64 * (q div 64) + q mod 64" "q mod 64 < 64"
    by (simp_all add: a_def q_def)
  consider "r < 128" | "128 \<le> r" "r < 2048" | "2048 \<le> r" "r < 65536" "\<not> (55296 \<le> r \<and> r < 57344)"
    | "65536 \<le> r" "r < 1114112" | "(55296 \<le> r \<and> r < 57344) \<or> 1114112 \<le> r"
    by linarith
  then show ?thesis
  proof cases
    case 1
    then show ?thesis by (simp add: encode_rune_def octet_char_of rune_len.simps(2))
  next
    case 2
    then have "2 \<le> a" "a < 32" using r by linarith+
    then show ?thesis using 2 r
      by (simp add: encode_rune_def a_def [symmetric] octet_char_of is_cont_def rune_len.simps(2))
  next
    case 3
    have "q < 16" "0 < q \<or> 32 \<le> a mod 64" "q \<noteq> 13 \<or> a mod 64 < 32" using 3 r by linarith+
    then show ?thesis using 3 r rune_len_3 [of q "a mod 64" "r mod 64" t]
      by (auto simp: encode_rune_def a_def [symmetric] d)
  next
    case 4
    have "q div 64 < 5" "0 < q div 64 \<or> 16 \<le> q mod 64" "q div 64 < 4 \<or> q mod 64 < 16" using 4 r by linarith+
    then show ?thesis using 4 r rune_len_4 [of "q div 64" "q mod 64" "a mod 64" "r mod 64" t]
      by (simp add: encode_rune_def a_def [symmetric] d)
  next
    case 5
    then have "encode_rune r = replacement" by (auto simp: encode_rune_def)
    then show ?thesis using repl by (simp add: replacement_def)
  qed
qed

lemma encode_rune_not_Nil [simp]: "encode_rune r \<noteq> []"
  by (simp add: encode_rune_def replacement_def)

lemma replacement_not_Nil [simp]: "replacement \<noteq> []"
  by (simp add: replacement_def)

lemma encode_rune_replacement: "encode_rune 65533 = replacement"
  by (simp add: encode_rune_def replacement_def)

section \<open>Valid texts\<close>

text \<open>\<open>utf8.Valid\<close>, and the text with each invalid byte replaced.\<close>

function to_valid :: "string \<Rightarrow> string" where
  "to_valid [] = []"
| "to_valid (c # s) =
     (case rune_len (c # s) of
        0 \<Rightarrow> replacement @ to_valid s
      | Suc n \<Rightarrow> c # take n s @ to_valid (drop n s))"
  by pat_completeness auto
termination by (relation "measure length") auto

function valid_utf8 :: "string \<Rightarrow> bool" where
  "valid_utf8 [] = True"
| "valid_utf8 (c # s) =
     (case rune_len (c # s) of 0 \<Rightarrow> False | Suc n \<Rightarrow> valid_utf8 (drop n s))"
  by pat_completeness auto
termination by (relation "measure length") auto

lemma to_valid_id: "valid_utf8 s \<Longrightarrow> to_valid s = s"
  by (induction s rule: valid_utf8.induct) (auto split: nat.splits)

lemma valid_rune_append:
  assumes "rune_len (r @ t) = length r" and "r \<noteq> []"
  shows "valid_utf8 (r @ t) = valid_utf8 t"
proof -
  obtain c s where "r = c # s" using assms(2) by (cases r) auto
  with assms(1) show ?thesis by simp
qed

lemma valid_encode_rune [simp]: "valid_utf8 (encode_rune r @ t) = valid_utf8 t"
  by (rule valid_rune_append) (simp_all add: rune_len_encode)

lemma valid_replacement [simp]: "valid_utf8 (replacement @ t) = valid_utf8 t"
  using valid_encode_rune [of 65533 t] by (simp only: encode_rune_replacement)

lemma valid_ascii: "octet c < 128 \<Longrightarrow> valid_utf8 (c # t) = valid_utf8 t"
  by (simp add: rune_len_ascii)

lemma rune_len_Suc_take: "rune_len (c # s) = Suc n \<Longrightarrow> rune_len (c # take n s @ t) = Suc n"
  using rune_len_take [of "c # s" t] by simp

lemma valid_take_rune:
  assumes "rune_len (c # s) = Suc n" shows "valid_utf8 (c # take n s @ t) = valid_utf8 t"
proof -
  have "length (take n s) = n" using assms rune_len_le [of "c # s"] by simp
  then show ?thesis using rune_len_Suc_take [OF assms, of t] by simp
qed

lemma valid_to_valid: "valid_utf8 (to_valid s)"
  by (induction s rule: to_valid.induct)
    (auto simp del: valid_utf8.simps(2) split: nat.splits simp: valid_take_rune)

lemma valid_ascii_text: "\<forall>c \<in> set s. octet c < 128 \<Longrightarrow> valid_utf8 s"
  by (induction s) (simp_all add: rune_len_ascii)

end
