(* ===== verification/Json_Text.thy ===== *)
theory Json_Text
  imports Utf8
begin

text \<open>
  The texts of \<open>encoding/json\<close>: string literals, numbers, the reading of a value from the front
  of a text, and the writing of a value.

  A value is kept as the syntax tree of its text: a number as its literal, a string and the key
  of a member as what stands between the quotes, escapes included. So a \<open>json.RawMessage\<close> is
  the tree of the value it holds, and writing the tree gives its bytes again, without the
  blanks between tokens, as the encoder's compaction does.
\<close>

datatype json =
    JNull
  | JBool bool
  | JNum string
  | JStr string
  | JArr "json list"
  | JObj "(string \<times> json) list"

section \<open>String literals\<close>

subsection \<open>Reading\<close>

definition hex_val :: "char \<Rightarrow> nat option" where
  "hex_val c =
     (let n = octet c in
      if 48 \<le> n \<and> n \<le> 57 then Some (n - 48)
      else if 97 \<le> n \<and> n \<le> 102 then Some (n - 87)
      else if 65 \<le> n \<and> n \<le> 70 then Some (n - 55)
      else None)"

text \<open>The four hexadecimal digits of a \<open>\u\<close> escape, at the front of the text.\<close>

fun hex4 :: "string \<Rightarrow> nat option" where
  "hex4 (a # b # c # d # s) =
     (case (hex_val a, hex_val b, hex_val c, hex_val d) of
        (Some w, Some x, Some y, Some z) \<Rightarrow> Some (((w * 16 + x) * 16 + y) * 16 + z)
      | _ \<Rightarrow> None)"
| "hex4 _ = None"

abbreviation quote_char :: char where "quote_char \<equiv> CHR 0x22"
abbreviation backslash :: char where "backslash \<equiv> CHR 0x5C"

text \<open>The one-letter escapes.\<close>

definition escapes :: "(char \<times> char) list" where
  "escapes =
     [(quote_char, quote_char), (backslash, backslash), (CHR ''/'', CHR ''/''), (CHR ''b'', CHR 0x08),
      (CHR ''f'', CHR 0x0C), (CHR ''n'', CHR 0x0A), (CHR ''r'', CHR 0x0D), (CHR ''t'', CHR 0x09)]"

text \<open>
  \<open>unquote\<close> turns a literal into the string it stands for: a pair of surrogate escapes is one
  rune, a surrogate without its partner and an invalid byte are the replacement character.
\<close>

definition is_high :: "nat \<Rightarrow> bool" where "is_high r \<longleftrightarrow> 55296 \<le> r \<and> r < 56320"
definition is_low :: "nat \<Rightarrow> bool" where "is_low r \<longleftrightarrow> 56320 \<le> r \<and> r < 57344"

text \<open>The low surrogate that a text starts with, as a \<open>\u\<close> escape.\<close>

fun low_unit :: "string \<Rightarrow> nat option" where
  "low_unit (b # u # s) =
     (if b = backslash \<and> u = CHR ''u'' then
        (case hex4 s of Some r \<Rightarrow> if is_low r then Some r else None | None \<Rightarrow> None)
      else None)"
| "low_unit _ = None"

definition rune_of_pair :: "nat \<Rightarrow> nat \<Rightarrow> nat" where
  "rune_of_pair hi lo = (hi - 55296) * 1024 + (lo - 56320) + 65536"

function unquote :: "string \<Rightarrow> string" where
  "unquote [] = []"
| "unquote (c # s) =
     (if c = backslash then
        (case s of
           [] \<Rightarrow> []
         | e # t \<Rightarrow>
             if e = CHR ''u'' then
               (case hex4 t of
                  None \<Rightarrow> []
                | Some r \<Rightarrow>
                    (case (if is_high r then low_unit (drop 4 t) else None) of
                       Some lo \<Rightarrow> encode_rune (rune_of_pair r lo) @ unquote (drop 10 t)
                     | None \<Rightarrow> encode_rune r @ unquote (drop 4 t)))
             else (case map_of escapes e of None \<Rightarrow> [] | Some x \<Rightarrow> x # unquote t))
      else
        (case rune_len (c # s) of
           0 \<Rightarrow> replacement @ unquote s
         | Suc n \<Rightarrow> c # take n s @ unquote (drop n s)))"
  by pat_completeness auto
termination by (relation "measure length") auto

declare unquote.simps(2) [simp del]

text \<open>Visible ASCII text without quotes and backslashes stands for itself.\<close>

definition plain_char :: "char \<Rightarrow> bool" where
  "plain_char c \<longleftrightarrow> 32 \<le> octet c \<and> octet c < 128 \<and> c \<noteq> quote_char \<and> c \<noteq> backslash"

lemma unquote_plain_Cons: "plain_char c \<Longrightarrow> unquote (c # s) = c # unquote s"
  by (simp add: unquote.simps(2) plain_char_def rune_len_ascii)

lemma unquote_plain: "\<forall>c \<in> set s. plain_char c \<Longrightarrow> unquote s = s"
  by (induction s) (simp_all add: unquote_plain_Cons)

lemma unquote_valid: "valid_utf8 (unquote s)"
proof (induction s rule: unquote.induct)
  case 1
  show ?case by simp
next
  case (2 c s)
  show ?case
  proof (cases "c = backslash")
    case True
    show ?thesis
    proof (cases s)
      case Nil
      with True show ?thesis by (simp add: unquote.simps(2))
    next
      case (Cons e t)
      have esc: "octet x < 128" if "map_of escapes e = Some x" for x
        using that by (auto simp: escapes_def octet_def split: if_splits)
      show ?thesis
        using 2(1,2,3) [OF True Cons] True Cons esc
        by (subst unquote.simps(2)) (auto simp: valid_ascii split: option.splits simp del: valid_utf8.simps(2))
    qed
  next
    case False
    then show ?thesis
      using 2(4,5) [OF False]
      by (subst unquote.simps(2)) (auto simp: valid_take_rune
          split: nat.splits simp del: valid_utf8.simps(2))
  qed
qed

subsection \<open>Writing\<close>

text \<open>
  The encoder writes valid UTF-8 as it is, except for quotes, backslashes, control characters,
  the three characters of HTML mark-up, and the two line separators of Unicode.
\<close>

definition u_escape :: "nat \<Rightarrow> string" where
  "u_escape r = [backslash, CHR ''u'', hex_digit (r div 4096), hex_digit (r div 256 mod 16),
                 hex_digit (r div 16 mod 16), hex_digit (r mod 16)]"

definition is_html :: "char \<Rightarrow> bool" where
  "is_html c \<longleftrightarrow> c \<in> set ''<>&''"

definition short_escapes :: "(char \<times> char) list" where
  "short_escapes =
     [(quote_char, quote_char), (backslash, backslash), (CHR 0x08, CHR ''b''), (CHR 0x0C, CHR ''f''),
      (CHR 0x0A, CHR ''n''), (CHR 0x0D, CHR ''r''), (CHR 0x09, CHR ''t'')]"

definition quote_ascii :: "char \<Rightarrow> string" where
  "quote_ascii c =
     (case map_of short_escapes c of
        Some e \<Rightarrow> [backslash, e]
      | None \<Rightarrow> if octet c < 32 \<or> is_html c then u_escape (octet c) else [c])"

text \<open>U+2028 and U+2029, at the front of a text: the escape that is written for it.\<close>

fun line_sep :: "string \<Rightarrow> string option" where
  "line_sep (a # b # c # s) =
     (if octet a = 226 \<and> octet b = 128 \<and> (octet c = 168 \<or> octet c = 169)
      then Some (u_escape (8064 + octet c)) else None)"
| "line_sep _ = None"

function json_quote :: "string \<Rightarrow> string" where
  "json_quote [] = []"
| "json_quote (c # s) =
     (if octet c < 128 then quote_ascii c @ json_quote s
      else case rune_len (c # s) of
        0 \<Rightarrow> u_escape 65533 @ json_quote s
      | Suc n \<Rightarrow>
          (case line_sep (c # s) of
             Some e \<Rightarrow> e @ json_quote (drop n s)
           | None \<Rightarrow> c # take n s @ json_quote (drop n s)))"
  by pat_completeness auto
termination by (relation "measure length") auto

declare json_quote.simps(2) [simp del]

text \<open>
  A raw value is written as it stands in its text, except that the characters of mark-up and
  the line separators are escaped there too.
\<close>

function html_escape :: "string \<Rightarrow> string" where
  "html_escape [] = []"
| "html_escape (c # s) =
     (if is_html c then u_escape (octet c) @ html_escape s
      else case line_sep (c # s) of
        Some e \<Rightarrow> e @ html_escape (drop 2 s)
      | None \<Rightarrow> c # html_escape s)"
  by pat_completeness auto
termination by (relation "measure length") auto

declare html_escape.simps(2) [simp del]

end
