(* ===== verification/Json_Strings.thy ===== *)
theory Json_Strings
  imports Json_Text
begin

text \<open>
  The string literals of JSON: where a literal ends, that every written string is a literal
  which reads back as the string with its invalid bytes replaced, and that escaping the
  characters of mark-up in a literal does not change the string it stands for.
\<close>

section \<open>The extent of a literal\<close>

text \<open>The length of the first unit of a literal, an escape or a byte; 0 when there is none.\<close>

definition lit_unit :: "string \<Rightarrow> nat" where
  "lit_unit s =
     (case s of
        [] \<Rightarrow> 0
      | c # s' \<Rightarrow>
          if c = backslash then
            (case s' of
               [] \<Rightarrow> 0
             | e # t \<Rightarrow>
                 if e = CHR ''u'' then (if hex4 t = None then 0 else 6)
                 else if map_of escapes e = None then 0 else 2)
          else if c = quote_char \<or> octet c < 32 then 0 else 1)"

function lit_ok :: "string \<Rightarrow> bool" where
  "lit_ok [] = True"
| "lit_ok (c # s) = (case lit_unit (c # s) of 0 \<Rightarrow> False | Suc n \<Rightarrow> lit_ok (drop n s))"
  by pat_completeness auto
termination by (relation "measure length") auto

text \<open>The literal that ends at the next quote, and the text after that quote.\<close>

function str_lit :: "string \<Rightarrow> (string \<times> string) option" where
  "str_lit [] = None"
| "str_lit (c # s) =
     (if c = quote_char then Some ([], s)
      else case lit_unit (c # s) of
        0 \<Rightarrow> None
      | Suc n \<Rightarrow> map_option (apfst (append (c # take n s))) (str_lit (drop n s)))"
  by pat_completeness auto
termination by (relation "measure length") auto

declare lit_ok.simps(2) [simp del] str_lit.simps(2) [simp del]

lemma hex4_app: "hex4 t = Some r \<Longrightarrow> hex4 (take 4 t @ u) = Some r \<and> 4 \<le> length t"
  by (cases t rule: hex4.cases) (auto split: option.splits)

lemma lit_unit_take:
  assumes "lit_unit (c # s) = Suc n"
  shows "lit_unit (c # take n s @ u) = Suc n \<and> n \<le> length s"
proof (cases "c = backslash")
  case True
  then obtain e t where s: "s = e # t" using assms by (cases s) (auto simp: lit_unit_def)
  show ?thesis
  proof (cases "e = CHR ''u''")
    case True
    with \<open>c = backslash\<close> s assms obtain r where "hex4 t = Some r" "n = 5"
      by (auto simp: lit_unit_def split: if_splits)
    with True \<open>c = backslash\<close> s show ?thesis
      using hex4_app [of t r u] by (auto simp: lit_unit_def numeral_eq_Suc)
  next
    case False
    with \<open>c = backslash\<close> s assms show ?thesis by (auto simp: lit_unit_def split: if_splits)
  qed
next
  case False
  with assms show ?thesis by (auto simp: lit_unit_def split: if_splits)
qed

lemma lit_unit_app: "lit_unit (c # s) = Suc n \<Longrightarrow> lit_unit (c # s @ u) = Suc n"
  using lit_unit_take [of c s n "drop n s @ u"] by (metis append.assoc append_take_drop_id)

lemma lit_unit_quote: "lit_unit (quote_char # s) = 0"
  by (simp add: lit_unit_def)

lemma str_lit_ok: "lit_ok l \<Longrightarrow> str_lit (l @ quote_char # r) = Some (l, r)"
proof (induction l rule: lit_ok.induct)
  case 1
  show ?case by (simp add: str_lit.simps(2))
next
  case (2 c s)
  from 2(2) obtain n where n: "lit_unit (c # s) = Suc n" and ok: "lit_ok (drop n s)"
    by (auto simp: lit_ok.simps(2) split: nat.splits)
  have "c \<noteq> quote_char" "n \<le> length s" using n lit_unit_quote lit_unit_take [OF n] by auto
  then show ?case
    using 2(1) [OF n ok] lit_unit_app [OF n, of "quote_char # r"] by (simp add: str_lit.simps(2))
qed

lemma str_lit_someD: "str_lit s = Some (l, r) \<Longrightarrow> lit_ok l \<and> s = l @ quote_char # r"
proof (induction s arbitrary: l rule: str_lit.induct)
  case 1
  then show ?case by simp
next
  case (2 c s)
  show ?case
  proof (cases "c = quote_char")
    case True
    with 2(2) show ?thesis by (simp add: str_lit.simps(2))
  next
    case False
    with 2(2) obtain n l' where n: "lit_unit (c # s) = Suc n" and l: "str_lit (drop n s) = Some (l', r)"
      and "l = c # take n s @ l'"
      by (auto simp: str_lit.simps(2) split: nat.splits)
    with 2(1) [OF False n l] lit_unit_take [OF n, of l'] show ?thesis
      by (auto simp: lit_ok.simps(2)) (metis append_take_drop_id)
  qed
qed

lemma str_lit_shorter: "str_lit s = Some (l, r) \<Longrightarrow> length r < length s"
  using str_lit_someD by fastforce

lemma lit_ok_plain_Cons: "plain_char c \<Longrightarrow> lit_ok (c # s) = lit_ok s"
  by (simp add: lit_ok.simps(2) lit_unit_def plain_char_def)

lemma lit_ok_plain: "\<forall>c \<in> set s. plain_char c \<Longrightarrow> lit_ok s"
  by (induction s) (simp_all add: lit_ok_plain_Cons)

section \<open>Written escapes\<close>

lemma hex_val_digit: "d < 16 \<Longrightarrow> hex_val (hex_digit d) = Some d"
  by (simp add: hex_digit_def hex_val_def octet_char_of)

lemma hex4_u_escape:
  assumes "r < 65536" shows "hex4 (drop 2 (u_escape r) @ t) = Some r"
proof -
  have "((r div 4096 * 16 + r div 256 mod 16) * 16 + r div 16 mod 16) * 16 + r mod 16 = r"
  proof -
    define a b where "a = r div 16" and "b = a div 16"
    have "r div 256 = b" "r div 4096 = b div 16" by (simp_all add: a_def b_def div_mult2_eq [symmetric])
    moreover have "b div 16 * 16 + b mod 16 = b" "b * 16 + a mod 16 = a" "a * 16 + r mod 16 = r"
      by (simp_all add: a_def b_def)
    ultimately show ?thesis by (simp add: a_def [symmetric])
  qed
  moreover have "r div 4096 < 16" using assms by auto
  ultimately show ?thesis by (simp add: u_escape_def hex_val_digit)
qed

lemma u_escape_drop: "drop 4 (drop 2 (u_escape r) @ t) = t" "length (u_escape r) = 6"
  by (simp_all add: u_escape_def)

lemma unquote_u_escape:
  assumes "r < 65536" "\<not> is_high r"
  shows "unquote (u_escape r @ t) = encode_rune r @ unquote t"
proof -
  let ?x = "drop 2 (u_escape r) @ t"
  have u: "u_escape r @ t = backslash # CHR ''u'' # ?x" by (simp add: u_escape_def)
  show ?thesis
    using hex4_u_escape [OF assms(1), of t] assms(2) u_escape_drop(1) [of r t]
    by (simp only: u unquote.simps(2) list.case refl if_True option.case if_False simp_thms)
qed

lemma lit_ok_u_escape:
  assumes "r < 65536" shows "lit_ok (u_escape r @ t) = lit_ok t"
proof -
  let ?x = "drop 2 (u_escape r) @ t"
  have u: "u_escape r @ t = backslash # CHR ''u'' # ?x" by (simp add: u_escape_def)
  have "lit_unit (backslash # CHR ''u'' # ?x) = Suc 5"
    using hex4_u_escape [OF assms, of t] by (simp add: lit_unit_def)
  then have "lit_ok (backslash # CHR ''u'' # ?x) = lit_ok (drop 5 (CHR ''u'' # ?x))"
    by (simp only: lit_ok.simps(2) nat.case)
  also have "drop 5 (CHR ''u'' # ?x) = t" by (simp add: u_escape_def)
  finally show ?thesis by (simp only: u)
qed

lemma short_escape_cases:
  assumes "map_of short_escapes c = Some e"
  shows "map_of escapes e = Some c \<and> e \<noteq> CHR ''u''"
  using assms by (auto simp: short_escapes_def escapes_def split: if_splits)

lemma short_escapes_None: "map_of short_escapes c = None \<Longrightarrow> c \<noteq> quote_char \<and> c \<noteq> backslash"
  by (auto simp: short_escapes_def split: if_splits)

lemma encode_rune_ascii: "octet c < 128 \<Longrightarrow> encode_rune (octet c) = [c]"
  by (simp add: encode_rune_def)

lemma unquote_quote_ascii:
  assumes "octet c < 128" shows "unquote (quote_ascii c @ t) = c # unquote t"
proof (cases "map_of short_escapes c")
  case (Some e)
  with short_escape_cases [OF Some] show ?thesis by (simp add: quote_ascii_def unquote.simps(2))
next
  case None
  have "\<not> is_high (octet c)" using assms by (simp add: is_high_def)
  then show ?thesis
    using None short_escapes_None [OF None] assms unquote_u_escape [of "octet c" t] encode_rune_ascii
      unquote_plain_Cons [of c t]
    by (auto simp: quote_ascii_def plain_char_def)
qed

lemma lit_ok_quote_ascii:
  assumes "octet c < 128" shows "lit_ok (quote_ascii c @ t) = lit_ok t"
proof (cases "map_of short_escapes c")
  case (Some e)
  with short_escape_cases [OF Some] show ?thesis
    by (simp add: quote_ascii_def lit_ok.simps(2) lit_unit_def numeral_eq_Suc)
next
  case None
  then show ?thesis
    using short_escapes_None [OF None] assms lit_ok_u_escape [of "octet c" t] lit_ok_plain_Cons [of c t]
    by (auto simp: quote_ascii_def plain_char_def)
qed

lemma line_sep_SomeD:
  assumes "line_sep (c # s) = Some e"
  shows "\<exists>r. (r = 8232 \<or> r = 8233) \<and> e = u_escape r \<and> encode_rune r = c # take 2 s \<and>
    rune_len (c # s) = 3 \<and> 2 \<le> length s \<and> octet c = 226"
proof -
  from assms obtain a b t where s: "s = a # b # t" and c: "octet c = 226" "octet a = 128"
    and b: "octet b = 168 \<or> octet b = 169" and e: "e = u_escape (8064 + octet b)"
    by (cases "c # s" rule: line_sep.cases) (auto split: if_splits)
  have "rune_len (c # s) = 3"
    using b by (auto simp: s rune_len.simps(2) c second_ok_def is_cont_def)
  moreover have "encode_rune (8064 + octet b) = map char_of [226, 128, octet b]"
    using b by (elim disjE) (simp_all only: encode_rune_def, simp_all)
  then have "encode_rune (8064 + octet b) = map char_of (map octet [c, a, b])"
    by (simp only: c list.map)
  then have "encode_rune (8064 + octet b) = c # take 2 s"
    by (simp add: s)
  ultimately show ?thesis using b e s c(1) by (intro exI [of _ "8064 + octet b"]) auto
qed

section \<open>Writing and reading a string\<close>

theorem unquote_json_quote: "unquote (json_quote s @ t) = to_valid s @ unquote t"
proof (induction s rule: json_quote.induct)
  case 1
  show ?case by simp
next
  case (2 c s)
  show ?case
  proof (cases "octet c < 128")
    case True
    then have "rune_len (c # s) = Suc 0" by (simp add: rune_len_ascii)
    with 2(1) [OF True] True show ?thesis
      by (simp add: json_quote.simps(2) unquote_quote_ascii)
  next
    case big: False
    show ?thesis
    proof (cases "rune_len (c # s)")
      case 0
      have "\<not> is_high 65533" by (simp add: is_high_def)
      with 0 big 2(2) [OF big 0] show ?thesis
        by (simp add: json_quote.simps(2) unquote_u_escape encode_rune_replacement)
    next
      case (Suc n)
      show ?thesis
      proof (cases "line_sep (c # s)")
        case None
        have "c \<noteq> backslash" using big by (auto simp: octet_def)
        moreover have "n \<le> length s" using rune_len_le [of "c # s"] Suc by simp
        ultimately show ?thesis
          using None big Suc 2(3) [OF big Suc None] rune_len_Suc_take [OF Suc, of "json_quote (drop n s) @ t"]
          by (simp add: json_quote.simps(2) unquote.simps(2))
      next
        case (Some e)
        from line_sep_SomeD [OF Some] obtain r where r: "r = 8232 \<or> r = 8233" "e = u_escape r"
          "encode_rune r = c # take 2 s" "n = 2" using Suc by auto
        then have "r < 65536" "\<not> is_high r" by (auto simp: is_high_def)
        with r Some big Suc 2(4) [OF big Suc Some] show ?thesis
          by (simp add: json_quote.simps(2) unquote_u_escape)
      qed
    qed
  qed
qed

lemma cont_lit_ok: "\<forall>b \<in> set r. 128 \<le> octet b \<Longrightarrow> lit_ok (r @ t) = lit_ok t"
proof (induction r)
  case (Cons a r)
  then have "a \<noteq> backslash" "a \<noteq> quote_char" by (auto simp: octet_def)
  with Cons show ?case by (simp add: lit_ok.simps(2) lit_unit_def)
qed simp

lemma lit_ok_json_quote: "lit_ok (json_quote s)"
proof (induction s rule: json_quote.induct)
  case 1
  show ?case by simp
next
  case (2 c s)
  show ?case
  proof (cases "octet c < 128")
    case True
    with 2(1) [OF True] show ?thesis by (simp add: json_quote.simps(2) lit_ok_quote_ascii)
  next
    case big: False
    show ?thesis
    proof (cases "rune_len (c # s)")
      case 0
      with big 2(2) [OF big 0] show ?thesis by (simp add: json_quote.simps(2) lit_ok_u_escape)
    next
      case (Suc n)
      have "\<forall>b \<in> set (c # take n s). 128 \<le> octet b"
        using rune_tail_cont [of c s] Suc big by (auto simp: is_cont_def)
      from cont_lit_ok [OF this] Suc big 2(3,4) [OF big Suc] line_sep_SomeD [of c s]
      show ?thesis by (auto simp: json_quote.simps(2) lit_ok_u_escape split: option.splits)
    qed
  qed
qed


section \<open>Escaping the characters of mark-up\<close>

definition untouched :: "char \<Rightarrow> bool" where
  "untouched c \<longleftrightarrow> \<not> is_html c \<and> octet c \<noteq> 226"

lemma html_untouched: "untouched c \<Longrightarrow> html_escape (c # s) = c # html_escape s"
  by (cases "c # s" rule: line_sep.cases) (simp_all add: untouched_def html_escape.simps(2))

lemma cont_untouched: "is_cont c \<Longrightarrow> untouched c"
  by (auto simp: untouched_def is_cont_def is_html_def octet_def)

lemma html_untouched_app: "\<forall>c \<in> set r. untouched c \<Longrightarrow> html_escape (r @ s) = r @ html_escape s"
  by (induction r) (simp_all add: html_untouched)

lemma hex_untouched: "hex_val c = Some d \<Longrightarrow> untouched c"
  by (auto simp: hex_val_def untouched_def is_html_def octet_def Let_def split: if_splits)

lemma html_Cons_cases:
  obtains (kept) "html_escape (c # s) = c # html_escape s"
    | (markup) r where "html_escape (c # s) = u_escape r @ html_escape s" "r < 65536" "\<not> is_high r"
        "\<not> is_low r" "encode_rune r = [c]" "is_html c"
    | (sep) r where "html_escape (c # s) = u_escape r @ html_escape (drop 2 s)" "r < 65536" "\<not> is_high r"
        "\<not> is_low r" "encode_rune r = c # take 2 s" "rune_len (c # s) = 3" "2 \<le> length s" "octet c = 226"
proof (cases "is_html c")
  case True
  then have "octet c < 128" by (auto simp: is_html_def octet_def)
  with True show thesis
    using markup [of "octet c"]
    by (simp add: html_escape.simps(2) encode_rune_ascii is_high_def is_low_def)
next
  case False
  show thesis
  proof (cases "line_sep (c # s)")
    case None
    with False show thesis by (intro kept) (simp add: html_escape.simps(2))
  next
    case (Some e)
    then have "html_escape (c # s) = e @ html_escape (drop 2 s)"
      using False by (simp add: html_escape.simps(2))
    moreover obtain r where "r = 8232 \<or> r = 8233" "e = u_escape r" "encode_rune r = c # take 2 s"
      "rune_len (c # s) = 3" "2 \<le> length s" "octet c = 226"
      using line_sep_SomeD [OF Some] by blast
    moreover from this(1) have "r < 65536" "\<not> is_high r" "\<not> is_low r" by (auto simp: is_high_def is_low_def)
    ultimately show thesis using sep [of r] by blast
  qed
qed

lemma html_prefix:
  "\<forall>c \<in> set x. untouched c \<and> c \<noteq> backslash \<Longrightarrow> (\<exists>t. html_escape s = x @ t) \<longleftrightarrow> (\<exists>t. s = x @ t)"
proof (induction x arbitrary: s)
  case Nil
  show ?case by simp
next
  case (Cons a x)
  show ?case
  proof (cases s)
    case Nil
    then show ?thesis by simp
  next
    case s: (Cons c s')
    show ?thesis
    proof (cases c s' rule: html_Cons_cases)
      case kept
      with Cons s show ?thesis by auto
    next
      case (markup r)
      with Cons(2) s show ?thesis by (auto simp: u_escape_def untouched_def)
    next
      case (sep r)
      with sep Cons(2) s show ?thesis by (auto simp: u_escape_def untouched_def)
    qed
  qed
qed

lemma hex4_digits:
  assumes "hex4 s = Some r"
  shows "\<forall>c \<in> set (take 4 s). untouched c \<and> c \<noteq> backslash"
proof -
  have "hex_val c = Some d \<Longrightarrow> untouched c \<and> c \<noteq> backslash" for c d
    using hex_untouched [of c d] by (auto simp: hex_val_def octet_def)
  with assms show ?thesis by (cases s rule: hex4.cases) (auto split: option.splits)
qed

lemma html_hex4_split:
  assumes "hex4 s = Some r"
  shows "html_escape s = take 4 s @ html_escape (drop 4 s)" "hex4 (html_escape s) = Some r"
    "drop 4 (html_escape s) = html_escape (drop 4 s)"
proof -
  show eq: "html_escape s = take 4 s @ html_escape (drop 4 s)"
    using html_untouched_app [of "take 4 s" "drop 4 s"] hex4_digits [OF assms] by simp
  show "hex4 (html_escape s) = Some r" "drop 4 (html_escape s) = html_escape (drop 4 s)"
    using hex4_app [OF assms, of "html_escape (drop 4 s)"] unfolding eq by simp_all
qed

lemma html_hex4: "hex4 (html_escape s) = hex4 s"
proof (cases "hex4 (html_escape s)")
  case None
  then show ?thesis using html_hex4_split(2) [of s] by (cases "hex4 s") auto
next
  case (Some r)
  let ?x = "take 4 (html_escape s)"
  obtain t where "s = ?x @ t"
    using html_prefix [OF hex4_digits [OF Some], of s] by (metis append_take_drop_id)
  then have "hex4 s = Some r" using hex4_app [OF Some, of t] by simp
  with Some show ?thesis by simp
qed

lemma backslash_untouched: "untouched backslash" "untouched (CHR ''u'')"
  by (simp_all add: untouched_def is_html_def octet_def)

lemma html_u_escape_front:
  "html_escape (backslash # CHR ''u'' # s) = backslash # CHR ''u'' # html_escape s"
  by (simp add: html_untouched backslash_untouched)

lemma low_unit_iff:
  "low_unit s = Some r \<longleftrightarrow> (\<exists>t. s = backslash # CHR ''u'' # t \<and> hex4 t = Some r \<and> is_low r)"
  by (cases s rule: low_unit.cases) (auto split: option.splits)

lemma low_unit_u_escape: "r < 65536 \<Longrightarrow> \<not> is_low r \<Longrightarrow> low_unit (u_escape r @ t) \<noteq> Some lo"
  using hex4_u_escape [of r t] by (auto simp: low_unit_iff u_escape_def)

lemma html_low_unit: "low_unit (html_escape s) = low_unit s"
proof -
  have "low_unit (html_escape s) = Some lo \<longleftrightarrow> low_unit s = Some lo" for lo
  proof
    assume "low_unit s = Some lo"
    then show "low_unit (html_escape s) = Some lo"
      by (auto simp: low_unit_iff html_u_escape_front html_hex4)
  next
    assume l: "low_unit (html_escape s) = Some lo"
    then obtain b s' where s: "s = b # s'" by (cases s) auto
    show "low_unit s = Some lo"
    proof (cases b s' rule: html_Cons_cases)
      case kept
      with l s obtain t where b: "b = backslash" "html_escape s' = CHR ''u'' # t"
        by (auto simp: low_unit_iff)
      then obtain t' where "s' = CHR ''u'' # t'" using html_prefix [of "''u''" s'] backslash_untouched by auto
      with b s l show ?thesis by (auto simp: low_unit_iff html_u_escape_front html_hex4)
    qed (use l s low_unit_u_escape in auto)
  qed
  then show ?thesis by (metis option.exhaust)
qed

lemma html_rune_len:
  assumes "128 \<le> octet c" shows "rune_len (c # html_escape s) = rune_len (c # s)"
proof -
  have "rune_len (c # s) = Suc n \<longleftrightarrow> rune_len (c # html_escape s) = Suc n" for n
  proof
    assume n: "rune_len (c # s) = Suc n"
    have "\<forall>b \<in> set (take n s). untouched b"
      using rune_tail_cont [of c s] n cont_untouched by simp
    then have "html_escape s = take n s @ html_escape (drop n s)"
      using html_untouched_app [of "take n s" "drop n s"] by simp
    with rune_len_Suc_take [OF n] show "rune_len (c # html_escape s) = Suc n" by simp
  next
    assume n: "rune_len (c # html_escape s) = Suc n"
    let ?x = "take n (html_escape s)"
    have "\<forall>b \<in> set ?x. untouched b \<and> b \<noteq> backslash"
      using rune_tail_cont [of c "html_escape s"] n cont_untouched by (auto simp: is_cont_def octet_def)
    from html_prefix [OF this, of s] obtain t where "s = ?x @ t" by (metis append_take_drop_id)
    with rune_len_Suc_take [OF n, of t] show "rune_len (c # s) = Suc n" by simp
  qed
  then show ?thesis by (metis old.nat.exhaust)
qed

lemma lit_ok_drop_u:
  assumes "lit_ok (backslash # CHR ''u'' # t)"
  obtains r where "hex4 t = Some r" "lit_ok (drop 4 t)"
  using assms by (auto simp: lit_ok.simps(2) lit_unit_def numeral_eq_Suc split: if_splits)

theorem unquote_html_escape: "lit_ok l \<Longrightarrow> unquote (html_escape l) = unquote l"
proof (induction l rule: unquote.induct)
  case 1
  show ?case by simp
next
  case (2 c s)
  show ?case
  proof (cases "c = backslash")
    case True
    with 2(6) obtain e t where s: "s = e # t" by (cases s) (auto simp: lit_ok.simps(2) lit_unit_def)
    show ?thesis
    proof (cases "e = CHR ''u''")
      case u: True
      with 2(6) True s obtain r where r: "hex4 t = Some r" and ok: "lit_ok (drop 4 t)"
        using lit_ok_drop_u by blast
      have h: "html_escape (c # s) = backslash # CHR ''u'' # html_escape t" "hex4 (html_escape t) = Some r"
        "drop 4 (html_escape t) = html_escape (drop 4 t)"
        using True s u r html_hex4_split [OF r] by (simp_all add: html_u_escape_front)
      show ?thesis
      proof (cases "if is_high r then low_unit (drop 4 t) else None")
        case None
        with 2(1) [OF True s u r None ok] h True s u r show ?thesis
          by (auto simp: unquote.simps(2) html_low_unit split: if_splits)
      next
        case (Some lo)
        then have lo: "low_unit (drop 4 t) = Some lo" and "is_high r" by (auto split: if_splits)
        then obtain v where v: "drop 4 t = backslash # CHR ''u'' # v" "hex4 v = Some lo"
          by (auto simp: low_unit_iff)
        with ok have "lit_ok (backslash # CHR ''u'' # v)" by simp
        then have "lit_ok (drop 4 v)" by (rule lit_ok_drop_u)
        moreover have d: "drop 10 t = drop 4 v"
        proof -
          have "drop 6 (drop 4 t) = drop 4 v" by (simp only: v(1)) simp
          then show ?thesis by simp
        qed
        ultimately have "unquote (html_escape (drop 10 t)) = unquote (drop 10 t)"
          using 2(2) [OF True s u r Some] by simp
        moreover have "drop 10 (html_escape t) = html_escape (drop 10 t)"
        proof -
          have "html_escape (drop 4 t) = backslash # CHR ''u'' # html_escape v"
            by (simp only: v html_u_escape_front)
          with h(3) html_hex4_split(3) [OF v(2)] have "drop 6 (drop 4 (html_escape t)) = html_escape (drop 4 v)"
            by simp
          with d show ?thesis by simp
        qed
        ultimately show ?thesis using h True s u r lo \<open>is_high r\<close>
          by (simp add: unquote.simps(2) html_low_unit)
      qed
    next
      case False
      with 2(6) True s obtain x where x: "map_of escapes e = Some x" and ok: "lit_ok t"
        by (auto simp: lit_ok.simps(2) lit_unit_def numeral_eq_Suc split: if_splits)
      then have "untouched e" by (auto simp: escapes_def untouched_def is_html_def octet_def split: if_splits)
      then have "html_escape (c # s) = c # e # html_escape t"
        using True s by (simp add: html_untouched backslash_untouched)
      with False True s x 2(3) [OF True s False x ok] show ?thesis by (simp add: unquote.simps(2))
    qed
  next
    case nb: False
    have tail: "lit_ok (drop n s)" if "rune_len (c # s) = Suc n" for n
    proof -
      have "lit_ok (take n s @ drop n s)"
        using nb 2(6) by (auto simp: lit_ok.simps(2) lit_unit_def split: if_splits)
      moreover have "\<forall>b \<in> set (take n s). 128 \<le> octet b"
        using rune_tail_cont [of c s] that by (simp add: is_cont_def)
      ultimately show ?thesis using cont_lit_ok by blast
    qed
    show ?thesis
    proof (cases c s rule: html_Cons_cases)
      case kept
      show ?thesis
      proof (cases "rune_len (c # s)")
        case 0
        then have "128 \<le> octet c" using rune_len_ascii [of c s] by fastforce
        from html_rune_len [OF this, of s] 0 kept nb 2(4) [OF nb 0] 2(6) show ?thesis
          by (auto simp: unquote.simps(2) lit_ok.simps(2) lit_unit_def split: if_splits)
      next
        case (Suc n)
        have "\<forall>b \<in> set (take n s). untouched b"
          using rune_tail_cont [of c s] Suc cont_untouched by simp
        then have "html_escape s = take n s @ html_escape (drop n s)"
          using html_untouched_app [of "take n s" "drop n s"] by simp
        moreover have "n \<le> length s" using rune_len_le [of "c # s"] Suc by simp
        ultimately show ?thesis
          using kept nb Suc 2(5) [OF nb Suc tail [OF Suc]] rune_len_Suc_take [OF Suc]
          by (simp add: unquote.simps(2))
      qed
    next
      case (markup r)
      then have "rune_len (c # s) = Suc 0" by (auto simp: is_html_def octet_def rune_len.simps(2))
      from markup nb this 2(5) [OF nb this tail [OF this]] show ?thesis
        by (simp add: unquote_u_escape) (simp add: unquote.simps(2))
    next
      case (sep r)
      then have "rune_len (c # s) = Suc 2" by simp
      from sep nb this 2(5) [OF nb this tail [OF this]] show ?thesis
        by (simp add: unquote_u_escape) (simp add: unquote.simps(2))
    qed
  qed
qed

lemma lit_ok_html_escape: "lit_ok l \<Longrightarrow> lit_ok (html_escape l)"
proof (induction l rule: lit_ok.induct)
  case 1
  show ?case by simp
next
  case (2 c s)
  then obtain n where n: "lit_unit (c # s) = Suc n" and ok: "lit_ok (drop n s)"
    by (auto simp: lit_ok.simps(2) split: nat.splits)
  show ?case
  proof (cases "c = backslash")
    case True
    with n obtain e t where s: "s = e # t" by (cases s) (auto simp: lit_unit_def)
    show ?thesis
    proof (cases "e = CHR ''u''")
      case u: True
      with n s True obtain r where r: "hex4 t = Some r" "n = 5" by (auto simp: lit_unit_def split: if_splits)
      have "lit_ok (backslash # CHR ''u'' # html_escape t) = lit_ok (drop 4 (html_escape t))"
        using html_hex4_split(2) [OF r(1)] by (simp add: lit_ok.simps(2) lit_unit_def numeral_eq_Suc)
      moreover have "lit_ok (html_escape (drop 4 t))" using 2(1) [OF n ok] r s by simp
      ultimately show ?thesis
        using True s u html_hex4_split(3) [OF r(1)] by (simp add: html_u_escape_front)
    next
      case False
      with n True s obtain x where x: "map_of escapes e = Some x" "n = 1"
        by (auto simp: lit_unit_def numeral_eq_Suc split: if_splits)
      then have "untouched e" by (auto simp: escapes_def untouched_def is_html_def octet_def split: if_splits)
      then have "html_escape (c # s) = c # e # html_escape t"
        using True s by (simp add: html_untouched backslash_untouched)
      with 2(1) [OF n ok] False True s x show ?thesis
        by (simp add: lit_ok.simps(2) lit_unit_def numeral_eq_Suc)
    qed
  next
    case False
    with n have c: "c \<noteq> quote_char" "32 \<le> octet c" "n = 0" by (auto simp: lit_unit_def split: if_splits)
    with 2(1) [OF n ok] have IH: "lit_ok (html_escape s)" by simp
    show ?thesis
    proof (cases c s rule: html_Cons_cases)
      case kept
      with c False IH show ?thesis by (simp add: lit_ok.simps(2) lit_unit_def)
    next
      case (markup r)
      with IH show ?thesis by (simp add: lit_ok_u_escape)
    next
      case (sep r)
      have "\<forall>b \<in> set (take 2 s). is_cont b" using rune_tail_cont [of c s] sep(6) by simp
      then have t: "\<forall>b \<in> set (take 2 s). untouched b" "\<forall>b \<in> set (take 2 s). 128 \<le> octet b"
        using cont_untouched by (auto simp: is_cont_def)
      have "html_escape s = take 2 s @ html_escape (drop 2 s)"
        using html_untouched_app [OF t(1), of "drop 2 s"] by simp
      with IH cont_lit_ok [OF t(2)] have "lit_ok (html_escape (drop 2 s))" by simp
      with sep show ?thesis by (simp add: lit_ok_u_escape)
    qed
  qed
qed

end
