(* ===== verification/Json_Values.thy ===== *)
theory Json_Values
  imports Json_Strings
begin

text \<open>
  Reading a JSON value from the front of a text and writing one. The text is cut into tokens,
  and a pushdown automaton over the tokens follows the scanner of \<open>encoding/json\<close>: a stack of
  the open arrays and objects, and what may come next.
\<close>

section \<open>Tokens\<close>

datatype token =
    TBegArr | TEndArr | TBegObj | TEndObj | TColon | TComma
  | TStr string
  | TLit json
  | TBad

definition is_digit :: "char \<Rightarrow> bool" where
  "is_digit c \<longleftrightarrow> 48 \<le> octet c \<and> octet c \<le> 57"

text \<open>The parts of a number: each is what it takes from the front, and the rest.\<close>

definition int_part :: "string \<Rightarrow> (string \<times> string) option" where
  "int_part s =
     (let (sign, s1) = (case s of [] \<Rightarrow> ([], s) | c # t \<Rightarrow> if c = CHR ''-'' then ([c], t) else ([], s))
      in case s1 of
           [] \<Rightarrow> None
         | c # t \<Rightarrow>
             if c = CHR ''0'' then Some (sign @ [c], t)
             else if is_digit c then Some (sign @ c # takeWhile is_digit t, dropWhile is_digit t)
             else None)"

definition frac_part :: "string \<Rightarrow> (string \<times> string) option" where
  "frac_part s =
     (case s of
        [] \<Rightarrow> Some ([], s)
      | c # t \<Rightarrow>
          if c = CHR ''.'' then
            (if takeWhile is_digit t = [] then None
             else Some (c # takeWhile is_digit t, dropWhile is_digit t))
          else Some ([], s))"

definition exp_part :: "string \<Rightarrow> (string \<times> string) option" where
  "exp_part s =
     (case s of
        [] \<Rightarrow> Some ([], s)
      | c # t \<Rightarrow>
          if c = CHR ''e'' \<or> c = CHR ''E'' then
            (let (sign, t1) = (case t of [] \<Rightarrow> ([], t)
                               | d # u \<Rightarrow> if d = CHR ''+'' \<or> d = CHR ''-'' then ([d], u) else ([], t))
             in if takeWhile is_digit t1 = [] then None
                else Some (c # sign @ takeWhile is_digit t1, dropWhile is_digit t1))
          else Some ([], s))"

definition num_lit :: "string \<Rightarrow> (string \<times> string) option" where
  "num_lit s =
     (case int_part s of
        None \<Rightarrow> None
      | Some (i, s1) \<Rightarrow>
          (case frac_part s1 of
             None \<Rightarrow> None
           | Some (f, s2) \<Rightarrow>
               (case exp_part s2 of None \<Rightarrow> None | Some (x, s3) \<Rightarrow> Some (i @ f @ x, s3))))"

definition num_ok :: "string \<Rightarrow> bool" where
  "num_ok n \<longleftrightarrow> num_lit n = Some (n, [])"

definition word_lit :: "string \<Rightarrow> (json \<times> string) option" where
  "word_lit s =
     (if has_prefix ''true'' s then Some (JBool True, drop 4 s)
      else if has_prefix ''false'' s then Some (JBool False, drop 5 s)
      else if has_prefix ''null'' s then Some (JNull, drop 4 s)
      else None)"

definition is_blank :: "char \<Rightarrow> bool" where
  "is_blank c \<longleftrightarrow> octet c = 32 \<or> octet c = 9 \<or> octet c = 10 \<or> octet c = 13"

definition punctuation :: "(char \<times> token) list" where
  "punctuation =
     [(CHR ''['', TBegArr), (CHR '']'', TEndArr), (CHR ''{'', TBegObj), (CHR ''}'', TEndObj),
      (CHR '':'', TColon), (CHR '','', TComma)]"

lemma int_part_split: "int_part s = Some (i, r) \<Longrightarrow> s = i @ r \<and> i \<noteq> []"
  by (auto simp: int_part_def split: list.splits if_splits)

lemma frac_part_split: "frac_part s = Some (f, r) \<Longrightarrow> s = f @ r"
  by (auto simp: frac_part_def split: list.splits if_splits)

lemma exp_part_split: "exp_part s = Some (x, r) \<Longrightarrow> s = x @ r"
  by (auto simp: exp_part_def split: list.splits if_splits)

lemma num_lit_split: "num_lit s = Some (n, r) \<Longrightarrow> s = n @ r \<and> n \<noteq> []"
  by (auto simp: num_lit_def dest!: int_part_split frac_part_split exp_part_split
      split: option.splits prod.splits)

lemma num_lit_shorter: "num_lit s = Some (n, r) \<Longrightarrow> length r < length s"
  using num_lit_split [of s n r] by (cases n) auto

lemma word_lit_shorter: "word_lit s = Some (v, r) \<Longrightarrow> length r < length s"
  by (cases s) (auto simp: word_lit_def has_prefix_def split: if_splits)

text \<open>The tokens of a text; nothing is read after a token that is not well-formed.\<close>

function jlex :: "string \<Rightarrow> token list" where
  "jlex [] = []"
| "jlex (c # s) =
     (if is_blank c then jlex s
      else case map_of punctuation c of
        Some t \<Rightarrow> t # jlex s
      | None \<Rightarrow>
          if c = quote_char then
            (case str_lit s of None \<Rightarrow> [TBad] | Some (l, r) \<Rightarrow> TStr l # jlex r)
          else case word_lit (c # s) of
            Some (v, r) \<Rightarrow> TLit v # jlex r
          | None \<Rightarrow> (case num_lit (c # s) of None \<Rightarrow> [TBad] | Some (n, r) \<Rightarrow> TLit (JNum n) # jlex r))"
  by pat_completeness auto
termination
  by (relation "measure length")
    (use str_lit_shorter word_lit_shorter num_lit_shorter in fastforce)+

declare jlex.simps(2) [simp del]

section \<open>The automaton\<close>

datatype json_frame = FArr "json list" | FObj "(string \<times> json) list" string

datatype json_mode = NeedValue | NeedValueOrEnd | NeedKey | NeedKeyOrEnd | NeedColon | After json

text \<open>The elements of an open array and the members of an open object are kept in reverse.\<close>

abbreviation maxNestingDepth :: nat where "maxNestingDepth \<equiv> 10000"

definition push_frame :: "json_mode \<Rightarrow> json_frame \<Rightarrow> json_frame list \<Rightarrow> (json_mode \<times> json_frame list) option" where
  "push_frame m f st = (if length st < maxNestingDepth then Some (m, f # st) else None)"

fun start_value :: "json_frame list \<Rightarrow> token \<Rightarrow> (json_mode \<times> json_frame list) option" where
  "start_value st (TStr l) = Some (After (JStr l), st)"
| "start_value st (TLit v) = Some (After v, st)"
| "start_value st TBegArr = push_frame NeedValueOrEnd (FArr []) st"
| "start_value st TBegObj = push_frame NeedKeyOrEnd (FObj [] []) st"
| "start_value st _ = None"

fun step_token :: "json_mode \<Rightarrow> json_frame list \<Rightarrow> token \<Rightarrow> (json_mode \<times> json_frame list) option" where
  "step_token NeedValue st t = start_value st t"
| "step_token NeedValueOrEnd (FArr [] # st) TEndArr = Some (After (JArr []), st)"
| "step_token NeedValueOrEnd st t = start_value st t"
| "step_token NeedKeyOrEnd (FObj [] k # st) TEndObj = Some (After (JObj []), st)"
| "step_token NeedKeyOrEnd (FObj kvs _ # st) (TStr k) = Some (NeedColon, FObj kvs k # st)"
| "step_token NeedKey (FObj kvs _ # st) (TStr k) = Some (NeedColon, FObj kvs k # st)"
| "step_token NeedColon st TColon = Some (NeedValue, st)"
| "step_token (After v) (FArr vs # st) TComma = Some (NeedValue, FArr (v # vs) # st)"
| "step_token (After v) (FArr vs # st) TEndArr = Some (After (JArr (rev (v # vs))), st)"
| "step_token (After v) (FObj kvs k # st) TComma = Some (NeedKey, FObj ((k, v) # kvs) [] # st)"
| "step_token (After v) (FObj kvs k # st) TEndObj = Some (After (JObj (rev ((k, v) # kvs))), st)"
| "step_token _ _ _ = None"

definition finished_value :: "json_mode \<Rightarrow> json_frame list \<Rightarrow> json option" where
  "finished_value m st = (case (m, st) of (After v, []) \<Rightarrow> Some v | _ \<Rightarrow> None)"

fun read_value :: "json_mode \<Rightarrow> json_frame list \<Rightarrow> token list \<Rightarrow> (json \<times> token list) option" where
  "read_value m st [] = map_option (\<lambda>v. (v, [])) (finished_value m st)"
| "read_value m st (t # ts) =
     (case finished_value m st of
        Some v \<Rightarrow> Some (v, t # ts)
      | None \<Rightarrow>
          (case step_token m st t of None \<Rightarrow> None | Some (m', st') \<Rightarrow> read_value m' st' ts))"

text \<open>
  A \<open>json.Decoder\<close> reads the value at the front of its input and leaves the rest;
  \<open>json.Unmarshal\<close> wants nothing but blanks after it.
\<close>

definition json_Decode :: "string \<Rightarrow> json option" where
  "json_Decode s = map_option fst (read_value NeedValue [] (jlex s))"

definition json_Unmarshal :: "string \<Rightarrow> json option" where
  "json_Unmarshal s = (case read_value NeedValue [] (jlex s) of Some (v, []) \<Rightarrow> Some v | _ \<Rightarrow> None)"

section \<open>Writing a value\<close>

definition quoted :: "string \<Rightarrow> string" where
  "quoted l = quote_char # html_escape l @ [quote_char]"

fun json_print :: "json \<Rightarrow> string"
and print_elems :: "json list \<Rightarrow> string"
and print_members :: "(string \<times> json) list \<Rightarrow> string" where
  "json_print JNull = ''null''"
| "json_print (JBool b) = (if b then ''true'' else ''false'')"
| "json_print (JNum n) = n"
| "json_print (JStr l) = quoted l"
| "json_print (JArr []) = ''[]''"
| "json_print (JArr (v # vs)) = ''['' @ json_print v @ print_elems vs @ '']''"
| "json_print (JObj []) = ''{}''"
| "json_print (JObj ((k, v) # kvs)) = ''{'' @ quoted k @ '':'' @ json_print v @ print_members kvs @ ''}''"
| "print_elems [] = []"
| "print_elems (v # vs) = '','' @ json_print v @ print_elems vs"
| "print_members [] = []"
| "print_members ((k, v) # kvs) = '','' @ quoted k @ '':'' @ json_print v @ print_members kvs"

end
