(* ===== verification/Json_Roundtrip.thy ===== *)
theory Json_Roundtrip
  imports Json_Values
begin

text \<open>
  Reading what was written gives the same value: the numbers, then the tokens, then the
  automaton. Every value that is read is well-formed and nested at most \<open>maxNestingDepth\<close> deep.
\<close>

section \<open>Well-formed trees\<close>

fun wf_json :: "json \<Rightarrow> bool" where
  "wf_json JNull = True"
| "wf_json (JBool b) = True"
| "wf_json (JNum n) = num_ok n"
| "wf_json (JStr l) = lit_ok l"
| "wf_json (JArr vs) = list_all wf_json vs"
| "wf_json (JObj kvs) = list_all (pred_prod lit_ok wf_json) kvs"

fun jdepth :: "json \<Rightarrow> nat" where
  "jdepth (JArr vs) = Suc (foldr max (map jdepth vs) 0)"
| "jdepth (JObj kvs) = Suc (foldr max (map (\<lambda>kv. jdepth (snd kv)) kvs) 0)"
| "jdepth _ = 0"

fun esc_json :: "json \<Rightarrow> json" where
  "esc_json (JStr l) = JStr (html_escape l)"
| "esc_json (JArr vs) = JArr (map esc_json vs)"
| "esc_json (JObj kvs) = JObj (map (map_prod html_escape esc_json) kvs)"
| "esc_json v = v"

text \<open>The value of a tree: its string literals read as strings.\<close>

fun value_of :: "json \<Rightarrow> json" where
  "value_of (JStr l) = JStr (unquote l)"
| "value_of (JArr vs) = JArr (map value_of vs)"
| "value_of (JObj kvs) = JObj (map (map_prod unquote value_of) kvs)"
| "value_of v = v"

lemma depth_le:
  "foldr max (map f xs) 0 \<le> (n :: nat) \<longleftrightarrow> (\<forall>x \<in> set xs. f x \<le> n)"
  by (induction xs) auto

lemma depth_esc [simp]: "jdepth (esc_json v) = jdepth v"
proof (induction v)
  case (JArr vs)
  then have "map jdepth (map esc_json vs) = map jdepth vs" by simp
  then show ?case by (simp only: esc_json.simps jdepth.simps)
next
  case (JObj kvs)
  have "jdepth (esc_json (snd kv)) = jdepth (snd kv)" if "kv \<in> set kvs" for kv
    by (rule JObj [OF that]) (cases kv, simp)
  then have "map (\<lambda>kv. jdepth (snd kv)) (map (map_prod html_escape esc_json) kvs) = map (\<lambda>kv. jdepth (snd kv)) kvs"
    by simp
  then show ?case by (simp only: esc_json.simps jdepth.simps)
qed simp_all

lemma wf_esc: "wf_json v \<Longrightarrow> wf_json (esc_json v)"
proof (induction v)
  case (JObj kvs)
  have "wf_json (esc_json (snd kv))" if "kv \<in> set kvs" "wf_json (snd kv)" for kv
    by (rule JObj(1) [OF that(1) _ that(2)]) (cases kv, simp)
  with JObj(2) show ?case
    by (auto simp: list_all_iff pred_prod_beta lit_ok_html_escape)
qed (auto simp: list_all_iff lit_ok_html_escape)

lemma value_of_esc: "wf_json v \<Longrightarrow> value_of (esc_json v) = value_of v"
proof (induction v)
  case (JObj kvs)
  have "value_of (esc_json (snd kv)) = value_of (snd kv)" if "kv \<in> set kvs" "wf_json (snd kv)" for kv
    by (rule JObj(1) [OF that(1) _ that(2)]) (cases kv, simp)
  with JObj(2) show ?case
    by (auto simp: list_all_iff pred_prod_beta unquote_html_escape map_prod_def split_beta)
qed (auto simp: list_all_iff unquote_html_escape)

section \<open>Numbers\<close>

definition no_digit :: "string \<Rightarrow> bool" where
  "no_digit u \<longleftrightarrow> (case u of [] \<Rightarrow> True | c # _ \<Rightarrow> \<not> is_digit c)"

definition num_stop :: "string \<Rightarrow> bool" where
  "num_stop u \<longleftrightarrow> (case u of [] \<Rightarrow> True | c # _ \<Rightarrow> \<not> is_digit c \<and> c \<notin> set ''.eE'')"

definition all_digits :: "string \<Rightarrow> bool" where
  "all_digits ds \<longleftrightarrow> (\<forall>c \<in> set ds. is_digit c)"

lemma all_digits_takeWhile: "all_digits (takeWhile is_digit t)"
  by (auto simp: all_digits_def dest: set_takeWhileD)

lemma span_digits:
  assumes "all_digits ds" "no_digit u"
  shows "takeWhile is_digit (ds @ u) = ds" "dropWhile is_digit (ds @ u) = u"
proof -
  have "takeWhile is_digit u = []" "dropWhile is_digit u = u"
    using assms(2) by (cases u; simp add: no_digit_def)+
  with assms(1) show "takeWhile is_digit (ds @ u) = ds" "dropWhile is_digit (ds @ u) = u"
    unfolding all_digits_def by (simp_all add: takeWhile_append2 dropWhile_append2)
qed

lemma not_digits: "\<not> is_digit (CHR ''-'')" "\<not> is_digit (CHR ''+'')" "is_digit (CHR ''0'')"
    "\<not> is_digit (CHR ''.'')" "\<not> is_digit (CHR ''e'')" "\<not> is_digit (CHR ''E'')"
  by (simp_all add: is_digit_def octet_def)

text \<open>The shapes of the parts.\<close>

inductive int_form :: "string \<Rightarrow> bool" where
  zero: "sign = [] \<or> sign = ''-'' \<Longrightarrow> int_form (sign @ ''0'')"
| digits: "sign = [] \<or> sign = ''-'' \<Longrightarrow> is_digit c \<Longrightarrow> c \<noteq> CHR ''0'' \<Longrightarrow> all_digits ds \<Longrightarrow>
    int_form (sign @ c # ds)"

inductive frac_form :: "string \<Rightarrow> bool" where
  no_frac: "frac_form []"
| frac: "all_digits ds \<Longrightarrow> ds \<noteq> [] \<Longrightarrow> frac_form (CHR ''.'' # ds)"

inductive exp_form :: "string \<Rightarrow> bool" where
  no_exp: "exp_form []"
| exponent: "e = CHR ''e'' \<or> e = CHR ''E'' \<Longrightarrow> sign = [] \<or> sign = ''+'' \<or> sign = ''-'' \<Longrightarrow>
    all_digits ds \<Longrightarrow> ds \<noteq> [] \<Longrightarrow> exp_form (e # sign @ ds)"

lemma int_part_form:
  assumes "int_part s = Some (i, r)" shows "int_form i"
proof -
  obtain sign t where p: "(case s of [] \<Rightarrow> ([], s) | c # t \<Rightarrow> if c = CHR ''-'' then ([c], t) else ([], s)) = (sign, t)"
    by fastforce
  then have sign: "sign = [] \<or> sign = ''-''" by (auto split: list.splits if_splits)
  have "(case t of [] \<Rightarrow> None
      | c # t' \<Rightarrow> if c = CHR ''0'' then Some (sign @ [c], t')
          else if is_digit c then Some (sign @ c # takeWhile is_digit t', dropWhile is_digit t')
          else None) = Some (i, r)"
    using assms unfolding int_part_def p Let_def prod.case .
  with int_form.zero [OF sign] int_form.digits [OF sign _ _ all_digits_takeWhile] show ?thesis
    by (auto split: list.splits if_splits)
qed

lemma frac_part_form: "frac_part s = Some (f, r) \<Longrightarrow> frac_form f"
  by (auto simp: frac_part_def all_digits_takeWhile split: list.splits if_splits
      intro: frac_form.intros)

lemma exp_part_form:
  assumes "exp_part s = Some (x, r)" shows "exp_form x"
proof (cases "x = []")
  case False
  with assms obtain e t where s: "s = e # t" and e: "e = CHR ''e'' \<or> e = CHR ''E''"
    by (auto simp: exp_part_def split: list.splits if_splits)
  obtain sign t1 where p: "(case t of [] \<Rightarrow> ([], t)
      | d # u \<Rightarrow> if d = CHR ''+'' \<or> d = CHR ''-'' then ([d], u) else ([], t)) = (sign, t1)"
    by fastforce
  then have sign: "sign = [] \<or> sign = ''+'' \<or> sign = ''-''" by (auto split: list.splits if_splits)
  from assms have "takeWhile is_digit t1 \<noteq> []" "x = e # sign @ takeWhile is_digit t1"
    unfolding s exp_part_def list.case if_P [OF e] p Let_def prod.case
    by (auto split: if_splits)
  with exp_form.exponent [OF e sign all_digits_takeWhile] show ?thesis by simp
qed (simp add: exp_form.no_exp)

lemma int_form_read:
  assumes "int_form i" "no_digit u" shows "int_part (i @ u) = Some (i, u)"
  using assms(1)
proof cases
  case (zero sign)
  then show ?thesis by (auto simp: int_part_def)
next
  case (digits sign c ds)
  have "c \<noteq> CHR ''-''" using digits(3) not_digits by auto
  with digits show ?thesis using span_digits [OF digits(5) assms(2)] by (auto simp: int_part_def)
qed

lemma frac_form_read:
  assumes "frac_form f" "no_digit u" "u = [] \<or> hd u \<noteq> CHR ''.''"
  shows "frac_part (f @ u) = Some (f, u)"
  using assms(1)
proof cases
  case no_frac
  then show ?thesis using assms(3) by (cases u) (simp_all add: frac_part_def)
next
  case (frac ds)
  then show ?thesis using span_digits [OF frac(2) assms(2)] by (simp add: frac_part_def)
qed

lemma stop_no_digit: "num_stop u \<Longrightarrow> no_digit u"
  by (cases u) (simp_all add: num_stop_def no_digit_def)

lemma exp_form_read:
  assumes "exp_form x" "num_stop u"
  shows "exp_part (x @ u) = Some (x, u)"
  using assms(1)
proof cases
  case no_exp
  then show ?thesis using assms(2) by (cases u) (simp_all add: exp_part_def num_stop_def)
next
  case (exponent e sign ds)
  note d = span_digits [OF exponent(4) stop_no_digit [OF assms(2)]]
  obtain c cs where ds: "ds = c # cs" using exponent(5) by (cases ds) auto
  then have "is_digit c" using exponent(4) by (simp add: all_digits_def)
  then have "c \<noteq> CHR ''+''" "c \<noteq> CHR ''-''" using not_digits by auto
  with exponent d ds show ?thesis by (elim disjE) (simp_all add: exp_part_def)
qed

lemma form_stops:
  assumes "frac_form f" "exp_form x" "num_stop u"
  shows "no_digit (f @ x @ u)" "no_digit (x @ u)" "x @ u = [] \<or> hd (x @ u) \<noteq> CHR ''.''"
proof -
  show x: "no_digit (x @ u)" "x @ u = [] \<or> hd (x @ u) \<noteq> CHR ''.''"
    using assms(2,3) not_digits by (cases u; auto simp: num_stop_def no_digit_def elim!: exp_form.cases)+
  show "no_digit (f @ x @ u)"
    using assms(1) x(1) not_digits by (auto simp: no_digit_def elim!: frac_form.cases)
qed

lemma num_lit_app:
  assumes "num_lit s = Some (n, r)" "num_stop u"
  shows "num_lit (n @ u) = Some (n, u)"
proof -
  from assms(1) obtain i f x s1 s2 where p: "int_part s = Some (i, s1)" "frac_part s1 = Some (f, s2)"
    "exp_part s2 = Some (x, r)" and n: "n = i @ f @ x"
    by (auto simp: num_lit_def split: option.splits prod.splits)
  note f = frac_part_form [OF p(2)] and x = exp_part_form [OF p(3)]
  note st = form_stops [OF f x assms(2)]
  show ?thesis
    using int_form_read [OF int_part_form [OF p(1)] st(1)] frac_form_read [OF f st(2,3)]
      exp_form_read [OF x assms(2)]
    by (simp add: num_lit_def n)
qed

lemma num_lit_ok: "num_lit s = Some (n, r) \<Longrightarrow> num_ok n"
  using num_lit_app [of s n r "[]"] by (simp add: num_ok_def num_stop_def)

lemma num_ok_read: "num_ok n \<Longrightarrow> num_stop u \<Longrightarrow> num_lit (n @ u) = Some (n, u)"
  using num_lit_app by (simp add: num_ok_def)

lemma num_ok_int: "int_form n \<Longrightarrow> num_ok n"
  using int_form_read [of n "[]"]
  by (simp add: num_ok_def num_lit_def no_digit_def frac_part_def exp_part_def)

lemma dec_digit_is_digit: "d < 10 \<Longrightarrow> is_digit (dec_digit d)"
  by (simp add: dec_digit_def is_digit_def octet_char_of)

lemma dec_digit_zero: "dec_digit 0 = CHR ''0''"
  by code_simp

lemma show_nat_form: "\<exists>c ds. show_nat n = c # ds \<and> is_digit c \<and> all_digits ds \<and> (c = CHR ''0'' \<longrightarrow> ds = [])"
proof (induction n rule: show_nat.induct)
  case (1 n)
  show ?case
  proof (cases "n < 10")
    case True
    then show ?thesis by (subst show_nat.simps) (simp add: dec_digit_is_digit all_digits_def)
  next
    case False
    with 1 obtain c ds where c: "show_nat (n div 10) = c # ds" "is_digit c" "all_digits ds" "c = CHR ''0'' \<longrightarrow> ds = []"
      by blast
    have "c \<noteq> CHR ''0''"
    proof
      assume "c = CHR ''0''"
      with c have "show_nat (n div 10) = show_nat 0" by (simp add: show_nat.simps [of 0] dec_digit_zero)
      then show False using False by (simp add: show_nat_inj)
    qed
    with c False show ?thesis
      by (subst show_nat.simps) (simp add: dec_digit_is_digit all_digits_def)
  qed
qed

lemma num_ok_show_int: "num_ok (show_int i)"
proof -
  have "int_form (sign @ show_nat n)" if "sign = [] \<or> sign = ''-''" for sign n
  proof -
    obtain c ds where "show_nat n = c # ds" "is_digit c" "all_digits ds" "c = CHR ''0'' \<longrightarrow> ds = []"
      using show_nat_form by blast
    with int_form.intros [OF that] show ?thesis by (cases "c = CHR ''0''") auto
  qed
  from this [of "[]"] this [of "''-''"] show ?thesis
    by (simp add: show_int_def num_ok_int)
qed

section \<open>The tokens of a written value\<close>

fun toks :: "json \<Rightarrow> token list"
and elem_toks :: "json list \<Rightarrow> token list"
and member_toks :: "(string \<times> json) list \<Rightarrow> token list" where
  "toks (JStr l) = [TStr l]"
| "toks (JArr []) = [TBegArr, TEndArr]"
| "toks (JArr (v # vs)) = TBegArr # toks v @ elem_toks vs @ [TEndArr]"
| "toks (JObj []) = [TBegObj, TEndObj]"
| "toks (JObj ((k, v) # kvs)) = TBegObj # TStr k # TColon # toks v @ member_toks kvs @ [TEndObj]"
| "toks v = [TLit v]"
| "elem_toks [] = []"
| "elem_toks (v # vs) = TComma # toks v @ elem_toks vs"
| "member_toks [] = []"
| "member_toks ((k, v) # kvs) = TComma # TStr k # TColon # toks v @ member_toks kvs"

lemma jlex_punct:
  "jlex (CHR ''['' # s) = TBegArr # jlex s" "jlex (CHR '']'' # s) = TEndArr # jlex s"
  "jlex (CHR ''{'' # s) = TBegObj # jlex s" "jlex (CHR ''}'' # s) = TEndObj # jlex s"
  "jlex (CHR '':'' # s) = TColon # jlex s" "jlex (CHR '','' # s) = TComma # jlex s"
  by (simp_all add: jlex.simps(2) is_blank_def octet_def punctuation_def)

lemma jlex_quoted:
  assumes "lit_ok l" shows "jlex (quoted l @ u) = TStr (html_escape l) # jlex u"
  using str_lit_ok [OF lit_ok_html_escape [OF assms], of u]
  by (simp add: quoted_def jlex.simps(2) is_blank_def octet_def punctuation_def)

lemma jlex_words:
  "jlex (''true'' @ u) = TLit (JBool True) # jlex u" "jlex (''false'' @ u) = TLit (JBool False) # jlex u"
  "jlex (''null'' @ u) = TLit JNull # jlex u"
  by (simp_all add: jlex.simps(2) is_blank_def octet_def punctuation_def word_lit_def has_prefix_def)

lemma jlex_number:
  assumes "num_ok n" "num_stop u" shows "jlex (n @ u) = TLit (JNum n) # jlex u"
proof -
  obtain i where "int_form i" "\<exists>m. n = i @ m"
    using assms(1) int_part_form
    by (force simp: num_ok_def num_lit_def split: option.splits prod.splits)
  then obtain c cs where n: "n = c # cs" and c: "c = CHR ''-'' \<or> is_digit c"
    using not_digits by (auto elim!: int_form.cases)
  from c have "\<not> is_blank c" "map_of punctuation c = None" "c \<noteq> quote_char"
    "c \<notin> set ''tfn''"
    by (auto simp: is_blank_def is_digit_def octet_def punctuation_def)
  moreover from this have "word_lit (c # s) = None" for s by (simp add: word_lit_def has_prefix_def)
  ultimately show ?thesis using num_ok_read [OF assms] n by (simp add: jlex.simps(2))
qed

lemma stops: "num_stop (CHR '']'' # u)" "num_stop (CHR ''}'' # u)" "num_stop (CHR '','' # u)"
  by (simp_all add: num_stop_def is_digit_def octet_def)

lemma stop_elems: "num_stop u \<Longrightarrow> num_stop (print_elems vs @ u)"
  by (cases vs) (simp_all add: stops)

lemma stop_members: "num_stop u \<Longrightarrow> num_stop (print_members kvs @ u)"
  by (cases kvs rule: print_members.cases) (simp_all add: stops)

lemma jlex_print:
  "wf_json v \<Longrightarrow> num_stop u \<Longrightarrow> jlex (json_print v @ u) = toks (esc_json v) @ jlex u"
  "list_all wf_json vs \<Longrightarrow> num_stop u \<Longrightarrow> jlex (print_elems vs @ u) = elem_toks (map esc_json vs) @ jlex u"
  "list_all (pred_prod lit_ok wf_json) kvs \<Longrightarrow> num_stop u \<Longrightarrow>
     jlex (print_members kvs @ u) = member_toks (map (map_prod html_escape esc_json) kvs) @ jlex u"
proof (induction v and vs and kvs arbitrary: u and u and u rule: json_print_print_elems_print_members.induct)
  case 1
  show ?case using jlex_words by simp
next
  case (2 b)
  show ?case using jlex_words by simp
qed (simp_all add: jlex_punct jlex_quoted jlex_number stops stop_elems stop_members)

section \<open>Running the automaton over them\<close>

lemma toks_first: "\<exists>t ts. toks v = t # ts \<and> t \<noteq> TEndArr"
  by (cases v rule: toks.cases) auto

lemma read_first_elem:
  "read_value NeedValueOrEnd (FArr [] # st) (toks v @ ts) = read_value NeedValue (FArr [] # st) (toks v @ ts)"
proof -
  obtain t us where "toks v = t # us" "t \<noteq> TEndArr" using toks_first by blast
  then show ?thesis by (cases t) (simp_all add: finished_value_def)
qed

lemma read_toks:
  "jdepth v + length st \<le> maxNestingDepth \<Longrightarrow>
     read_value NeedValue st (toks v @ ts) = read_value (After v) st ts"
  "\<forall>w \<in> set vs. jdepth w + Suc (length st) \<le> maxNestingDepth \<Longrightarrow>
     read_value (After v') (FArr us # st) (elem_toks vs @ TEndArr # ts) =
     read_value (After (JArr (rev us @ v' # vs))) st ts"
  "\<forall>kv \<in> set kvs. jdepth (snd kv) + Suc (length st) \<le> maxNestingDepth \<Longrightarrow>
     read_value (After v') (FObj ms k # st) (member_toks kvs @ TEndObj # ts) =
     read_value (After (JObj (rev ms @ (k, v') # kvs))) st ts"
proof (induction v and vs and kvs arbitrary: st ts and v' us st ts and v' ms k st ts
    rule: toks_elem_toks_member_toks.induct)
  case (3 v vs)
  then have d: "jdepth v + Suc (length st) \<le> maxNestingDepth"
    "\<forall>w \<in> set vs. jdepth w + Suc (length st) \<le> maxNestingDepth"
    using depth_le [of jdepth "v # vs" "maxNestingDepth - Suc (length st)"] by auto
  have "read_value NeedValue st (toks (JArr (v # vs)) @ ts) =
      read_value NeedValueOrEnd (FArr [] # st) (toks v @ elem_toks vs @ TEndArr # ts)"
    using d(1) by (simp add: finished_value_def push_frame_def)
  also have "\<dots> = read_value (After (JArr (v # vs))) st ts"
    using 3(1) [of "FArr [] # st"] 3(2) [OF d(2), of v "[]"] d(1) by (simp add: read_first_elem)
  finally show ?case .
next
  case (5 k v kvs)
  then have d: "jdepth v + Suc (length st) \<le> maxNestingDepth"
    "\<forall>kv \<in> set kvs. jdepth (snd kv) + Suc (length st) \<le> maxNestingDepth"
    using depth_le [of "\<lambda>kv. jdepth (snd kv)" "(k, v) # kvs" "maxNestingDepth - Suc (length st)"] by auto
  have "read_value NeedValue st (toks (JObj ((k, v) # kvs)) @ ts) =
      read_value NeedValue (FObj [] k # st) (toks v @ member_toks kvs @ TEndObj # ts)"
    using d(1) by (simp add: finished_value_def push_frame_def)
  also have "\<dots> = read_value (After (JObj ((k, v) # kvs))) st ts"
    using 5(1) [of "FObj [] k # st"] 5(2) [OF d(2), of v "[]" k] d(1) by simp
  finally show ?case .
qed (auto simp: finished_value_def push_frame_def)

section \<open>Round trips\<close>

declare json_print.simps [simp del]

lemma read_print:
  assumes "wf_json v" "jdepth v \<le> maxNestingDepth" "num_stop u"
  shows "read_value NeedValue [] (jlex (json_print v @ u)) = Some (esc_json v, jlex u)"
  using read_toks(1) [of "esc_json v" "[]" "jlex u"] assms
  by (simp add: jlex_print(1)) (cases "jlex u"; simp add: finished_value_def)

lemma Decode_print:
  "wf_json v \<Longrightarrow> jdepth v \<le> maxNestingDepth \<Longrightarrow> num_stop u \<Longrightarrow> json_Decode (json_print v @ u) = Some (esc_json v)"
  by (simp add: json_Decode_def read_print)

lemma Unmarshal_print:
  "wf_json v \<Longrightarrow> jdepth v \<le> maxNestingDepth \<Longrightarrow> json_Unmarshal (json_print v) = Some (esc_json v)"
  using read_print [of v "[]"] by (simp add: json_Unmarshal_def num_stop_def)

lemma Decode_print_value:
  assumes "wf_json v" "jdepth v \<le> maxNestingDepth" "num_stop u"
  obtains w where "json_Decode (json_print v @ u) = Some w" "value_of w = value_of v"
  using Decode_print [OF assms] value_of_esc [OF assms(1)] by blast

text \<open>A tree that is printed as it stands, and so read back as the same tree.\<close>

definition literal_json :: "json \<Rightarrow> bool" where
  "literal_json j \<longleftrightarrow> wf_json j \<and> jdepth j \<le> maxNestingDepth \<and> esc_json j = j"

lemma literal_json_read:
  assumes "literal_json j"
  shows "json_Decode (json_print j) = Some j" "json_Unmarshal (json_print j) = Some j"
  using assms Unmarshal_print [of j] Decode_print [of j "[]"]
  by (simp_all add: literal_json_def num_stop_def)

lemma literal_empty: "literal_json (JObj [])"
  by (simp add: literal_json_def)

section \<open>What is read is well-formed\<close>

fun wf_token :: "token \<Rightarrow> bool" where
  "wf_token (TStr l) = lit_ok l"
| "wf_token (TLit v) = (wf_json v \<and> jdepth v = 0)"
| "wf_token _ = True"

lemma jlex_wf: "t \<in> set (jlex s) \<Longrightarrow> wf_token t"
proof (induction s rule: jlex.induct)
  case 1
  then show ?case by simp
next
  case (2 c s)
  have "wf_token t" if "map_of punctuation c = Some t" for t
    using that by (auto simp: punctuation_def split: if_splits)
  moreover have "wf_token (TLit v)" if "word_lit (c # s) = Some (v, r)" for v r
    using that by (auto simp: word_lit_def split: if_splits)
  moreover have "lit_ok l" if "str_lit s = Some (l, r)" for l r using str_lit_someD [OF that] by simp
  moreover note num_lit_ok [of "c # s"]
  moreover have "t \<in> set (if is_blank c then jlex s
      else case map_of punctuation c of
        Some t \<Rightarrow> t # jlex s
      | None \<Rightarrow>
          if c = quote_char then
            (case str_lit s of None \<Rightarrow> [TBad] | Some (l, r) \<Rightarrow> TStr l # jlex r)
          else case word_lit (c # s) of
            Some (v, r) \<Rightarrow> TLit v # jlex r
          | None \<Rightarrow> (case num_lit (c # s) of None \<Rightarrow> [TBad] | Some (n, r) \<Rightarrow> TLit (JNum n) # jlex r))"
    using 2(6) by (simp only: jlex.simps(2))
  ultimately show ?case using 2(1-5)
    by (auto split: if_splits option.splits prod.splits)
qed

fun frame_vals :: "json_frame \<Rightarrow> json list" where
  "frame_vals (FArr vs) = vs"
| "frame_vals (FObj kvs k) = map snd kvs"

fun frame_keys :: "json_frame \<Rightarrow> string list" where
  "frame_keys (FArr vs) = []"
| "frame_keys (FObj kvs k) = k # map fst kvs"

fun stack_ok :: "json_frame list \<Rightarrow> bool" where
  "stack_ok [] = True"
| "stack_ok (f # st) =
     (stack_ok st \<and> Suc (length st) \<le> maxNestingDepth \<and> (\<forall>k \<in> set (frame_keys f). lit_ok k) \<and>
      (\<forall>v \<in> set (frame_vals f). wf_json v \<and> jdepth v + Suc (length st) \<le> maxNestingDepth))"

definition mode_ok :: "json_mode \<Rightarrow> json_frame list \<Rightarrow> bool" where
  "mode_ok m st \<longleftrightarrow> (case m of After v \<Rightarrow> wf_json v \<and> jdepth v + length st \<le> maxNestingDepth | _ \<Rightarrow> True)"

lemma stack_length: "stack_ok st \<Longrightarrow> length st \<le> maxNestingDepth"
  by (cases st) auto

lemma start_value_ok:
  "start_value st t = Some (m', st') \<Longrightarrow> wf_token t \<Longrightarrow> stack_ok st \<Longrightarrow> stack_ok st' \<and> mode_ok m' st'"
  by (cases t) (auto simp: push_frame_def mode_ok_def split: if_splits dest: stack_length)

lemma depth_arr:
  "jdepth (JArr vs) + n \<le> maxNestingDepth \<longleftrightarrow>
     Suc n \<le> maxNestingDepth \<and> (\<forall>v \<in> set vs. jdepth v + Suc n \<le> maxNestingDepth)"
  using depth_le [of jdepth vs "9999 - n"] by (auto simp: le_diff_conv2)

lemma depth_obj:
  "jdepth (JObj kvs) + n \<le> maxNestingDepth \<longleftrightarrow>
     Suc n \<le> maxNestingDepth \<and> (\<forall>kv \<in> set kvs. jdepth (snd kv) + Suc n \<le> maxNestingDepth)"
  using depth_le [of "\<lambda>kv. jdepth (snd kv)" kvs "9999 - n"] by (auto simp: le_diff_conv2)

lemma step_token_ok:
  assumes "step_token m st t = Some (m', st')" "wf_token t" "stack_ok st" "mode_ok m st"
  shows "stack_ok st' \<and> mode_ok m' st'"
proof -
  have "start_value st t = Some (m', st') \<or> ?thesis"
    using assms
    by (cases "(m, st, t)" rule: step_token.cases)
      (auto simp: mode_ok_def list_all_iff pred_prod_beta depth_arr depth_obj simp del: jdepth.simps)
  then show ?thesis using start_value_ok assms(2,3) by blast
qed

lemma read_value_ok:
  "read_value m st ts = Some (v, us) \<Longrightarrow> \<forall>t \<in> set ts. wf_token t \<Longrightarrow> stack_ok st \<Longrightarrow> mode_ok m st \<Longrightarrow>
     wf_json v \<and> jdepth v \<le> maxNestingDepth"
proof (induction m st ts rule: read_value.induct)
  case (1 m st)
  then show ?case by (auto simp: finished_value_def mode_ok_def split: json_mode.splits list.splits)
next
  case (2 m st t ts)
  show ?case
  proof (cases "finished_value m st")
    case None
    with 2(2) obtain m' st' where "step_token m st t = Some (m', st')" "read_value m' st' ts = Some (v, us)"
      by (auto split: option.splits)
    with 2 None step_token_ok show ?thesis by fastforce
  next
    case (Some w)
    with 2 show ?thesis by (auto simp: finished_value_def mode_ok_def split: json_mode.splits list.splits)
  qed
qed

theorem Decode_wf: "json_Decode s = Some v \<Longrightarrow> wf_json v \<and> jdepth v \<le> maxNestingDepth"
  using read_value_ok [of NeedValue "[]" "jlex s"] jlex_wf
  by (auto simp: json_Decode_def mode_ok_def)

theorem Unmarshal_Decode: "json_Unmarshal s = Some v \<Longrightarrow> json_Decode s = Some v"
  by (auto simp: json_Unmarshal_def json_Decode_def split: option.splits prod.splits list.splits)

end
