(* ===== verification/Json_Data.thy ===== *)
theory Json_Data
  imports Json_Roundtrip
begin

text \<open>
  What the relay uses of \<open>encoding/json\<close> beyond its texts: the trees that stand for Go values,
  and the decoding of a tree into a Go struct. A \<open>json.RawMessage\<close> is the subtree it holds
  (\<open>None\<close> for a nil message), so forwarding it is forwarding the subtree.

  The decoder follows the package: an object's keys are met in order and matched against the
  field names, exactly first and then without regard to case; unknown keys are skipped; a later
  duplicate overwrites an earlier one; \<open>null\<close> leaves a plain field as it is; a value of the
  wrong type is an error of the whole call (every caller in the relay drops the half-filled
  struct then).
\<close>

section \<open>Values\<close>

definition jstr :: "string \<Rightarrow> json" where
  "jstr s = JStr (json_quote s)"

definition jint :: "int \<Rightarrow> json" where
  "jint i = JNum (show_int i)"

text \<open>A raw message in an output: a nil message is written as \<open>null\<close>.\<close>

definition jraw :: "json option \<Rightarrow> json" where
  "jraw r = (case r of None \<Rightarrow> JNull | Some j \<Rightarrow> j)"

section \<open>Integer literals\<close>

definition digit_val :: "char \<Rightarrow> nat option" where
  "digit_val c = (let n = of_char c in if 48 \<le> n \<and> n < 58 then Some (n - 48) else None)"

fun digits_val :: "nat \<Rightarrow> string \<Rightarrow> nat option" where
  "digits_val acc [] = Some acc"
| "digits_val acc (c # cs) =
     (case digit_val c of None \<Rightarrow> None | Some d \<Rightarrow> digits_val (10 * acc + d) cs)"

text \<open>\<open>strconv.ParseInt(s, 10, 64)\<close>: an error outside the 64-bit range.\<close>

definition parse_int64 :: "string \<Rightarrow> int64 option" where
  "parse_int64 s =
     (let neg = (s \<noteq> [] \<and> hd s = CHR ''-'');
          ds = (if s \<noteq> [] \<and> (hd s = CHR ''-'' \<or> hd s = CHR ''+'') then tl s else s)
      in if ds = [] then None
         else case digits_val 0 ds of
           None \<Rightarrow> None
         | Some n \<Rightarrow>
             if neg then (if n \<le> 2 ^ 63 then Some (- word_of_nat n) else None)
             else (if n < 2 ^ 63 then Some (word_of_nat n) else None))"

text \<open>Facts with which the simplifier reads plain literals.\<close>

lemmas plain_reading = unquote_plain plain_char_def octet_def

section \<open>Field decoders\<close>

text \<open>Each takes the field's old value; \<open>None\<close> is a type error.\<close>

fun dec_string :: "string \<Rightarrow> json \<Rightarrow> string option" where
  "dec_string old (JStr l) = Some (unquote l)"
| "dec_string old JNull = Some old"
| "dec_string old _ = None"

lemma dec_string_jstr: "dec_string old (jstr s) = Some (to_valid s)"
  using unquote_json_quote [of s "[]"] by (simp add: jstr_def)

fun dec_bool :: "bool \<Rightarrow> json \<Rightarrow> bool option" where
  "dec_bool old (JBool b) = Some b"
| "dec_bool old JNull = Some old"
| "dec_bool old _ = None"

fun dec_int :: "int64 \<Rightarrow> json \<Rightarrow> int64 option" where
  "dec_int old (JNum s) = parse_int64 s"
| "dec_int old JNull = Some old"
| "dec_int old _ = None"

text \<open>A \<open>json.RawMessage\<close> takes any value, \<open>null\<close> included.\<close>

definition dec_raw :: "json option \<Rightarrow> json \<Rightarrow> json option option" where
  "dec_raw old j = Some (Some j)"

text \<open>
  A slice: element \<open>i\<close> is decoded over the old element where there is one (which only
  matters when a key occurs twice), over the zero value otherwise; \<open>null\<close> makes the slice nil.
\<close>

fun dec_elems :: "('a \<Rightarrow> json \<Rightarrow> 'a option) \<Rightarrow> 'a \<Rightarrow> 'a list \<Rightarrow> json list \<Rightarrow> 'a list option" where
  "dec_elems d z olds [] = Some []"
| "dec_elems d z olds (j # js) =
     (case d (case olds of [] \<Rightarrow> z | x # _ \<Rightarrow> x) j of
        None \<Rightarrow> None
      | Some x \<Rightarrow> map_option (Cons x) (dec_elems d z (tl olds) js))"

fun dec_slice :: "('a \<Rightarrow> json \<Rightarrow> 'a option) \<Rightarrow> 'a \<Rightarrow> 'a list \<Rightarrow> json \<Rightarrow> 'a list option" where
  "dec_slice d z old (JArr js) = dec_elems d z old js"
| "dec_slice d z old JNull = Some []"
| "dec_slice d z old _ = None"

section \<open>Structs\<close>

text \<open>A struct type is the list of its JSON field names with the update each performs.\<close>

type_synonym 'r field_spec = "string \<times> ('r \<Rightarrow> json \<Rightarrow> 'r option)"

text \<open>
  The case folding of field names: ASCII letters, and the two characters outside ASCII that
  fold to one (U+017F to S and U+212A to K).
\<close>

definition upper :: "char \<Rightarrow> char" where
  "upper c = (let n = of_char c :: nat in if 97 \<le> n \<and> n \<le> 122 then char_of (n - 32) else c)"

fun fold_name :: "string \<Rightarrow> string" where
  "fold_name [] = []"
| "fold_name (c # cs) =
     (case cs of
        d # e # rest \<Rightarrow>
          if [c, d, e] = [char_of (226::nat), char_of (132::nat), char_of (170::nat)] then CHR ''K'' # fold_name rest
          else if [c, d] = [char_of (197::nat), char_of (191::nat)] then CHR ''S'' # fold_name (e # rest)
          else upper c # fold_name cs
      | [d] \<Rightarrow> if [c, d] = [char_of (197::nat), char_of (191::nat)] then ''S'' else upper c # fold_name cs
      | [] \<Rightarrow> [upper c])"

lemma fold_name_ascii: "\<forall>c \<in> set s. octet c < 128 \<Longrightarrow> fold_name s = map upper s"
proof (induction s rule: fold_name.induct)
  case (2 c cs)
  have "c \<noteq> char_of (226 :: nat)" "c \<noteq> char_of (197 :: nat)" using 2(5) by (auto simp: octet_def)
  then show ?case using 2 by (cases cs; cases "tl cs") auto
qed simp

definition find_field :: "'r field_spec list \<Rightarrow> string \<Rightarrow> ('r \<Rightarrow> json \<Rightarrow> 'r option) option" where
  "find_field fs k =
     (case map_of fs k of
        Some f \<Rightarrow> Some f
      | None \<Rightarrow> map_option snd (find (\<lambda>f. fold_name (fst f) = fold_name k) fs))"

fun dec_members :: "'r field_spec list \<Rightarrow> 'r \<Rightarrow> (string \<times> json) list \<Rightarrow> 'r option" where
  "dec_members fs r [] = Some r"
| "dec_members fs r ((k, j) # kvs) =
     (case find_field fs (unquote k) of
        None \<Rightarrow> dec_members fs r kvs
      | Some f \<Rightarrow> (case f r j of None \<Rightarrow> None | Some r' \<Rightarrow> dec_members fs r' kvs))"

fun dec_struct :: "'r field_spec list \<Rightarrow> 'r \<Rightarrow> json \<Rightarrow> 'r option" where
  "dec_struct fs r (JObj kvs) = dec_members fs r kvs"
| "dec_struct fs r JNull = Some r"
| "dec_struct fs r _ = None"

text \<open>A field spec from a getter, a setter and a field decoder.\<close>

definition fld ::
    "string \<Rightarrow> ('r \<Rightarrow> 'a) \<Rightarrow> (('a \<Rightarrow> 'a) \<Rightarrow> 'r \<Rightarrow> 'r) \<Rightarrow> ('a \<Rightarrow> json \<Rightarrow> 'a option) \<Rightarrow> 'r field_spec" where
  "fld name getf upd d = (name, \<lambda>r j. map_option (\<lambda>x. upd (\<lambda>_. x) r) (d (getf r) j))"

lemma dec_members_append:
  "dec_members fs r (xs @ ys) =
     (case dec_members fs r xs of None \<Rightarrow> None | Some r' \<Rightarrow> dec_members fs r' ys)"
  by (induction xs arbitrary: r) (auto split: option.splits)

lemma dec_members_unknown:
  "find_field fs (unquote k) = None \<Longrightarrow> dec_members fs r ((k, j) # kvs) = dec_members fs r kvs"
  by simp

section \<open>Instants\<close>

text \<open>
  \<open>time.Time\<close> is written as an RFC 3339 string in UTC with up to nine digits of fraction and
  no trailing zeros. The date comes from the day number by the usual computation on eras of
  400 years that start on 1 March.
\<close>

definition civil_from_days :: "int \<Rightarrow> int \<times> int \<times> int" where
  "civil_from_days days =
     (let z = days + 719468;
          era = z div 146097;
          doe = z mod 146097;
          yoe = (doe - doe div 1460 + doe div 36524 - doe div 146096) div 365;
          doy = doe - (365 * yoe + yoe div 4 - yoe div 100);
          mp = (5 * doy + 2) div 153;
          d = doy - (153 * mp + 2) div 5 + 1;
          m = (if mp < 10 then mp + 3 else mp - 9)
      in (yoe + era * 400 + (if m \<le> 2 then 1 else 0), m, d))"

definition pad :: "nat \<Rightarrow> int \<Rightarrow> string" where
  "pad w i = (let s = show_nat (nat i) in replicate (w - length s) CHR ''0'' @ s)"

definition fraction :: "int \<Rightarrow> string" where
  "fraction ns =
     (if ns = 0 then [] else CHR ''.'' # rev (dropWhile (\<lambda>c. c = CHR ''0'') (rev (pad 9 ns))))"

definition rfc3339 :: "time \<Rightarrow> string" where
  "rfc3339 t =
     (let secs = t div 1000000000; (y, m, d) = civil_from_days (secs div 86400); s = secs mod 86400
      in pad 4 y @ ''-'' @ pad 2 m @ ''-'' @ pad 2 d @ ''T'' @
         pad 2 (s div 3600) @ '':'' @ pad 2 (s div 60 mod 60) @ '':'' @ pad 2 (s mod 60) @
         fraction (t mod 1000000000) @ ''Z'')"

end
