(* ===== verification/Http_Model.thy ===== *)
theory Http_Model
  imports Json_Data
begin

text \<open>
  Requests and responses as the handlers see them (package \<open>net/http\<close> and the helper
  \<open>writeJSON\<close> of \<open>cmd/chepherd-relay/main.go\<close>).

  A request holds its method and path, its query and header values in order, and the bytes of
  its body that arrive. The context value that the authentication middleware attaches is the argument \<open>rq_claims\<close> of
  a type left open here.
\<close>

record 'c request =
  rq_method :: string
  rq_path :: string
  rq_query :: "(string \<times> string) list"
  rq_headers :: "(string \<times> string) list"
  rq_body :: string
  rq_claims :: "'c option"

text \<open>\<open>url.Values.Get\<close> and \<open>http.Header.Get\<close>: the first value, or the empty string.\<close>

definition first_value :: "(string \<times> string) list \<Rightarrow> string \<Rightarrow> string" where
  "first_value kvs k = (case map_of kvs k of None \<Rightarrow> [] | Some v \<Rightarrow> v)"

definition query_get :: "'c request \<Rightarrow> string \<Rightarrow> string" where
  "query_get rq k = first_value (rq_query rq) k"

definition header_get :: "'c request \<Rightarrow> string \<Rightarrow> string" where
  "header_get rq k = first_value (rq_headers rq) k"

definition header_values :: "'c request \<Rightarrow> string \<Rightarrow> string list" where
  "header_values rq k = map snd (filter (\<lambda>kv. fst kv = k) (rq_headers rq))"

text \<open>
  \<open>json.NewDecoder(req.Body).Decode(&v)\<close>: \<open>None\<close> is any decoding error, the handlers' 400.
\<close>

definition decode_body :: "'r field_spec list \<Rightarrow> 'r \<Rightarrow> 'c request \<Rightarrow> 'r option" where
  "decode_body fs z rq =
     (case json_Decode (rq_body rq) of None \<Rightarrow> None | Some j \<Rightarrow> dec_struct fs z j)"

lemma decode_body_literal:
  "rq_body rq = json_print j \<Longrightarrow> literal_json j \<Longrightarrow> decode_body fs z rq = dec_struct fs z j"
  by (simp add: decode_body_def literal_json_read)

datatype body = NoBody | TextBody string | JsonBody json

text \<open>The bytes of a body; the encoder of \<open>writeJSON\<close> ends with a newline.\<close>

definition body_text :: "body \<Rightarrow> string" where
  "body_text b =
     (case b of
        NoBody \<Rightarrow> []
      | TextBody t \<Rightarrow> t
      | JsonBody j \<Rightarrow> json_print j @ [char_of (10 :: nat)])"

record response =
  status :: nat
  rbody :: body

text \<open>\<open>http.Error\<close> writes the text with a newline.\<close>

definition http_error :: "string \<Rightarrow> nat \<Rightarrow> response" where
  "http_error msg code = \<lparr>status = code, rbody = TextBody (msg @ [char_of (10 :: nat)])\<rparr>"

definition write_header :: "nat \<Rightarrow> response" where
  "write_header code = \<lparr>status = code, rbody = NoBody\<rparr>"

definition writeJSON :: "nat \<Rightarrow> json \<Rightarrow> response" where
  "writeJSON code v = \<lparr>status = code, rbody = JsonBody v\<rparr>"

text \<open>A handler that returns without writing leaves the server's implicit empty 200.\<close>

definition nothing_written :: response where
  "nothing_written = \<lparr>status = 200, rbody = NoBody\<rparr>"

abbreviation StatusOK :: nat where "StatusOK \<equiv> 200"
abbreviation StatusNoContent :: nat where "StatusNoContent \<equiv> 204"
abbreviation StatusBadRequest :: nat where "StatusBadRequest \<equiv> 400"
abbreviation StatusUnauthorized :: nat where "StatusUnauthorized \<equiv> 401"
abbreviation StatusNotFound :: nat where "StatusNotFound \<equiv> 404"
abbreviation StatusMethodNotAllowed :: nat where "StatusMethodNotAllowed \<equiv> 405"
abbreviation StatusConflict :: nat where "StatusConflict \<equiv> 409"
abbreviation StatusGone :: nat where "StatusGone \<equiv> 410"
abbreviation StatusInternalServerError :: nat where "StatusInternalServerError \<equiv> 500"
abbreviation StatusNotImplemented :: nat where "StatusNotImplemented \<equiv> 501"
abbreviation StatusServiceUnavailable :: nat where "StatusServiceUnavailable \<equiv> 503"
abbreviation StatusGatewayTimeout :: nat where "StatusGatewayTimeout \<equiv> 504"

lemma response_simps [simp]:
  "status (http_error msg code) = code"
  "status (write_header code) = code"
  "status (writeJSON code v) = code"
  "rbody (writeJSON code v) = JsonBody v"
  "status nothing_written = 200"
  by (simp_all add: http_error_def write_header_def writeJSON_def nothing_written_def)

end
