(* ===== verification/Go_Channel.thy ===== *)
theory Go_Channel
  imports Relay_Prelude
begin

text \<open>
  Buffered Go channels, as the relay uses them for offers, answers and candidates
  (\<open>make(chan T, n)\<close> with \<open>n > 0\<close>): a bounded first-in first-out buffer. A send to a full
  channel and a receive from an empty one block, which the model shows as \<open>None\<close>; whether
  the goroutine then waits, times out or takes a default branch is the business of the
  \<open>select\<close> around it. No channel of the relay is ever closed.

  The locale \<open>bounded_fifo\<close> is what the rendezvous code relies on.
\<close>

record 'a chan =
  chan_cap :: nat
  chan_buf :: "'a list"

definition make_chan :: "nat \<Rightarrow> 'a chan" where
  "make_chan n = \<lparr>chan_cap = n, chan_buf = []\<rparr>"

definition chan_send :: "'a chan \<Rightarrow> 'a \<Rightarrow> 'a chan option" where
  "chan_send c x =
     (if length (chan_buf c) < chan_cap c then Some (c\<lparr>chan_buf := chan_buf c @ [x]\<rparr>) else None)"

definition chan_recv :: "'a chan \<Rightarrow> ('a \<times> 'a chan) option" where
  "chan_recv c =
     (case chan_buf c of [] \<Rightarrow> None | x # xs \<Rightarrow> Some (x, c\<lparr>chan_buf := xs\<rparr>))"

definition chan_ok :: "'a chan \<Rightarrow> bool" where
  "chan_ok c \<longleftrightarrow> length (chan_buf c) \<le> chan_cap c"

locale bounded_fifo =
  fixes send :: "'c \<Rightarrow> 'a \<Rightarrow> 'c option"
    and recv :: "'c \<Rightarrow> ('a \<times> 'c) option"
    and contents :: "'c \<Rightarrow> 'a list"
    and capacity :: "'c \<Rightarrow> nat"
  assumes send_contents: "send c x = Some c' \<Longrightarrow> contents c' = contents c @ [x]"
    and send_room: "send c x = None \<longleftrightarrow> capacity c \<le> length (contents c)"
    and recv_contents: "recv c = Some (x, c') \<Longrightarrow> contents c = x # contents c'"
    and recv_empty: "recv c = None \<longleftrightarrow> contents c = []"
    and send_capacity: "send c x = Some c' \<Longrightarrow> capacity c' = capacity c"
    and recv_capacity: "recv c = Some (x, c') \<Longrightarrow> capacity c' = capacity c"
begin

text \<open>
  The balance of a channel: what was received, then what is still queued, is what was sent,
  in the order it was sent.
\<close>

lemma send_balance:
  "got @ contents c = put \<Longrightarrow> send c x = Some c' \<Longrightarrow> got @ contents c' = put @ [x]"
  by (auto simp: send_contents)

lemma recv_balance:
  "got @ contents c = put \<Longrightarrow> recv c = Some (x, c') \<Longrightarrow> (got @ [x]) @ contents c' = put"
  using recv_contents by auto

lemma send_bounded:
  "length (contents c) \<le> capacity c \<Longrightarrow> send c x = Some c' \<Longrightarrow> length (contents c') \<le> capacity c'"
  using send_contents send_capacity send_room
  by (metis length_append_singleton not_less_eq_eq option.distinct(1))

lemma recv_bounded:
  "length (contents c) \<le> capacity c \<Longrightarrow> recv c = Some (x, c') \<Longrightarrow> length (contents c') \<le> capacity c'"
  using recv_contents recv_capacity by fastforce

lemma send_set: "send c x = Some c' \<Longrightarrow> set (contents c') = insert x (set (contents c))"
  by (simp add: send_contents)

lemma recv_mem: "recv c = Some (x, c') \<Longrightarrow> x \<in> set (contents c)"
  using recv_contents by auto

lemma recv_set: "recv c = Some (x, c') \<Longrightarrow> set (contents c') \<subseteq> set (contents c)"
  using recv_contents by auto

lemma ready: "(\<exists>c'. send c x = Some c') \<or> (\<exists>y c'. recv c = Some (y, c')) \<or> capacity c = 0"
  using send_room recv_empty by (metis list.size(3) le_zero_eq option.exhaust surj_pair)

end

interpretation ch: bounded_fifo chan_send chan_recv chan_buf chan_cap
  by unfold_locales (auto simp: chan_send_def chan_recv_def split: if_splits list.splits)

lemma make_chan_simps [simp]: "chan_buf (make_chan n) = []" "chan_cap (make_chan n) = n"
  by (simp_all add: make_chan_def)

end
