(* ===== verification/Signaling.thy ===== *)
theory Signaling
  imports Http_Model Go_Channel
begin

text \<open>
  The signaling rendezvous of \<open>cmd/chepherd-relay/main.go\<close>: the three maps of channels of the
  type \<open>relay\<close>, and the six handlers \<open>signalingInitiate\<close>, \<open>signalingOffer\<close>, \<open>signalingPoll\<close>,
  \<open>signalingAnswer\<close>, \<open>signalingPostCandidate\<close> and \<open>signalingPollCandidates\<close>.

  A handler runs in its own goroutine. It is cut at the points where other goroutines can
  intervene: each section under \<open>r.mu\<close> is one step, and each \<open>select\<close> is one step whose
  outcome is one of its ready cases. Where a goroutine stands between two steps is a value of
  the datatype \<open>handler\<close>, with the local variables it still needs.
\<close>

section \<open>Data\<close>

record envelope =
  Peer :: string
  SDP :: "json option"
  ICE :: "json option"

definition zero_envelope :: envelope where
  "zero_envelope = \<lparr>Peer = [], SDP = None, ICE = None\<rparr>"

definition envelope_fields :: "envelope field_spec list" where
  "envelope_fields =
     [fld ''peer'' Peer Peer_update dec_string,
      fld ''sdp'' SDP SDP_update dec_raw,
      fld ''ice'' ICE ICE_update dec_raw]"

definition envelope_json :: "envelope \<Rightarrow> json" where
  "envelope_json e = JObj
     ([(''peer'', jstr (Peer e)), (''sdp'', jraw (SDP e))] @
      (case ICE e of None \<Rightarrow> [] | Some j \<Rightarrow> [(''ice'', j)]))"

record offer_body =
  ob_BastionID :: string
  ob_Offer :: "json option"

definition offer_body_fields :: "offer_body field_spec list" where
  "offer_body_fields =
     [fld ''bastion_id'' ob_BastionID ob_BastionID_update dec_string,
      fld ''offer'' ob_Offer ob_Offer_update dec_raw]"

record cand_body =
  cb_BastionID :: string
  cb_Candidate :: "json option"

definition cand_body_fields :: "cand_body field_spec list" where
  "cand_body_fields =
     [fld ''bastion_id'' cb_BastionID cb_BastionID_update dec_string,
      fld ''candidate'' cb_Candidate cb_Candidate_update dec_raw]"

text \<open>
  The channels live in a store, because the maps and the running handlers share them: an entry
  of a map can be deleted while a handler still holds the channel.
\<close>

record signaling =
  pendingOffers :: "string \<rightharpoonup> nat"
  pendingAnswers :: "string \<rightharpoonup> nat"
  candidateQueues :: "string \<rightharpoonup> nat"
  offer_chans :: "nat \<Rightarrow> envelope chan"
  answer_chans :: "nat \<Rightarrow> envelope chan"
  cand_chans :: "nat \<Rightarrow> json chan"
  next_chan :: nat

definition new_signaling :: signaling where
  "new_signaling =
     \<lparr>pendingOffers = Map.empty, pendingAnswers = Map.empty, candidateQueues = Map.empty,
      offer_chans = (\<lambda>_. make_chan 0), answer_chans = (\<lambda>_. make_chan 0),
      cand_chans = (\<lambda>_. make_chan 0), next_chan = 0\<rparr>"

definition genClientID :: "int \<Rightarrow> time \<Rightarrow> string" where
  "genClientID pid now = ''c-'' @ show_int pid @ ''-'' @ show_int now"

text \<open>Which of the two offer endpoints a goroutine serves: they differ in the texts they write.\<close>

datatype flavour = InitiateStyle | OfferStyle

datatype handler =
    Sending flavour string string nat nat envelope \<comment> \<open>bastion, client id, answer and offer channel\<close>
  | Awaiting flavour string nat \<comment> \<open>client id, answer channel\<close>
  | Cleaning string response
  | Polling string nat
  | Answering nat envelope
  | Posting string nat json
  | PollingCands string nat
  | Draining string nat "json list"
  | Done response

section \<open>Sections under the mutex\<close>

text \<open>Look up the offer queue of a bastion, or create it with room for 16 offers.\<close>

definition offer_queue :: "signaling \<Rightarrow> string \<Rightarrow> signaling \<times> nat" where
  "offer_queue s b =
     (case pendingOffers s b of
        Some q \<Rightarrow> (s, q)
      | None \<Rightarrow>
          let q = next_chan s in
          (s\<lparr>offer_chans := (offer_chans s)(q := make_chan 16),
             pendingOffers := (pendingOffers s)(b \<mapsto> q), next_chan := Suc q\<rparr>, q))"

definition candidateQueueLocked :: "signaling \<Rightarrow> string \<Rightarrow> signaling \<times> nat" where
  "candidateQueueLocked s peer =
     (case candidateQueues s peer of
        Some q \<Rightarrow> (s, q)
      | None \<Rightarrow>
          let q = next_chan s in
          (s\<lparr>cand_chans := (cand_chans s)(q := make_chan 32),
             candidateQueues := (candidateQueues s)(peer \<mapsto> q), next_chan := Suc q\<rparr>, q))"

text \<open>Create the client's wait channel and register it.\<close>

definition register_client :: "signaling \<Rightarrow> string \<Rightarrow> signaling \<times> nat" where
  "register_client s cid =
     (let a = next_chan s in
      (s\<lparr>answer_chans := (answer_chans s)(a := make_chan 1),
         pendingAnswers := (pendingAnswers s)(cid \<mapsto> a), next_chan := Suc a\<rparr>, a))"

section \<open>From the request to the first blocking point\<close>

definition signalingInitiate ::
    "int \<Rightarrow> time \<Rightarrow> 'c request \<Rightarrow> signaling \<Rightarrow> signaling \<times> handler" where
  "signalingInitiate pid now rq s =
     (if rq_method rq \<noteq> ''POST'' then (s, Done (http_error ''POST required'' StatusMethodNotAllowed))
      else case decode_body envelope_fields zero_envelope rq of
        None \<Rightarrow> (s, Done (http_error ''bad json'' StatusBadRequest))
      | Some env \<Rightarrow>
          if Peer env = [] then
            (s, Done (http_error ''peer (bastion_id) required'' StatusBadRequest))
          else
            let clientID = genClientID pid now;
                (s1, a) = register_client s clientID;
                (s2, queue) = offer_queue s1 (Peer env)
            in (s2, Sending InitiateStyle (Peer env) clientID a queue (env\<lparr>Peer := clientID\<rparr>)))"

definition signalingOffer ::
    "int \<Rightarrow> time \<Rightarrow> 'c request \<Rightarrow> signaling \<Rightarrow> signaling \<times> handler" where
  "signalingOffer pid now rq s =
     (if rq_method rq \<noteq> ''POST'' then (s, Done (http_error ''POST required'' StatusMethodNotAllowed))
      else case decode_body offer_body_fields \<lparr>ob_BastionID = [], ob_Offer = None\<rparr> rq of
        None \<Rightarrow> (s, Done (http_error ''bad json'' StatusBadRequest))
      | Some bdy \<Rightarrow>
          if ob_BastionID bdy = [] then
            (s, Done (http_error ''bastion_id required'' StatusBadRequest))
          else
            let clientID = genClientID pid now;
                (s1, a) = register_client s clientID;
                (s2, queue) = offer_queue s1 (ob_BastionID bdy)
            in (s2, Sending OfferStyle (ob_BastionID bdy) clientID a queue
                      \<lparr>Peer = clientID, SDP = ob_Offer bdy, ICE = None\<rparr>))"

definition signalingPoll :: "'c request \<Rightarrow> signaling \<Rightarrow> signaling \<times> handler" where
  "signalingPoll rq s =
     (let bastionID = query_get rq ''bastion'' in
      if bastionID = [] then (s, Done (http_error ''?bastion= required'' StatusBadRequest))
      else let (s1, queue) = offer_queue s bastionID in (s1, Polling bastionID queue))"

definition signalingAnswer :: "'c request \<Rightarrow> signaling \<Rightarrow> signaling \<times> handler" where
  "signalingAnswer rq s =
     (if rq_method rq \<noteq> ''POST'' then (s, Done (http_error ''POST required'' StatusMethodNotAllowed))
      else case decode_body envelope_fields zero_envelope rq of
        None \<Rightarrow> (s, Done (http_error ''bad json'' StatusBadRequest))
      | Some env \<Rightarrow>
          if Peer env = [] then
            (s, Done (http_error ''peer (client_id) required'' StatusBadRequest))
          else case pendingAnswers s (Peer env) of
            None \<Rightarrow> (s, Done (http_error ''client_id not waiting (already timed out?)'' StatusGone))
          | Some a \<Rightarrow> (s, Answering a env))"

definition signalingPostCandidate :: "'c request \<Rightarrow> signaling \<Rightarrow> signaling \<times> handler" where
  "signalingPostCandidate rq s =
     (if rq_method rq \<noteq> ''POST'' then (s, Done (http_error ''POST required'' StatusMethodNotAllowed))
      else case decode_body cand_body_fields \<lparr>cb_BastionID = [], cb_Candidate = None\<rparr> rq of
        None \<Rightarrow> (s, Done (http_error ''bad json'' StatusBadRequest))
      | Some bdy \<Rightarrow>
          case (cb_BastionID bdy, cb_Candidate bdy) of
            ([], _) \<Rightarrow> (s, Done (http_error ''bastion_id and candidate required'' StatusBadRequest))
          | (_, None) \<Rightarrow> (s, Done (http_error ''bastion_id and candidate required'' StatusBadRequest))
          | (p, Some c) \<Rightarrow>
              let (s1, q) = candidateQueueLocked s p in (s1, Posting p q c))"

definition signalingPollCandidates :: "'c request \<Rightarrow> signaling \<Rightarrow> signaling \<times> handler" where
  "signalingPollCandidates rq s =
     (let bid = query_get rq ''bastion_id'' in
      if bid = [] then (s, Done (http_error ''bastion_id required'' StatusBadRequest))
      else let (s1, q) = candidateQueueLocked s bid in (s1, PollingCands bid q))"

section \<open>What each handler writes\<close>

definition queue_full_response :: "flavour \<Rightarrow> response" where
  "queue_full_response k =
     (case k of
        InitiateStyle \<Rightarrow> http_error ''bastion offer queue full or unavailable'' StatusServiceUnavailable
      | OfferStyle \<Rightarrow> http_error ''bastion offer queue full'' StatusServiceUnavailable)"

definition answer_response :: "flavour \<Rightarrow> string \<Rightarrow> envelope \<Rightarrow> response" where
  "answer_response k cid answer =
     (case k of
        InitiateStyle \<Rightarrow> writeJSON StatusOK (envelope_json answer)
      | OfferStyle \<Rightarrow>
          writeJSON StatusOK (JObj [(''answer'', jraw (SDP answer)), (''client_id'', jstr cid)]))"

definition no_answer_response :: response where
  "no_answer_response = http_error ''bastion did not answer within 60s'' StatusGatewayTimeout"

text \<open>A nil slice of candidates is written as \<open>null\<close>.\<close>

definition candidates_response :: "json list \<Rightarrow> time \<Rightarrow> response" where
  "candidates_response out now = writeJSON StatusOK (JObj
     [(''candidates'', if out = [] then JNull else JArr out),
      (''cursor'', jstr (''ts-'' @ show_int now))])"

section \<open>Steps of a waiting goroutine\<close>

text \<open>
  The observable events. \<open>Registered\<close> and \<open>SendTimedOut\<close> name the client id, the others the
  queue and the value that moved.
\<close>

datatype event =
    Registered string
  | Offered string envelope
  | SendTimedOut string
  | OfferPolled string envelope
  | AnswerAccepted envelope
  | AnswerTaken string envelope
  | CandQueued string json
  | CandTaken string json
  | Internal

text \<open>
  A case on a timer created by the \<open>select\<close> itself fires only while the channel case is
  blocked: a ready channel wins at once, and a waiting goroutine is handed the value (or the
  slot) in the same operation that makes it ready. The context of the request may have ended
  earlier, so that case can win at any time.
\<close>

text \<open>The client id is signed off under the mutex.\<close>

definition forget_client :: "signaling \<Rightarrow> string \<Rightarrow> signaling" where [simp]:
  "forget_client s clientID = s\<lparr>pendingAnswers := (pendingAnswers s)(clientID := None)\<rparr>"

text \<open>
  An offer: wait for room in the queue of the bastion, then for the answer, then sign off.
  Both offer endpoints run through these steps.
\<close>

inductive offer_step ::
    "signaling \<Rightarrow> handler \<Rightarrow> event \<Rightarrow> signaling \<Rightarrow> handler \<Rightarrow> bool" where
  send_ok: "chan_send (offer_chans s q) env = Some c \<Longrightarrow>
    offer_step s (Sending k b cid a q env) (Offered b env)
      (s\<lparr>offer_chans := (offer_chans s)(q := c)\<rparr>) (Awaiting k cid a)"
| send_timeout: "chan_send (offer_chans s q) env = None \<Longrightarrow>
    offer_step s (Sending k b cid a q env) (SendTimedOut cid) s (Done (queue_full_response k))"
| answer_ok: "chan_recv (answer_chans s a) = Some (ans, c) \<Longrightarrow>
    offer_step s (Awaiting k cid a) (AnswerTaken cid ans)
      (s\<lparr>answer_chans := (answer_chans s)(a := c)\<rparr>) (Cleaning cid (answer_response k cid ans))"
| answer_timeout: "chan_recv (answer_chans s a) = None \<Longrightarrow>
    offer_step s (Awaiting k cid a) Internal s (Cleaning cid no_answer_response)"
| client_gone:
    "offer_step s (Awaiting k cid a) Internal s (Cleaning cid nothing_written)"
| cleanup:
    "offer_step s (Cleaning cid r) Internal
      (forget_client s cid) (Done r)"

text \<open>A poll for offers.\<close>

inductive poll_step ::
    "signaling \<Rightarrow> handler \<Rightarrow> event \<Rightarrow> signaling \<Rightarrow> handler \<Rightarrow> bool" where
  poll_ok: "chan_recv (offer_chans s q) = Some (env, c) \<Longrightarrow>
    poll_step s (Polling b q) (OfferPolled b env)
      (s\<lparr>offer_chans := (offer_chans s)(q := c)\<rparr>) (Done (writeJSON StatusOK (envelope_json env)))"
| poll_timeout: "chan_recv (offer_chans s q) = None \<Longrightarrow>
    poll_step s (Polling b q) Internal s (Done (write_header StatusNoContent))"
| poll_gone:
    "poll_step s (Polling b q) Internal s (Done nothing_written)"

text \<open>An answer: the \<open>select\<close> has a default, so it never waits.\<close>

inductive reply_step ::
    "signaling \<Rightarrow> handler \<Rightarrow> event \<Rightarrow> signaling \<Rightarrow> handler \<Rightarrow> bool" where
  reply_ok: "chan_send (answer_chans s a) env = Some c \<Longrightarrow>
    reply_step s (Answering a env) (AnswerAccepted env)
      (s\<lparr>answer_chans := (answer_chans s)(a := c)\<rparr>)
      (Done (writeJSON StatusOK (JObj [(''status'', jstr ''ok'')])))"
| reply_full: "chan_send (answer_chans s a) env = None \<Longrightarrow>
    reply_step s (Answering a env) Internal s
      (Done (http_error ''client wait channel closed'' StatusGone))"

text \<open>A posted candidate.\<close>

inductive post_step ::
    "signaling \<Rightarrow> handler \<Rightarrow> event \<Rightarrow> signaling \<Rightarrow> handler \<Rightarrow> bool" where
  post_ok: "chan_send (cand_chans s q) x = Some c \<Longrightarrow>
    post_step s (Posting p q x) (CandQueued p x)
      (s\<lparr>cand_chans := (cand_chans s)(q := c)\<rparr>) (Done (write_header StatusNoContent))"
| post_timeout: "chan_send (cand_chans s q) x = None \<Longrightarrow>
    post_step s (Posting p q x) Internal s
      (Done (http_error ''candidate queue full'' StatusServiceUnavailable))"

text \<open>A poll for candidates: the first one is waited for, then the queue is drained.\<close>

inductive cands_step ::
    "signaling \<Rightarrow> handler \<Rightarrow> event \<Rightarrow> signaling \<Rightarrow> handler \<Rightarrow> bool" where
  cands_first: "chan_recv (cand_chans s q) = Some (x, c) \<Longrightarrow>
    cands_step s (PollingCands p q) (CandTaken p x)
      (s\<lparr>cand_chans := (cand_chans s)(q := c)\<rparr>) (Draining p q [x])"
| cands_timeout: "chan_recv (cand_chans s q) = None \<Longrightarrow>
    cands_step s (PollingCands p q) Internal s (Done (candidates_response [] now))"
| cands_gone:
    "cands_step s (PollingCands p q) Internal s (Done nothing_written)"
| drain_more: "chan_recv (cand_chans s q) = Some (x, c) \<Longrightarrow>
    cands_step s (Draining p q out) (CandTaken p x)
      (s\<lparr>cand_chans := (cand_chans s)(q := c)\<rparr>) (Draining p q (out @ [x]))"
| drain_done: "chan_recv (cand_chans s q) = None \<Longrightarrow>
    cands_step s (Draining p q out) Internal s (Done (candidates_response out now))"

text \<open>A step of any handler.\<close>

inductive handler_step ::
    "signaling \<Rightarrow> handler \<Rightarrow> event \<Rightarrow> signaling \<Rightarrow> handler \<Rightarrow> bool" where
  of_offer: "offer_step s h e s' h' \<Longrightarrow> handler_step s h e s' h'"
| of_poll: "poll_step s h e s' h' \<Longrightarrow> handler_step s h e s' h'"
| of_reply: "reply_step s h e s' h' \<Longrightarrow> handler_step s h e s' h'"
| of_post: "post_step s h e s' h' \<Longrightarrow> handler_step s h e s' h'"
| of_cands: "cands_step s h e s' h' \<Longrightarrow> handler_step s h e s' h'"

lemmas handler_step_intros =
  offer_step.intros [THEN handler_step.of_offer] poll_step.intros [THEN handler_step.of_poll] reply_step.intros [THEN handler_step.of_reply]
  post_step.intros [THEN handler_step.of_post] cands_step.intros [THEN handler_step.of_cands]

lemma handler_step_cases [cases pred: handler_step]:
  assumes "handler_step s h e s' h'"
  obtains
    (send_ok) q env c k b cid a where
      "h = Sending k b cid a q env"
      "e = Offered b env"
      "s' = s\<lparr>offer_chans := (offer_chans s)(q := c)\<rparr>"
      "h' = Awaiting k cid a"
      "chan_send (offer_chans s q) env = Some c"
  | (send_timeout) q env k b cid a where
      "h = Sending k b cid a q env"
      "e = SendTimedOut cid"
      "s' = s"
      "h' = Done (queue_full_response k)"
      "chan_send (offer_chans s q) env = None"
  | (answer_ok) a ans c k cid where
      "h = Awaiting k cid a"
      "e = AnswerTaken cid ans"
      "s' = s\<lparr>answer_chans := (answer_chans s)(a := c)\<rparr>"
      "h' = Cleaning cid (answer_response k cid ans)"
      "chan_recv (answer_chans s a) = Some (ans, c)"
  | (answer_timeout) a k cid where
      "h = Awaiting k cid a"
      "e = Internal"
      "s' = s"
      "h' = Cleaning cid no_answer_response"
      "chan_recv (answer_chans s a) = None"
  | (client_gone) k cid a where
      "h = Awaiting k cid a"
      "e = Internal"
      "s' = s"
      "h' = Cleaning cid nothing_written"
  | (cleanup) cid r where
      "h = Cleaning cid r"
      "e = Internal"
      "s' = forget_client s cid"
      "h' = Done r"
  | (poll_ok) q env c b where
      "h = Polling b q"
      "e = OfferPolled b env"
      "s' = s\<lparr>offer_chans := (offer_chans s)(q := c)\<rparr>"
      "h' = Done (writeJSON StatusOK (envelope_json env))"
      "chan_recv (offer_chans s q) = Some (env, c)"
  | (poll_timeout) q b where
      "h = Polling b q"
      "e = Internal"
      "s' = s"
      "h' = Done (write_header StatusNoContent)"
      "chan_recv (offer_chans s q) = None"
  | (poll_gone) b q where
      "h = Polling b q"
      "e = Internal"
      "s' = s"
      "h' = Done nothing_written"
  | (reply_ok) a env c where
      "h = Answering a env"
      "e = AnswerAccepted env"
      "s' = s\<lparr>answer_chans := (answer_chans s)(a := c)\<rparr>"
      "h' = Done (writeJSON StatusOK (JObj [(''status'', jstr ''ok'')]))"
      "chan_send (answer_chans s a) env = Some c"
  | (reply_full) a env where
      "h = Answering a env"
      "e = Internal"
      "s' = s"
      "h' = Done (http_error ''client wait channel closed'' StatusGone)"
      "chan_send (answer_chans s a) env = None"
  | (post_ok) q x c p where
      "h = Posting p q x"
      "e = CandQueued p x"
      "s' = s\<lparr>cand_chans := (cand_chans s)(q := c)\<rparr>"
      "h' = Done (write_header StatusNoContent)"
      "chan_send (cand_chans s q) x = Some c"
  | (post_timeout) q x p where
      "h = Posting p q x"
      "e = Internal"
      "s' = s"
      "h' = Done (http_error ''candidate queue full'' StatusServiceUnavailable)"
      "chan_send (cand_chans s q) x = None"
  | (cands_first) q x c p where
      "h = PollingCands p q"
      "e = CandTaken p x"
      "s' = s\<lparr>cand_chans := (cand_chans s)(q := c)\<rparr>"
      "h' = Draining p q [x]"
      "chan_recv (cand_chans s q) = Some (x, c)"
  | (cands_timeout) q p now where
      "h = PollingCands p q"
      "e = Internal"
      "s' = s"
      "h' = Done (candidates_response [] now)"
      "chan_recv (cand_chans s q) = None"
  | (cands_gone) p q where
      "h = PollingCands p q"
      "e = Internal"
      "s' = s"
      "h' = Done nothing_written"
  | (drain_more) q x c p out where
      "h = Draining p q out"
      "e = CandTaken p x"
      "s' = s\<lparr>cand_chans := (cand_chans s)(q := c)\<rparr>"
      "h' = Draining p q (out @ [x])"
      "chan_recv (cand_chans s q) = Some (x, c)"
  | (drain_done) q p out now where
      "h = Draining p q out"
      "e = Internal"
      "s' = s"
      "h' = Done (candidates_response out now)"
      "chan_recv (cand_chans s q) = None"
  using assms
proof (cases rule: handler_step.cases)
  case of_offer
  then show thesis by (cases rule: offer_step.cases) (rule that; assumption)+
next
  case of_poll
  then show thesis by (cases rule: poll_step.cases) (rule that; assumption)+
next
  case of_reply
  then show thesis by (cases rule: reply_step.cases) (rule that; assumption)+
next
  case of_post
  then show thesis by (cases rule: post_step.cases) (rule that; assumption)+
next
  case of_cands
  then show thesis by (cases rule: cands_step.cases) (rule that; assumption)+
qed

inductive_simps Done_offer [simp]: "offer_step s (Done r) e s' h'"
inductive_simps Done_poll [simp]: "poll_step s (Done r) e s' h'"
inductive_simps Done_reply [simp]: "reply_step s (Done r) e s' h'"
inductive_simps Done_post [simp]: "post_step s (Done r) e s' h'"
inductive_simps Done_cands [simp]: "cands_step s (Done r) e s' h'"
inductive_simps Done_step [simp]: "handler_step s (Done r) e s' h'"

section \<open>The system of all requests\<close>

datatype endpoint = EInitiate | EOffer | EPoll | EAnswer | ECandidate | ECandidates

fun start_handler ::
    "int \<Rightarrow> time \<Rightarrow> endpoint \<Rightarrow> 'c request \<Rightarrow> signaling \<Rightarrow> signaling \<times> handler" where
  "start_handler pid now EInitiate rq s = signalingInitiate pid now rq s"
| "start_handler pid now EOffer rq s = signalingOffer pid now rq s"
| "start_handler pid now EPoll rq s = signalingPoll rq s"
| "start_handler pid now EAnswer rq s = signalingAnswer rq s"
| "start_handler pid now ECandidate rq s = signalingPostCandidate rq s"
| "start_handler pid now ECandidates rq s = signalingPollCandidates rq s"

fun start_event :: "handler \<Rightarrow> event" where
  "start_event (Sending k b cid a q env) = Registered cid"
| "start_event _ = Internal"

record sys =
  sig :: signaling
  live :: "nat \<rightharpoonup> handler"

definition init_sys :: sys where
  "init_sys = \<lparr>sig = new_signaling, live = Map.empty\<rparr>"

text \<open>
  A step of the process: a request number \<open>r\<close> not used before arrives, or one of the running
  handlers moves. A trace lists the events, the latest last, each with its request.
\<close>

inductive sys_step :: "int \<Rightarrow> sys \<Rightarrow> nat \<times> event \<Rightarrow> sys \<Rightarrow> bool" for pid where
  arrive: "live s r = None \<Longrightarrow> start_handler pid now ep (rq :: unit request) (sig s) = (g, h) \<Longrightarrow>
    sys_step pid s (r, start_event h) (s\<lparr>sig := g, live := (live s)(r \<mapsto> h)\<rparr>)"
| move: "live s r = Some h \<Longrightarrow> handler_step (sig s) h e g h' \<Longrightarrow>
    sys_step pid s (r, e) (s\<lparr>sig := g, live := (live s)(r \<mapsto> h')\<rparr>)"

inductive reach :: "int \<Rightarrow> (nat \<times> event) list \<Rightarrow> sys \<Rightarrow> bool" for pid where
  start: "reach pid [] init_sys"
| step: "reach pid tr s \<Longrightarrow> sys_step pid s e s' \<Longrightarrow> reach pid (tr @ [e]) s'"

end
