(* ===== verification/Signaling_Inv.thy ===== *)
theory Signaling_Inv
  imports Signaling
begin

text \<open>
  Invariants of the signaling rendezvous: the shape of the channel maps, what each waiting
  goroutine may rely on, the balance of every queue, the addressing of answers, and the
  accounting of the registered clients. Each is shown for the sections under the mutex, then
  for one step of a handler, then for one step of the process.
\<close>

section \<open>Shape\<close>

definition sig_ok :: "signaling \<Rightarrow> bool" where
  "sig_ok g \<longleftrightarrow>
     (\<forall>b q. pendingOffers g b = Some q \<longrightarrow>
        q < next_chan g \<and> chan_cap (offer_chans g q) = 16 \<and> chan_ok (offer_chans g q)) \<and>
     (\<forall>p q. candidateQueues g p = Some q \<longrightarrow>
        q < next_chan g \<and> chan_cap (cand_chans g q) = 32 \<and> chan_ok (cand_chans g q)) \<and>
     (\<forall>b b' q. pendingOffers g b = Some q \<longrightarrow> pendingOffers g b' = Some q \<longrightarrow> b = b') \<and>
     (\<forall>p p' q. candidateQueues g p = Some q \<longrightarrow> candidateQueues g p' = Some q \<longrightarrow> p = p') \<and>
     (\<forall>cid a. pendingAnswers g cid = Some a \<longrightarrow> a < next_chan g) \<and>
     (\<forall>a. chan_ok (answer_chans g a) \<and> chan_cap (answer_chans g a) \<le> 1)"

text \<open>No step forgets a queue.\<close>

definition grows :: "signaling \<Rightarrow> signaling \<Rightarrow> bool" where
  "grows g g' \<longleftrightarrow>
     pendingOffers g \<subseteq>\<^sub>m pendingOffers g' \<and> candidateQueues g \<subseteq>\<^sub>m candidateQueues g' \<and>
     next_chan g \<le> next_chan g'"

fun handler_ok :: "signaling \<Rightarrow> handler \<Rightarrow> bool" where
  "handler_ok g (Sending k b cid a q env) \<longleftrightarrow>
     pendingOffers g b = Some q \<and> a < next_chan g \<and> Peer env = cid"
| "handler_ok g (Awaiting k cid a) \<longleftrightarrow> a < next_chan g"
| "handler_ok g (Cleaning cid r) \<longleftrightarrow> True"
| "handler_ok g (Polling b q) \<longleftrightarrow> pendingOffers g b = Some q"
| "handler_ok g (Answering a env) \<longleftrightarrow> a < next_chan g"
| "handler_ok g (Posting p q x) \<longleftrightarrow> candidateQueues g p = Some q"
| "handler_ok g (PollingCands p q) \<longleftrightarrow> candidateQueues g p = Some q"
| "handler_ok g (Draining p q out) \<longleftrightarrow> candidateQueues g p = Some q"
| "handler_ok g (Done r) \<longleftrightarrow> True"

definition queued_offers :: "signaling \<Rightarrow> string \<Rightarrow> envelope list" where
  "queued_offers g b =
     (case pendingOffers g b of None \<Rightarrow> [] | Some q \<Rightarrow> chan_buf (offer_chans g q))"

definition queued_cands :: "signaling \<Rightarrow> string \<Rightarrow> json list" where
  "queued_cands g p =
     (case candidateQueues g p of None \<Rightarrow> [] | Some q \<Rightarrow> chan_buf (cand_chans g q))"

lemma queued_offers_frame [simp]:
  "queued_offers (g\<lparr>pendingAnswers := a\<rparr>) = queued_offers g"
  "queued_offers (g\<lparr>candidateQueues := cq\<rparr>) = queued_offers g"
  "queued_offers (g\<lparr>answer_chans := ac\<rparr>) = queued_offers g"
  "queued_offers (g\<lparr>cand_chans := cc\<rparr>) = queued_offers g"
  "queued_offers (g\<lparr>next_chan := n\<rparr>) = queued_offers g"
  by (auto simp: queued_offers_def fun_eq_iff split: option.splits)

lemma queued_cands_frame [simp]:
  "queued_cands (g\<lparr>pendingAnswers := a\<rparr>) = queued_cands g"
  "queued_cands (g\<lparr>pendingOffers := po\<rparr>) = queued_cands g"
  "queued_cands (g\<lparr>answer_chans := ac\<rparr>) = queued_cands g"
  "queued_cands (g\<lparr>offer_chans := oc\<rparr>) = queued_cands g"
  "queued_cands (g\<lparr>next_chan := n\<rparr>) = queued_cands g"
  by (auto simp: queued_cands_def fun_eq_iff split: option.splits)

text \<open>Two states with the same queues, where the answers may differ.\<close>

definition same_queues :: "signaling \<Rightarrow> signaling \<Rightarrow> bool" where
  "same_queues g g' \<longleftrightarrow> queued_offers g' = queued_offers g \<and> queued_cands g' = queued_cands g"

lemma sig_okD:
  assumes "sig_ok g"
  shows "pendingOffers g b = Some q \<Longrightarrow>
           q < next_chan g \<and> chan_cap (offer_chans g q) = 16 \<and> chan_ok (offer_chans g q)"
    and "candidateQueues g p = Some q \<Longrightarrow>
           q < next_chan g \<and> chan_cap (cand_chans g q) = 32 \<and> chan_ok (cand_chans g q)"
    and "pendingOffers g b = Some q \<Longrightarrow> pendingOffers g b' = Some q \<Longrightarrow> b = b'"
    and "candidateQueues g p = Some q \<Longrightarrow> candidateQueues g p' = Some q \<Longrightarrow> p = p'"
    and "pendingAnswers g cid = Some a \<Longrightarrow> a < next_chan g"
    and "chan_ok (answer_chans g a)"
    and "chan_cap (answer_chans g a) \<le> 1"
  using assms unfolding sig_ok_def by blast+

lemma sig_okI:
  assumes "\<And>b q. pendingOffers g b = Some q \<Longrightarrow>
             q < next_chan g \<and> chan_cap (offer_chans g q) = 16 \<and> chan_ok (offer_chans g q)"
    and "\<And>p q. candidateQueues g p = Some q \<Longrightarrow>
             q < next_chan g \<and> chan_cap (cand_chans g q) = 32 \<and> chan_ok (cand_chans g q)"
    and "\<And>b b' q. pendingOffers g b = Some q \<Longrightarrow> pendingOffers g b' = Some q \<Longrightarrow> b = b'"
    and "\<And>p p' q. candidateQueues g p = Some q \<Longrightarrow> candidateQueues g p' = Some q \<Longrightarrow> p = p'"
    and "\<And>cid a. pendingAnswers g cid = Some a \<Longrightarrow> a < next_chan g"
    and "\<And>a. chan_ok (answer_chans g a) \<and> chan_cap (answer_chans g a) \<le> 1"
  shows "sig_ok g"
  using assms unfolding sig_ok_def by blast

lemma chan_ok_make [simp]: "chan_ok (make_chan n)"
  by (simp add: chan_ok_def)

lemma grows_refl [simp]: "grows g g"
  by (simp add: grows_def)

lemma grows_trans: "grows f g \<Longrightarrow> grows g h \<Longrightarrow> grows f h"
  by (auto simp: grows_def intro: map_le_trans)

lemma same_queues_refl [simp]: "same_queues g g"
  by (simp add: same_queues_def)

lemma same_queues_trans: "same_queues f g \<Longrightarrow> same_queues g h \<Longrightarrow> same_queues f h"
  by (simp add: same_queues_def)

lemma map_le_SomeD: "m \<subseteq>\<^sub>m m' \<Longrightarrow> m x = Some y \<Longrightarrow> m' x = Some y"
  by (metis domI map_le_def)

lemma handler_ok_grows: "grows g g' \<Longrightarrow> handler_ok g h \<Longrightarrow> handler_ok g' h"
  by (cases h) (auto simp: grows_def dest: map_le_SomeD)

lemma sig_ok_new: "sig_ok new_signaling"
  by (simp add: sig_ok_def new_signaling_def chan_ok_def)

section \<open>Sections under the mutex\<close>

lemma offer_queue_ok:
  assumes "sig_ok g" and "offer_queue g b = (g', q)"
  shows "sig_ok g'" "grows g g'" "same_queues g g'" "pendingOffers g' b = Some q"
    "pendingAnswers g' = pendingAnswers g" "answer_chans g' = answer_chans g"
proof -
  have "sig_ok g' \<and> grows g g' \<and> same_queues g g' \<and> pendingOffers g' b = Some q \<and>
        pendingAnswers g' = pendingAnswers g \<and> answer_chans g' = answer_chans g"
  proof (cases "pendingOffers g b")
    case (Some x)
    with assms show ?thesis by (simp add: offer_queue_def)
  next
    case None
    define n where "n = next_chan g"
    have g': "g' = g\<lparr>offer_chans := (offer_chans g)(n := make_chan 16),
        pendingOffers := (pendingOffers g)(b \<mapsto> n), next_chan := Suc n\<rparr>" and q: "q = n"
      using assms(2) None by (auto simp: offer_queue_def Let_def n_def)
    have fresh: "pendingOffers g b' \<noteq> Some n" for b'
      using sig_okD(1) [OF assms(1), of b' n] by (auto simp: n_def)
    have "sig_ok g'"
    proof (rule sig_okI)
      fix c d x
      assume "pendingOffers g' c = Some x" and "pendingOffers g' d = Some x"
      then show "c = d"
        using sig_okD(3) [OF assms(1)] fresh by (auto simp: g' split: if_splits)
    next
      fix c d x
      assume "candidateQueues g' c = Some x" and "candidateQueues g' d = Some x"
      then show "c = d" using sig_okD(4) [OF assms(1)] by (simp add: g')
    qed (use sig_okD(1,2,5-7) [OF assms(1)] in \<open>auto simp: g' n_def less_Suc_eq split: if_splits\<close>)
    moreover have "grows g g'"
      using None by (auto simp: g' grows_def n_def map_le_def)
    moreover have "same_queues g g'"
    proof -
      have "queued_offers g' c = queued_offers g c" for c
        using None fresh [of c] by (auto simp: g' queued_offers_def split: option.splits)
      then show ?thesis by (simp add: same_queues_def fun_eq_iff) (simp add: g')
    qed
    ultimately show ?thesis by (simp add: g' q)
  qed
  then show "sig_ok g'" "grows g g'" "same_queues g g'" "pendingOffers g' b = Some q"
    "pendingAnswers g' = pendingAnswers g" "answer_chans g' = answer_chans g" by auto
qed

lemma candidateQueueLocked_ok:
  assumes "sig_ok g" and "candidateQueueLocked g p = (g', q)"
  shows "sig_ok g'" "grows g g'" "same_queues g g'" "candidateQueues g' p = Some q"
    "pendingAnswers g' = pendingAnswers g" "answer_chans g' = answer_chans g"
proof -
  have "sig_ok g' \<and> grows g g' \<and> same_queues g g' \<and> candidateQueues g' p = Some q \<and>
        pendingAnswers g' = pendingAnswers g \<and> answer_chans g' = answer_chans g"
  proof (cases "candidateQueues g p")
    case (Some x)
    with assms show ?thesis by (simp add: candidateQueueLocked_def)
  next
    case None
    define n where "n = next_chan g"
    have g': "g' = g\<lparr>cand_chans := (cand_chans g)(n := make_chan 32),
        candidateQueues := (candidateQueues g)(p \<mapsto> n), next_chan := Suc n\<rparr>" and q: "q = n"
      using assms(2) None by (auto simp: candidateQueueLocked_def Let_def n_def)
    have fresh: "candidateQueues g p' \<noteq> Some n" for p'
      using sig_okD(2) [OF assms(1), of p' n] by (auto simp: n_def)
    have "sig_ok g'"
    proof (rule sig_okI)
      fix c d x
      assume "candidateQueues g' c = Some x" and "candidateQueues g' d = Some x"
      then show "c = d"
        using sig_okD(4) [OF assms(1)] fresh by (auto simp: g' split: if_splits)
    next
      fix c d x
      assume "pendingOffers g' c = Some x" and "pendingOffers g' d = Some x"
      then show "c = d" using sig_okD(3) [OF assms(1)] by (simp add: g')
    qed (use sig_okD(1,2,5-7) [OF assms(1)] in \<open>auto simp: g' n_def less_Suc_eq split: if_splits\<close>)
    moreover have "grows g g'"
      using None by (auto simp: g' grows_def n_def map_le_def)
    moreover have "same_queues g g'"
    proof -
      have "queued_cands g' c = queued_cands g c" for c
        using None fresh [of c] by (auto simp: g' queued_cands_def split: option.splits)
      then show ?thesis by (simp add: same_queues_def fun_eq_iff) (simp add: g')
    qed
    ultimately show ?thesis by (simp add: g' q)
  qed
  then show "sig_ok g'" "grows g g'" "same_queues g g'" "candidateQueues g' p = Some q"
    "pendingAnswers g' = pendingAnswers g" "answer_chans g' = answer_chans g" by auto
qed

lemma register_client_ok:
  assumes "sig_ok g" and "register_client g cid = (g', a)"
  shows "sig_ok g'" "grows g g'" "same_queues g g'" "a = next_chan g" "a < next_chan g'"
    "pendingAnswers g' = (pendingAnswers g)(cid \<mapsto> a)"
    "answer_chans g' = (answer_chans g)(a := make_chan 1)"
proof -
  have g': "g' = g\<lparr>answer_chans := (answer_chans g)(next_chan g := make_chan 1),
      pendingAnswers := (pendingAnswers g)(cid \<mapsto> next_chan g), next_chan := Suc (next_chan g)\<rparr>"
    and a: "a = next_chan g"
    using assms(2) by (auto simp: register_client_def Let_def)
  show "sig_ok g'"
  proof (rule sig_okI)
    fix c d x
    assume "pendingOffers g' c = Some x" and "pendingOffers g' d = Some x"
    then show "c = d" using sig_okD(3) [OF assms(1)] by (simp add: g')
  next
    fix c d x
    assume "candidateQueues g' c = Some x" and "candidateQueues g' d = Some x"
    then show "c = d" using sig_okD(4) [OF assms(1)] by (simp add: g')
  qed (use sig_okD(1,2,5-7) [OF assms(1)] in \<open>auto simp: g' less_Suc_eq split: if_splits\<close>)
  show "grows g g'" "same_queues g g'" "a = next_chan g" "a < next_chan g'"
    "pendingAnswers g' = (pendingAnswers g)(cid \<mapsto> a)"
    "answer_chans g' = (answer_chans g)(a := make_chan 1)"
    by (auto simp: g' a grows_def same_queues_def)
qed

text \<open>Writing a channel back.\<close>

lemma set_offer_chan_ok:
  assumes "sig_ok g" and "pendingOffers g b = Some q" and "chan_cap c = 16" and "chan_ok c"
    and "g' = g\<lparr>offer_chans := (offer_chans g)(q := c)\<rparr>"
  shows "sig_ok g'" "grows g g'" "queued_offers g' = (queued_offers g)(b := chan_buf c)"
    "queued_cands g' = queued_cands g"
proof -
  show "sig_ok g'"
  proof (rule sig_okI)
    fix c d x
    assume "pendingOffers g' c = Some x" and "pendingOffers g' d = Some x"
    then show "c = d" using sig_okD(3) [OF assms(1)] by (simp add: assms(5))
  next
    fix c d x
    assume "candidateQueues g' c = Some x" and "candidateQueues g' d = Some x"
    then show "c = d" using sig_okD(4) [OF assms(1)] by (simp add: assms(5))
  qed (use sig_okD(1,2,5-7) [OF assms(1)] assms(3,4) in \<open>auto simp: assms(5) split: if_splits\<close>)
  show "grows g g'" by (simp add: assms(5) grows_def)
  have other: "b' \<noteq> b \<Longrightarrow> pendingOffers g b' \<noteq> Some q" for b'
    using sig_okD(3) [OF assms(1,2)] by blast
  have "queued_offers g' b' = ((queued_offers g)(b := chan_buf c)) b'" for b'
    using assms(2) other [of b'] by (auto simp: assms(5) queued_offers_def split: option.splits)
  then show "queued_offers g' = (queued_offers g)(b := chan_buf c)" by blast
  show "queued_cands g' = queued_cands g" by (auto simp: assms(5) queued_cands_def)
qed

lemma set_cand_chan_ok:
  assumes "sig_ok g" and "candidateQueues g p = Some q" and "chan_cap c = 32" and "chan_ok c"
    and "g' = g\<lparr>cand_chans := (cand_chans g)(q := c)\<rparr>"
  shows "sig_ok g'" "grows g g'" "queued_cands g' = (queued_cands g)(p := chan_buf c)"
    "queued_offers g' = queued_offers g"
proof -
  show "sig_ok g'"
  proof (rule sig_okI)
    fix c d x
    assume "pendingOffers g' c = Some x" and "pendingOffers g' d = Some x"
    then show "c = d" using sig_okD(3) [OF assms(1)] by (simp add: assms(5))
  next
    fix c d x
    assume "candidateQueues g' c = Some x" and "candidateQueues g' d = Some x"
    then show "c = d" using sig_okD(4) [OF assms(1)] by (simp add: assms(5))
  qed (use sig_okD(1,2,5-7) [OF assms(1)] assms(3,4) in \<open>auto simp: assms(5) split: if_splits\<close>)
  show "grows g g'" by (simp add: assms(5) grows_def)
  have other: "p' \<noteq> p \<Longrightarrow> candidateQueues g p' \<noteq> Some q" for p'
    using sig_okD(4) [OF assms(1,2)] by blast
  have "queued_cands g' p' = ((queued_cands g)(p := chan_buf c)) p'" for p'
    using assms(2) other [of p'] by (auto simp: assms(5) queued_cands_def split: option.splits)
  then show "queued_cands g' = (queued_cands g)(p := chan_buf c)" by blast
  show "queued_offers g' = queued_offers g" by (auto simp: assms(5) queued_offers_def)
qed

lemma set_answer_chan_ok:
  assumes "sig_ok g" and "chan_cap c \<le> 1" and "chan_ok c"
    and "g' = g\<lparr>answer_chans := (answer_chans g)(a := c)\<rparr>"
  shows "sig_ok g'" "grows g g'" "same_queues g g'"
proof -
  show "sig_ok g'"
  proof (rule sig_okI)
    fix c d x
    assume "pendingOffers g' c = Some x" and "pendingOffers g' d = Some x"
    then show "c = d" using sig_okD(3) [OF assms(1)] by (simp add: assms(4))
  next
    fix c d x
    assume "candidateQueues g' c = Some x" and "candidateQueues g' d = Some x"
    then show "c = d" using sig_okD(4) [OF assms(1)] by (simp add: assms(4))
  qed (use sig_okD(1,2,5-7) [OF assms(1)] assms(2,3) in \<open>auto simp: assms(4) split: if_splits\<close>)
  show "grows g g'" "same_queues g g'"
    by (auto simp: assms(4) grows_def same_queues_def)
qed

lemma drop_client_ok:
  assumes "sig_ok g" and "g' = g\<lparr>pendingAnswers := (pendingAnswers g)(cid := None)\<rparr>"
  shows "sig_ok g'" "grows g g'" "same_queues g g'"
proof -
  show "sig_ok g'"
  proof (rule sig_okI)
    fix c d x
    assume "pendingOffers g' c = Some x" and "pendingOffers g' d = Some x"
    then show "c = d" using sig_okD(3) [OF assms(1)] by (simp add: assms(2))
  next
    fix c d x
    assume "candidateQueues g' c = Some x" and "candidateQueues g' d = Some x"
    then show "c = d" using sig_okD(4) [OF assms(1)] by (simp add: assms(2))
  qed (use sig_okD(1,2,5-7) [OF assms(1)] in \<open>auto simp: assms(2) split: if_splits\<close>)
  show "grows g g'" "same_queues g g'"
    by (auto simp: assms(2) grows_def same_queues_def)
qed

section \<open>Arrival of a request\<close>

text \<open>
  Every entry point either answers at once and leaves the state alone, or reaches its first
  blocking point; only the offer endpoints register a client, under a new answer channel.
\<close>

fun registers :: "handler \<Rightarrow> (string \<times> nat) option" where
  "registers (Sending k b cid a q env) = Some (cid, a)"
| "registers _ = None"

definition arrival_ok :: "signaling \<Rightarrow> signaling \<Rightarrow> handler \<Rightarrow> bool" where
  "arrival_ok g g' h \<longleftrightarrow> sig_ok g' \<and> grows g g' \<and> same_queues g g' \<and> handler_ok g' h \<and>
     (case registers h of
        None \<Rightarrow> pendingAnswers g' = pendingAnswers g \<and> answer_chans g' = answer_chans g
      | Some (cid, a) \<Rightarrow>
          a = next_chan g \<and> pendingAnswers g' = (pendingAnswers g)(cid \<mapsto> a) \<and>
          answer_chans g' = (answer_chans g)(a := make_chan 1)) \<and>
     (case h of
        Answering a env \<Rightarrow> pendingAnswers g (Peer env) = Some a
      | Awaiting k cid a \<Rightarrow> False
      | Cleaning cid r \<Rightarrow> False
      | Draining p q out \<Rightarrow> False
      | _ \<Rightarrow> True)"

lemma arrival_ok_Done [simp]: "sig_ok g \<Longrightarrow> arrival_ok g g (Done r)"
  by (simp add: arrival_ok_def)

lemma offer_arrival_ok:
  assumes "sig_ok g" and "register_client g cid = (g1, a)" and "offer_queue g1 b = (g2, q)"
    and "Peer env = cid"
  shows "arrival_ok g g2 (Sending k b cid a q env)"
proof -
  note r = register_client_ok [OF assms(1,2)]
  note o = offer_queue_ok [OF r(1) assms(3)]
  have "a < next_chan g2" using r(5) o(2) by (simp add: grows_def)
  with r o show ?thesis
    by (simp add: arrival_ok_def assms(4)) (metis grows_trans same_queues_trans)
qed

lemma signalingInitiate_arrival:
  "sig_ok g \<Longrightarrow> signalingInitiate pid now rq g = (g', h) \<Longrightarrow> arrival_ok g g' h"
  by (auto simp: signalingInitiate_def Let_def case_prod_beta intro!: offer_arrival_ok prod_eqI
      split: if_splits option.splits)

lemma signalingOffer_arrival:
  "sig_ok g \<Longrightarrow> signalingOffer pid now rq g = (g', h) \<Longrightarrow> arrival_ok g g' h"
  by (auto simp: signalingOffer_def Let_def case_prod_beta intro!: offer_arrival_ok prod_eqI
      split: if_splits option.splits)

lemma signalingPoll_arrival:
  assumes "sig_ok g" and "signalingPoll rq g = (g', h)"
  shows "arrival_ok g g' h"
proof (cases "query_get rq ''bastion'' = []")
  case True
  with assms show ?thesis by (auto simp: signalingPoll_def Let_def)
next
  case False
  with assms obtain q where "offer_queue g (query_get rq ''bastion'') = (g', q)"
      and "h = Polling (query_get rq ''bastion'') q"
    by (auto simp: signalingPoll_def Let_def split: prod.splits)
  with offer_queue_ok [OF assms(1) this(1)] show ?thesis by (simp add: arrival_ok_def)
qed

lemma signalingPollCandidates_arrival:
  assumes "sig_ok g" and "signalingPollCandidates rq g = (g', h)"
  shows "arrival_ok g g' h"
proof (cases "query_get rq ''bastion_id'' = []")
  case True
  with assms show ?thesis by (auto simp: signalingPollCandidates_def Let_def)
next
  case False
  with assms obtain q where "candidateQueueLocked g (query_get rq ''bastion_id'') = (g', q)"
      and "h = PollingCands (query_get rq ''bastion_id'') q"
    by (auto simp: signalingPollCandidates_def Let_def split: prod.splits)
  with candidateQueueLocked_ok [OF assms(1) this(1)] show ?thesis by (simp add: arrival_ok_def)
qed

lemma signalingPostCandidate_cases:
  assumes "signalingPostCandidate rq g = (g', h)"
  obtains r where "g' = g" "h = Done r"
  | p q x where "candidateQueueLocked g p = (g', q)" "h = Posting p q x"
  using assms
  by (auto simp: signalingPostCandidate_def Let_def
      split: if_splits option.splits prod.splits list.splits)

lemma signalingPostCandidate_arrival:
  assumes "sig_ok g" and "signalingPostCandidate rq g = (g', h)"
  shows "arrival_ok g g' h"
  using assms(2)
proof (cases rule: signalingPostCandidate_cases)
  case 1
  with assms(1) show ?thesis by simp
next
  case (2 p q x)
  with candidateQueueLocked_ok [OF assms(1) 2(1)] show ?thesis by (simp add: arrival_ok_def)
qed

lemma signalingAnswer_arrival:
  assumes "sig_ok g" and "signalingAnswer rq g = (g', h)"
  shows "arrival_ok g g' h"
  using assms sig_okD(5) [OF assms(1)]
  by (auto simp: signalingAnswer_def arrival_ok_def split: if_splits option.splits)

lemma start_handler_arrival:
  assumes "sig_ok g" and "start_handler pid now ep rq g = (g', h)"
  shows "arrival_ok g g' h"
  using assms
  by (cases ep) (auto intro: signalingInitiate_arrival signalingOffer_arrival signalingPoll_arrival
      signalingAnswer_arrival signalingPostCandidate_arrival signalingPollCandidates_arrival)

end
