(* ===== verification/Signaling_Runs.thy ===== *)
theory Signaling_Runs
  imports Signaling_Inv
begin

text \<open>
  The signaling rendezvous of \<open>cmd/chepherd-relay/main.go\<close> over whole executions: every
  interleaving of any number of requests. The invariants of \<open>Signaling_Inv\<close> are lifted to the
  reachable states, and the properties of the traces follow: queues are first-in first-out and
  lose nothing, answers go to the client they name, what a handler takes it writes to its
  response, the table of waiting clients is exactly accounted for, and every request ends.
\<close>

section \<open>One step of a handler\<close>

fun put_offer :: "event \<Rightarrow> string \<Rightarrow> envelope list" where
  "put_offer (Offered b env) c = (if b = c then [env] else [])"
| "put_offer _ c = []"

fun got_offer :: "event \<Rightarrow> string \<Rightarrow> envelope list" where
  "got_offer (OfferPolled b env) c = (if b = c then [env] else [])"
| "got_offer _ c = []"

fun put_cand :: "event \<Rightarrow> string \<Rightarrow> json list" where
  "put_cand (CandQueued p x) c = (if p = c then [x] else [])"
| "put_cand _ c = []"

fun got_cand :: "event \<Rightarrow> string \<Rightarrow> json list" where
  "got_cand (CandTaken p x) c = (if p = c then [x] else [])"
| "got_cand _ c = []"

lemma chan_send_ok:
  assumes "chan_ok c" and "chan_send c x = Some c'"
  shows "chan_ok c'" "chan_cap c' = chan_cap c" "chan_buf c' = chan_buf c @ [x]"
  using ch.send_bounded [OF _ assms(2)] ch.send_capacity [OF assms(2)] ch.send_contents [OF assms(2)]
    assms(1) by (auto simp: chan_ok_def)

lemma chan_recv_ok:
  assumes "chan_ok c" and "chan_recv c = Some (x, c')"
  shows "chan_ok c'" "chan_cap c' = chan_cap c" "chan_buf c = x # chan_buf c'"
  using ch.recv_bounded [OF _ assms(2)] ch.recv_capacity [OF assms(2)] ch.recv_contents [OF assms(2)]
    assms(1) by (auto simp: chan_ok_def)

text \<open>
  Taken out, then still queued, is queued before, then put in: the local form of the balance.
\<close>

definition step_ok :: "signaling \<Rightarrow> event \<Rightarrow> signaling \<Rightarrow> handler \<Rightarrow> bool" where
  "step_ok g e g' h' \<longleftrightarrow> sig_ok g' \<and> grows g g' \<and> handler_ok g' h' \<and>
     (\<forall>b. got_offer e b @ queued_offers g' b = queued_offers g b @ put_offer e b) \<and>
     (\<forall>p. got_cand e p @ queued_cands g' p = queued_cands g p @ put_cand e p)"

lemma step_ok_same: "sig_ok g \<Longrightarrow> handler_ok g h' \<Longrightarrow> step_ok g Internal g h'"
  by (simp add: step_ok_def)

lemma queued_offers_Some: "pendingOffers g b = Some q \<Longrightarrow> queued_offers g b = chan_buf (offer_chans g q)"
  by (simp add: queued_offers_def)

lemma queued_cands_Some: "candidateQueues g p = Some q \<Longrightarrow> queued_cands g p = chan_buf (cand_chans g q)"
  by (simp add: queued_cands_def)

lemma offer_send_step:
  assumes "sig_ok g" and "pendingOffers g b = Some q" and "chan_send (offer_chans g q) env = Some c"
    and "handler_ok g h'"
  shows "step_ok g (Offered b env) (g\<lparr>offer_chans := (offer_chans g)(q := c)\<rparr>) h'"
proof -
  note q = sig_okD(1) [OF assms(1,2)]
  note c = chan_send_ok [OF _ assms(3)]
  note set = set_offer_chan_ok [OF assms(1,2) _ _ refl, of c]
  show ?thesis
    using q c set assms(2,4) handler_ok_grows by (auto simp: step_ok_def queued_offers_Some)
qed

lemma offer_recv_step:
  assumes "sig_ok g" and "pendingOffers g b = Some q" and "chan_recv (offer_chans g q) = Some (env, c)"
    and "handler_ok g h'"
  shows "step_ok g (OfferPolled b env) (g\<lparr>offer_chans := (offer_chans g)(q := c)\<rparr>) h'"
proof -
  note q = sig_okD(1) [OF assms(1,2)]
  note c = chan_recv_ok [OF _ assms(3)]
  note set = set_offer_chan_ok [OF assms(1,2) _ _ refl, of c]
  show ?thesis
    using q c set assms(2,4) handler_ok_grows by (auto simp: step_ok_def queued_offers_Some)
qed

lemma cand_send_step:
  assumes "sig_ok g" and "candidateQueues g p = Some q" and "chan_send (cand_chans g q) x = Some c"
    and "handler_ok g h'"
  shows "step_ok g (CandQueued p x) (g\<lparr>cand_chans := (cand_chans g)(q := c)\<rparr>) h'"
proof -
  note q = sig_okD(2) [OF assms(1,2)]
  note c = chan_send_ok [OF _ assms(3)]
  note set = set_cand_chan_ok [OF assms(1,2) _ _ refl, of c]
  show ?thesis
    using q c set assms(2,4) handler_ok_grows by (auto simp: step_ok_def queued_cands_Some)
qed

lemma cand_recv_step:
  assumes "sig_ok g" and "candidateQueues g p = Some q" and "chan_recv (cand_chans g q) = Some (x, c)"
    and "handler_ok g h'"
  shows "step_ok g (CandTaken p x) (g\<lparr>cand_chans := (cand_chans g)(q := c)\<rparr>) h'"
proof -
  note q = sig_okD(2) [OF assms(1,2)]
  note c = chan_recv_ok [OF _ assms(3)]
  note set = set_cand_chan_ok [OF assms(1,2) _ _ refl, of c]
  show ?thesis
    using q c set assms(2,4) handler_ok_grows by (auto simp: step_ok_def queued_cands_Some)
qed

lemma answer_chan_step:
  assumes "sig_ok g" and "chan_cap c \<le> 1" and "chan_ok c" and "handler_ok g h'"
    and "\<And>b. got_offer e b = []" "\<And>b. put_offer e b = []" "\<And>p. got_cand e p = []" "\<And>p. put_cand e p = []"
  shows "step_ok g e (g\<lparr>answer_chans := (answer_chans g)(a := c)\<rparr>) h'"
  using set_answer_chan_ok [OF assms(1-3) refl, of a] assms(4-) handler_ok_grows
  by (auto simp: step_ok_def same_queues_def)

lemma handler_step_ok:
  assumes "handler_step g h e g' h'" and "sig_ok g" and "handler_ok g h"
  shows "step_ok g e g' h'"
  using assms
proof (cases rule: handler_step_cases)
  case (send_ok q env c k b cid a)
  with assms show ?thesis by (auto intro: offer_send_step)
next
  case (send_timeout q env k b cid a)
  with assms show ?thesis by (simp add: step_ok_def)
next
  case (answer_ok a ans c k cid)
  with chan_recv_ok [OF sig_okD(6) [OF assms(2)] answer_ok(5)] sig_okD(7) [OF assms(2), of a] assms
  show ?thesis by (auto intro!: answer_chan_step)
next
  case (cleanup cid r)
  with drop_client_ok [OF assms(2) refl, of cid] show ?thesis
    by (simp add: step_ok_def same_queues_def)
next
  case (poll_ok q env c b)
  with assms show ?thesis by (auto intro: offer_recv_step)
next
  case (reply_ok a env c)
  with chan_send_ok [OF sig_okD(6) [OF assms(2)] reply_ok(5)] sig_okD(7) [OF assms(2), of a] assms
  show ?thesis by (auto intro!: answer_chan_step)
next
  case (post_ok q x c p)
  with assms show ?thesis by (auto intro: cand_send_step)
next
  case (cands_first q x c p)
  with assms show ?thesis by (auto intro: cand_recv_step)
next
  case (drain_more q x c p out)
  with assms show ?thesis by (auto intro: cand_recv_step)
qed (use assms in \<open>auto intro: step_ok_same\<close>)

section \<open>One step of the process\<close>

definition sys_ok :: "sys \<Rightarrow> bool" where
  "sys_ok s \<longleftrightarrow> sig_ok (sig s) \<and> (\<forall>r h. live s r = Some h \<longrightarrow> handler_ok (sig s) h)"

definition balanced :: "(nat \<times> event) list \<Rightarrow> sys \<Rightarrow> bool" where
  "balanced tr s \<longleftrightarrow>
     (\<forall>b. concat (map (\<lambda>x. put_offer (snd x) b) tr) =
          concat (map (\<lambda>x. got_offer (snd x) b) tr) @ queued_offers (sig s) b) \<and>
     (\<forall>p. concat (map (\<lambda>x. put_cand (snd x) p) tr) =
          concat (map (\<lambda>x. got_cand (snd x) p) tr) @ queued_cands (sig s) p)"

lemma sys_ok_init: "sys_ok init_sys"
  by (simp add: sys_ok_def init_sys_def sig_ok_new)

lemma start_event_silent [simp]:
  "put_offer (start_event h) b = []" "got_offer (start_event h) b = []"
  "put_cand (start_event h) b = []" "got_cand (start_event h) b = []"
  by (cases h; simp)+

lemma sys_step_ok:
  assumes "sys_step pid s (r, e) s'" and "sys_ok s"
  shows "sys_ok s'"
    and "got_offer e b @ queued_offers (sig s') b = queued_offers (sig s) b @ put_offer e b"
    and "got_cand e p @ queued_cands (sig s') p = queued_cands (sig s) p @ put_cand e p"
proof -
  have g: "sig_ok (sig s)" using assms(2) by (simp add: sys_ok_def)
  have "sys_ok s' \<and>
        got_offer e b @ queued_offers (sig s') b = queued_offers (sig s) b @ put_offer e b \<and>
        got_cand e p @ queued_cands (sig s') p = queued_cands (sig s) p @ put_cand e p"
    using assms(1)
  proof (cases rule: sys_step.cases)
    case (arrive now ep rq g' h)
    from start_handler_arrival [OF g arrive(4)] have "arrival_ok (sig s) g' h" .
    with arrive assms(2) show ?thesis
      by (auto simp: arrival_ok_def sys_ok_def same_queues_def intro: handler_ok_grows split: if_splits)
  next
    case (move h g' h')
    with assms(2) have "handler_ok (sig s) h" by (simp add: sys_ok_def)
    from handler_step_ok [OF move(3) g this] have "step_ok (sig s) e g' h'" .
    with move assms(2) show ?thesis
      by (auto simp: step_ok_def sys_ok_def intro: handler_ok_grows split: if_splits)
  qed
  then show "sys_ok s'"
    "got_offer e b @ queued_offers (sig s') b = queued_offers (sig s) b @ put_offer e b"
    "got_cand e p @ queued_cands (sig s') p = queued_cands (sig s) p @ put_cand e p" by auto
qed

lemma reach_shape: "reach pid tr s \<Longrightarrow> sys_ok s \<and> balanced tr s"
proof (induction rule: reach.induct)
  case start
  then show ?case
    by (simp add: sys_ok_init balanced_def)
      (simp add: init_sys_def new_signaling_def queued_offers_def queued_cands_def)
next
  case (step tr s e s')
  obtain r v where e: "e = (r, v)" by (cases e)
  note one = sys_step_ok [OF step.hyps(2) [unfolded e]]
  have ok: "sys_ok s" and "balanced tr s" using step.IH by auto
  then show ?case
    using one(1) [OF ok] one(2,3) [OF ok, symmetric] by (simp add: balanced_def e)
qed

lemma reach_prefix: "reach pid (tr @ tr') s \<Longrightarrow> \<exists>s0. reach pid tr s0"
proof (induction tr' arbitrary: s rule: rev_induct)
  case Nil
  then show ?case by auto
next
  case (snoc x xs)
  then show ?case
    by (metis append_assoc append_is_Nil_conv butlast_snoc not_Cons_self2 reach.cases)
qed

section \<open>Whose answer\<close>

text \<open>
  Each answer channel is created for one client id. \<open>own\<close> remembers it; an answer is put only
  into the channel of the client it names, and was accepted from some request before.
\<close>

fun owned_handler :: "(nat \<Rightarrow> string) \<Rightarrow> handler \<Rightarrow> bool" where
  "owned_handler own (Sending k b cid a q env) \<longleftrightarrow> own a = cid"
| "owned_handler own (Awaiting k cid a) \<longleftrightarrow> own a = cid"
| "owned_handler own (Answering a env) \<longleftrightarrow> own a = Peer env"
| "owned_handler own _ \<longleftrightarrow> True"

definition accepted :: "(nat \<times> event) list \<Rightarrow> envelope \<Rightarrow> bool" where
  "accepted tr env \<longleftrightarrow> AnswerAccepted env \<in> snd ` set tr"

definition owned :: "(nat \<Rightarrow> string) \<Rightarrow> (nat \<times> event) list \<Rightarrow> sys \<Rightarrow> bool" where
  "owned own tr s \<longleftrightarrow>
     (\<forall>cid a. pendingAnswers (sig s) cid = Some a \<longrightarrow> own a = cid) \<and>
     (\<forall>a. \<forall>env \<in> set (chan_buf (answer_chans (sig s) a)). Peer env = own a \<and> accepted tr env) \<and>
     (\<forall>r h. live s r = Some h \<longrightarrow> owned_handler own h)"

lemma ownedD:
  assumes "owned own tr s"
  shows "pendingAnswers (sig s) cid = Some a \<Longrightarrow> own a = cid"
    and "env \<in> set (chan_buf (answer_chans (sig s) a)) \<Longrightarrow> Peer env = own a \<and> accepted tr env"
    and "live s r = Some h \<Longrightarrow> owned_handler own h"
  using assms unfolding owned_def by blast+

lemma accepted_mono: "accepted tr env \<Longrightarrow> accepted (tr @ [e]) env"
  by (simp add: accepted_def)

lemma owned_handler_update:
  "handler_ok g h \<Longrightarrow> owned_handler own h \<Longrightarrow> owned_handler (own(next_chan g := cid)) h"
  by (cases h) auto

lemma owned_arrive:
  assumes "owned own tr s" and "sys_ok s" and "start_handler pid now ep rq (sig s) = (g, h)"
  shows "\<exists>own'. owned own' (tr @ [e]) (s\<lparr>sig := g, live := (live s)(r \<mapsto> h)\<rparr>)"
proof -
  have sig: "sig_ok (sig s)" using assms(2) by (simp add: sys_ok_def)
  from start_handler_arrival [OF sig assms(3)] have arr: "arrival_ok (sig s) g h" .
  show ?thesis
  proof (cases "registers h")
    case None
    then have "owned_handler own h"
      using arr assms(1) by (cases h) (auto simp: arrival_ok_def owned_def)
    with None arr assms(1) have "owned own (tr @ [e]) (s\<lparr>sig := g, live := (live s)(r \<mapsto> h)\<rparr>)"
      by (auto simp: owned_def arrival_ok_def intro: accepted_mono)
    then show ?thesis by blast
  next
    case (Some ca)
    obtain cid a where ca: "ca = (cid, a)" by (cases ca)
    let ?own = "own(a := cid)"
    have a: "a = next_chan (sig s)" and pa: "pendingAnswers g = (pendingAnswers (sig s))(cid \<mapsto> a)"
      and ac: "answer_chans g = (answer_chans (sig s))(a := make_chan 1)"
      using arr Some ca by (auto simp: arrival_ok_def)
    have "owned_handler ?own h" using Some ca by (cases h) auto
    moreover have "owned_handler ?own h'" if "live s r' = Some h'" for r' h'
      using assms(1,2) that owned_handler_update unfolding a owned_def sys_ok_def by blast
    moreover have "?own x = c" if "pendingAnswers g c = Some x" for c x
      using that assms(1) sig_okD(5) [OF sig, of c x] by (auto simp: pa a owned_def split: if_splits)
    moreover have "Peer env = ?own x \<and> accepted (tr @ [e]) env"
      if "env \<in> set (chan_buf (answer_chans g x))" for x env
      using that assms(1) by (auto simp: ac owned_def intro: accepted_mono split: if_splits)
    ultimately have "owned ?own (tr @ [e]) (s\<lparr>sig := g, live := (live s)(r \<mapsto> h)\<rparr>)"
      by (auto simp: owned_def)
    then show ?thesis by blast
  qed
qed

lemma owned_move:
  assumes "owned own tr s" and "live s r = Some h" and "handler_step (sig s) h e g h'"
  shows "owned own (tr @ [(r, e)]) (s\<lparr>sig := g, live := (live s)(r \<mapsto> h')\<rparr>)"
proof -
  have h: "owned_handler own h" using assms(1,2) by (simp add: owned_def)
  have "owned_handler own h'" using assms(3) h by cases auto
  moreover have "own a = cid" if "pendingAnswers g cid = Some a" for cid a
    using assms(3) assms(1) that by cases (auto simp: owned_def split: if_splits)
  moreover have "Peer env = own a \<and> accepted (tr @ [(r, e)]) env"
    if "env \<in> set (chan_buf (answer_chans g a))" for a env
    using assms(3)
  proof cases
    case (answer_ok x ans c k cid)
    with that ch.recv_set [OF answer_ok(5)]
    have "env \<in> set (chan_buf (answer_chans (sig s) a))" by (auto split: if_splits)
    from ownedD(2) [OF assms(1) this] show ?thesis by (simp add: accepted_mono)
  next
    case (reply_ok x env' c)
    then have "env \<in> set (chan_buf (answer_chans (sig s) a)) \<or> a = x \<and> env = env'"
      using that ch.send_set [OF reply_ok(5)] by (auto split: if_splits)
    with assms(1) h reply_ok show ?thesis
      by (auto simp: owned_def accepted_def)
  qed (use that assms(1) in \<open>auto simp: owned_def intro: accepted_mono\<close>)
  ultimately show ?thesis using assms(1) by (auto simp: owned_def)
qed

lemma reach_owned: "reach pid tr s \<Longrightarrow> \<exists>own. owned own tr s"
proof (induction rule: reach.induct)
  case start
  show ?case by (auto simp: owned_def init_sys_def new_signaling_def)
next
  case (step tr s e s')
  then obtain own where own: "owned own tr s" by blast
  have ok: "sys_ok s" using reach_shape [OF step.hyps(1)] ..
  show ?case
    using step.hyps(2)
  proof cases
    case (arrive r now ep rq g h)
    with owned_arrive [OF own ok] show ?thesis by metis
  next
    case (move r h v g h')
    with owned_move [OF own] show ?thesis by metis
  qed
qed

lemma taken_answer_addressed:
  assumes "reach pid tr s" and "sys_step pid s (r, AnswerTaken cid env) s'"
  shows "Peer env = cid \<and> accepted tr env"
  using assms(2)
proof cases
  case (arrive now ep rq g h)
  then show ?thesis by (cases h) auto
next
  case (move h g h')
  from reach_owned [OF assms(1)] obtain own where own: "owned own tr s" ..
  from move(3) show ?thesis
  proof cases
    case (answer_ok a ans c k cid')
    with ownedD(3) [OF own move(2)] have "own a = cid" by simp
    with ownedD(2) [OF own ch.recv_mem [OF answer_ok(5)]] answer_ok(2) show ?thesis by simp
  qed simp_all
qed

section \<open>What a request writes, and how long it runs\<close>

definition events_of :: "nat \<Rightarrow> (nat \<times> event) list \<Rightarrow> event list" where
  "events_of r tr = map snd (filter (\<lambda>x. fst x = r) tr)"

fun cands_in :: "event list \<Rightarrow> json list" where
  "cands_in [] = []"
| "cands_in (CandTaken p x # es) = x # cands_in es"
| "cands_in (_ # es) = cands_in es"

lemma cands_in_append: "cands_in (xs @ ys) = cands_in xs @ cands_in ys"
  by (induction xs rule: cands_in.induct) auto

fun takes_offer :: "event \<Rightarrow> bool" where
  "takes_offer (OfferPolled b env) = True"
| "takes_offer _ = False"

fun takes_answer :: "event \<Rightarrow> bool" where
  "takes_answer (AnswerTaken cid env) = True"
| "takes_answer _ = False"

text \<open>
  What the handler has taken from a channel so far is still in its hands or in its response.
\<close>

definition nothing_taken :: "event list \<Rightarrow> bool" where
  "nothing_taken es \<longleftrightarrow>
     filter takes_offer es = [] \<and> filter takes_answer es = [] \<and> cands_in es = []"

definition answer_written :: "event list \<Rightarrow> response \<Rightarrow> bool" where
  "answer_written es resp \<longleftrightarrow>
     filter takes_offer es = [] \<and> cands_in es = [] \<and>
     (\<exists>k cid env. filter takes_answer es = [AnswerTaken cid env] \<and> resp = answer_response k cid env)"

definition offer_written :: "event list \<Rightarrow> response \<Rightarrow> bool" where
  "offer_written es resp \<longleftrightarrow>
     filter takes_answer es = [] \<and> cands_in es = [] \<and>
     (\<exists>b env. filter takes_offer es = [OfferPolled b env] \<and>
              resp = writeJSON StatusOK (envelope_json env))"

definition cands_written :: "event list \<Rightarrow> response \<Rightarrow> bool" where
  "cands_written es resp \<longleftrightarrow>
     filter takes_offer es = [] \<and> filter takes_answer es = [] \<and> cands_in es \<noteq> [] \<and>
     (\<exists>now. resp = candidates_response (cands_in es) now)"

fun delivered :: "event list \<Rightarrow> handler \<Rightarrow> bool" where
  "delivered es (Done resp) \<longleftrightarrow>
     nothing_taken es \<or> answer_written es resp \<or> offer_written es resp \<or> cands_written es resp"
| "delivered es (Cleaning cid resp) \<longleftrightarrow> nothing_taken es \<or> answer_written es resp"
| "delivered es (Draining p q out) \<longleftrightarrow>
     filter takes_offer es = [] \<and> filter takes_answer es = [] \<and> cands_in es = out \<and> out \<noteq> []"
| "delivered es _ \<longleftrightarrow> nothing_taken es"

lemma delivered_start: "delivered [start_event h] h" if "\<nexists>p q out. h = Draining p q out"
  using that by (cases h) (auto simp: nothing_taken_def)

lemma delivered_step:
  assumes "handler_step g h e g' h'" and "delivered es h"
  shows "delivered (es @ [e]) h'"
  using assms
  by cases (auto simp: nothing_taken_def answer_written_def offer_written_def cands_written_def
      cands_in_append)

lemma events_of_append: "events_of r (tr @ [(r', e)]) = events_of r tr @ (if r' = r then [e] else [])"
  by (simp add: events_of_def)

text \<open>
  A bound on the remaining steps: every step uses it up, except for a further candidate taken
  in the draining loop.
\<close>

fun rank :: "handler \<Rightarrow> nat" where
  "rank (Sending k b cid a q env) = 3"
| "rank (Awaiting k cid a) = 2"
| "rank (PollingCands p q) = 2"
| "rank (Done r) = 0"
| "rank _ = 1"

lemma rank_step:
  assumes "handler_step g h e g' h'"
  shows "Suc (rank h') \<le> rank h + length (cands_in [e])"
  using assms by cases auto

lemma handler_never_stuck:
  "(\<exists>resp. h = Done resp) \<or> (\<exists>e g' h'. handler_step g h e g' h')"
proof (cases h)
  case (Sending k b cid a q env)
  then show ?thesis
    by (cases "chan_send (offer_chans g q) env") (blast intro: handler_step_intros)+
next
  case (Answering a env)
  then show ?thesis
    by (cases "chan_send (answer_chans g a) env") (blast intro: handler_step_intros)+
next
  case (Posting p q x)
  then show ?thesis
    by (cases "chan_send (cand_chans g q) x") (blast intro: handler_step_intros)+
next
  case (Draining p q out)
  then show ?thesis
    by (cases "chan_recv (cand_chans g q)") (auto intro: handler_step_intros)
qed (blast intro: handler_step_intros)+

definition progress_ok :: "(nat \<times> event) list \<Rightarrow> sys \<Rightarrow> bool" where
  "progress_ok tr s \<longleftrightarrow> (\<forall>r. case live s r of
      None \<Rightarrow> events_of r tr = []
    | Some h \<Rightarrow> delivered (events_of r tr) h \<and>
        length (events_of r tr) + rank h \<le> 4 + length (cands_in (events_of r tr)))"

lemma progress_okD:
  assumes "progress_ok tr s"
  shows "live s r = None \<Longrightarrow> events_of r tr = []"
    and "live s r = Some h \<Longrightarrow> delivered (events_of r tr) h"
    and "live s r = Some h \<Longrightarrow>
           length (events_of r tr) + rank h \<le> 4 + length (cands_in (events_of r tr))"
  using assms [unfolded progress_ok_def, THEN spec, of r] by simp_all

lemma progress_ok_update:
  assumes "progress_ok tr s" and "delivered (events_of r tr @ [v]) h"
    and "Suc (length (events_of r tr)) + rank h \<le> 4 + length (cands_in (events_of r tr @ [v]))"
  shows "progress_ok (tr @ [(r, v)]) (s\<lparr>sig := g, live := (live s)(r \<mapsto> h)\<rparr>)"
  unfolding progress_ok_def
proof
  fix r'
  show "case live (s\<lparr>sig := g, live := (live s)(r \<mapsto> h)\<rparr>) r' of
      None \<Rightarrow> events_of r' (tr @ [(r, v)]) = []
    | Some h \<Rightarrow> delivered (events_of r' (tr @ [(r, v)])) h \<and>
        length (events_of r' (tr @ [(r, v)])) + rank h \<le> 4 + length (cands_in (events_of r' (tr @ [(r, v)])))"
    using assms(2,3) assms(1) [unfolded progress_ok_def, THEN spec, of r']
    by (cases "r' = r") (simp_all add: events_of_append split: option.splits)
qed

lemma reach_progress: "reach pid tr s \<Longrightarrow> progress_ok tr s"
proof (induction rule: reach.induct)
  case start
  show ?case by (simp add: progress_ok_def init_sys_def events_of_def)
next
  case (step tr s e s')
  have ok: "sig_ok (sig s)" using reach_shape [OF step.hyps(1)] by (simp add: sys_ok_def)
  show ?case
    using step.hyps(2)
  proof cases
    case (arrive r now ep rq g h)
    have arr: "arrival_ok (sig s) g h" using start_handler_arrival [OF ok arrive(4)] .
    have none: "events_of r tr = []"
      using progress_okD(1) [OF step.IH] arrive(3) by simp
    have "delivered [start_event h] h"
      using arr by (intro delivered_start) (auto simp: arrival_ok_def)
    moreover have "rank h \<le> 3" by (cases h) auto
    ultimately show ?thesis
      unfolding arrive(1,2) using none by (intro progress_ok_update step.IH) simp_all
  next
    case (move r h v g h')
    have "delivered (events_of r tr) h"
      and len: "length (events_of r tr) + rank h \<le> 4 + length (cands_in (events_of r tr))"
      using progress_okD(2,3) [OF step.IH] move(3) by simp_all
    then have "delivered (events_of r tr @ [v]) h'" using delivered_step [OF move(4)] by blast
    then show ?thesis
      unfolding move(1,2) using len rank_step [OF move(4)]
      by (intro progress_ok_update step.IH) (simp_all add: cands_in_append)
  qed
qed

end
