(* ===== verification/Signaling_Clients.thy ===== *)
theory Signaling_Clients
  imports Signaling_Runs
begin

text \<open>
  The table \<open>pendingAnswers\<close> of \<open>cmd/chepherd-relay/main.go\<close>: who is in it, at every moment
  of every execution. The client ids come from \<open>genClientID\<close> (process id and wall clock in
  nanoseconds); the accounting assumes that no two requests drew the same one, and
  \<open>genClientID_inj\<close> reduces that to distinct clock readings.
\<close>

section \<open>Client ids\<close>

lemma genClientID_inj: "genClientID pid t = genClientID pid u \<longleftrightarrow> t = u"
  by (simp add: genClientID_def show_int_inj)

lemma genClientID_not_Nil: "genClientID pid t \<noteq> []"
  by (simp add: genClientID_def)

section \<open>The accounting\<close>

fun client_of :: "handler \<Rightarrow> string option" where
  "client_of (Sending k b cid a q env) = Some cid"
| "client_of (Awaiting k cid a) = Some cid"
| "client_of (Cleaning cid r) = Some cid"
| "client_of _ = None"

text \<open>The answer channel a handler is going to receive from.\<close>

fun wait_chan :: "handler \<Rightarrow> (string \<times> nat) option" where
  "wait_chan (Sending k b cid a q env) = Some (cid, a)"
| "wait_chan (Awaiting k cid a) = Some (cid, a)"
| "wait_chan _ = None"

definition live_clients :: "sys \<Rightarrow> string set" where
  "live_clients s = {cid. \<exists>r h. live s r = Some h \<and> client_of h = Some cid}"

fun registered_in :: "event \<Rightarrow> string list" where
  "registered_in (Registered cid) = [cid]"
| "registered_in _ = []"

definition registered :: "(nat \<times> event) list \<Rightarrow> string list" where
  "registered tr = concat (map (\<lambda>x. registered_in (snd x)) tr)"

definition timed_out :: "(nat \<times> event) list \<Rightarrow> string set" where
  "timed_out tr = {cid. SendTimedOut cid \<in> snd ` set tr}"

definition one_handler_each :: "sys \<Rightarrow> bool" where
  "one_handler_each s \<longleftrightarrow> (\<forall>r r' h h' cid. live s r = Some h \<longrightarrow> live s r' = Some h' \<longrightarrow>
     client_of h = Some cid \<longrightarrow> client_of h' = Some cid \<longrightarrow> r = r')"

definition clients_ok :: "(nat \<times> event) list \<Rightarrow> sys \<Rightarrow> bool" where
  "clients_ok tr s \<longleftrightarrow>
     live_clients s \<subseteq> set (registered tr) - timed_out tr \<and>
     timed_out tr \<subseteq> set (registered tr) \<and>
     one_handler_each s \<and>
     (\<forall>r h cid a. live s r = Some h \<longrightarrow> wait_chan h = Some (cid, a) \<longrightarrow>
        pendingAnswers (sig s) cid = Some a) \<and>
     dom (pendingAnswers (sig s)) = live_clients s \<union> timed_out tr"

lemma clients_okD:
  assumes "clients_ok tr s"
  shows "live s r = Some h \<Longrightarrow> client_of h = Some cid \<Longrightarrow> cid \<in> set (registered tr) \<and> cid \<notin> timed_out tr"
    and "timed_out tr \<subseteq> set (registered tr)"
    and "live s r = Some h \<Longrightarrow> live s r' = Some h' \<Longrightarrow> client_of h = Some cid \<Longrightarrow>
           client_of h' = Some cid \<Longrightarrow> r = r'"
    and "live s r = Some h \<Longrightarrow> wait_chan h = Some (cid, a) \<Longrightarrow> pendingAnswers (sig s) cid = Some a"
    and "dom (pendingAnswers (sig s)) = live_clients s \<union> timed_out tr"
  using assms unfolding clients_ok_def live_clients_def one_handler_each_def by blast+

lemma wait_chan_client: "wait_chan h = Some (cid, a) \<Longrightarrow> client_of h = Some cid"
  by (cases h) auto

lemma registered_snoc: "registered (tr @ [(r, e)]) = registered tr @ registered_in e"
  by (simp add: registered_def)

lemma timed_out_snoc:
  "timed_out (tr @ [(r, e)]) = timed_out tr \<union> (case e of SendTimedOut cid \<Rightarrow> {cid} | _ \<Rightarrow> {})"
  by (auto simp: timed_out_def split: event.splits)

lemma registered_start: "registered_in (start_event h) = (case registers h of None \<Rightarrow> [] | Some (cid, a) \<Rightarrow> [cid])"
  by (cases h) auto

lemma start_event_no_timeout: "(case start_event h of SendTimedOut cid \<Rightarrow> {cid} | _ \<Rightarrow> {}) = ({} :: string set)"
  by (cases h) auto

text \<open>A step of a handler keeps its client, gives it up on a full queue, or signs it off.\<close>

lemma handler_step_client:
  assumes "handler_step g h e g' h'"
  obtains
    (keep) "client_of h' = client_of h" "pendingAnswers g' = pendingAnswers g"
      "wait_chan h' = wait_chan h \<or> wait_chan h' = None"
      "registered_in e = []" "\<And>cid. e \<noteq> SendTimedOut cid"
  | (give_up) cid where "client_of h = Some cid" "client_of h' = None" "wait_chan h' = None"
      "pendingAnswers g' = pendingAnswers g" "e = SendTimedOut cid"
  | (sign_off) cid where "client_of h = Some cid" "client_of h' = None" "wait_chan h' = None"
      "pendingAnswers g' = (pendingAnswers g)(cid := None)" "e = Internal"
  using assms
proof cases
  case (send_timeout q env k b cid a)
  then show ?thesis by (intro give_up [of cid]) auto
next
  case (cleanup cid r)
  then show ?thesis by (intro sign_off [of cid]) auto
qed (rule keep; simp; fail)+

lemma live_clients_update:
  assumes "one_handler_each s" and "live s r = Some h"
  shows "live_clients (s\<lparr>sig := g, live := (live s)(r \<mapsto> h')\<rparr>) =
         (live_clients s - set_option (client_of h)) \<union> set_option (client_of h')"
  using assms unfolding live_clients_def one_handler_each_def
  by (auto split: if_splits) (metis option.inject)+

lemma one_handler_each_update:
  assumes "one_handler_each s" and "live s r = Some h"
    and "client_of h' = client_of h \<or> client_of h' = None"
  shows "one_handler_each (s\<lparr>sig := g, live := (live s)(r \<mapsto> h')\<rparr>)"
  using assms unfolding one_handler_each_def by (auto split: if_splits; metis)

lemma clients_ok_move:
  assumes ok: "clients_ok tr s" and h: "live s r = Some h" and st: "handler_step (sig s) h e g h'"
  shows "clients_ok (tr @ [(r, e)]) (s\<lparr>sig := g, live := (live s)(r \<mapsto> h')\<rparr>)"
proof -
  let ?s = "s\<lparr>sig := g, live := (live s)(r \<mapsto> h')\<rparr>"
  have one: "one_handler_each s" and sub: "live_clients s \<subseteq> set (registered tr) - timed_out tr"
    using ok by (auto simp: clients_ok_def)
  note lc = live_clients_update [OF one h]
  note dom = clients_okD(5) [OF ok]
  have others: "pendingAnswers (sig s) cid = Some a"
    if "live s r' = Some x" "wait_chan x = Some (cid, a)" for r' x cid a
    using clients_okD(4) [OF ok that] .
  have mine: "r' = r" if "live s r' = Some x" "client_of x = client_of h" "client_of h \<noteq> None" for r' x
    using clients_okD(3) [OF ok that(1) h] that by auto
  show ?thesis
    using st
  proof (cases rule: handler_step_client)
    case keep
    have "set_option (client_of h) \<subseteq> live_clients s" using h by (auto simp: live_clients_def)
    with keep lc have same: "live_clients ?s = live_clients s" by auto
    have "one_handler_each ?s" using one_handler_each_update [OF one h] keep by blast
    with keep same sub dom h others clients_okD(2) [OF ok] show ?thesis
      by (auto simp: clients_ok_def registered_snoc timed_out_snoc split: if_splits event.splits)
  next
    case (give_up cid)
    have cid: "cid \<in> live_clients s" using h give_up by (auto simp: live_clients_def)
    have "one_handler_each ?s" using one_handler_each_update [OF one h] give_up by blast
    with give_up lc sub dom others cid clients_okD(2) [OF ok] show ?thesis
      by (auto simp: clients_ok_def registered_snoc timed_out_snoc split: if_splits)
  next
    case (sign_off cid)
    have cid: "cid \<notin> timed_out tr" using clients_okD(1) [OF ok h sign_off(1)] by simp
    have "one_handler_each ?s" using one_handler_each_update [OF one h] sign_off by blast
    moreover have "c \<noteq> cid" if "live s r' = Some x" "wait_chan x = Some (c, a)" "r' \<noteq> r" for r' x c a
      using mine [OF that(1)] wait_chan_client [OF that(2)] that(3) sign_off(1) by auto
    ultimately show ?thesis
      using sign_off lc sub dom others cid clients_okD(2) [OF ok]
      by (auto simp: clients_ok_def registered_snoc timed_out_snoc split: if_splits)
  qed
qed

lemma clients_ok_arrive:
  assumes ok: "clients_ok tr s" and sys: "sys_ok s" and new: "live s r = None"
    and st: "start_handler pid now ep rq (sig s) = (g, h)"
    and dist: "distinct (registered (tr @ [(r, start_event h)]))"
  shows "clients_ok (tr @ [(r, start_event h)]) (s\<lparr>sig := g, live := (live s)(r \<mapsto> h)\<rparr>)"
proof -
  let ?s = "s\<lparr>sig := g, live := (live s)(r \<mapsto> h)\<rparr>"
  have "sig_ok (sig s)" using sys by (simp add: sys_ok_def)
  from start_handler_arrival [OF this st] have arr: "arrival_ok (sig s) g h" .
  have one: "one_handler_each s" and sub: "live_clients s \<subseteq> set (registered tr) - timed_out tr"
    using ok by (auto simp: clients_ok_def)
  have lc: "live_clients ?s = live_clients s \<union> set_option (client_of h)"
    using new unfolding live_clients_def by (auto split: if_splits; metis option.distinct(1))
  show ?thesis
  proof (cases "registers h")
    case None
    with arr have "client_of h = None" and "wait_chan h = None"
      by (cases h; auto simp: arrival_ok_def)+
    with None arr lc ok new show ?thesis
      by (auto simp: clients_ok_def one_handler_each_def arrival_ok_def registered_snoc
          registered_start timed_out_snoc start_event_no_timeout split: if_splits)
  next
    case (Some ca)
    obtain cid a where ca: "ca = (cid, a)" by (cases ca)
    have h: "client_of h = Some cid" "wait_chan h = Some (cid, a)"
      using Some ca by (cases h; simp)+
    have fresh: "cid \<notin> set (registered tr)"
      using dist Some ca by (simp add: registered_snoc registered_start)
    then have nolive: "cid \<notin> live_clients s" using sub by blast
    then have "client_of x \<noteq> Some cid" if "live s r' = Some x" for r' x
      using that by (auto simp: live_clients_def)
    moreover have "c \<noteq> cid" if "live s r' = Some x" "wait_chan x = Some (c, d)" for r' x c d
      using wait_chan_client [OF that(2)] that(1) nolive by (auto simp: live_clients_def)
    moreover have "pendingAnswers g = (pendingAnswers (sig s))(cid \<mapsto> a)"
      using arr Some ca by (simp add: arrival_ok_def)
    ultimately show ?thesis
      using Some ca h fresh lc ok new clients_okD(2) [OF ok]
      by (auto simp: clients_ok_def one_handler_each_def registered_snoc registered_start
          timed_out_snoc start_event_no_timeout split: if_splits)
  qed
qed

lemma reach_clients:
  "reach pid tr s \<Longrightarrow> distinct (registered tr) \<Longrightarrow> clients_ok tr s"
proof (induction rule: reach.induct)
  case start
  show ?case
    by (simp add: clients_ok_def init_sys_def new_signaling_def live_clients_def timed_out_def
        registered_def one_handler_each_def)
next
  case (step tr s e s')
  have ok: "clients_ok tr s" using step by (cases e) (simp add: registered_snoc)
  have sys: "sys_ok s" using reach_shape [OF step.hyps(1)] ..
  show ?case
    using step.hyps(2)
  proof cases
    case (arrive r now ep rq g h)
    with clients_ok_arrive [OF ok sys arrive(3,4)] step.prems show ?thesis by simp
  next
    case (move r h v g h')
    with clients_ok_move [OF ok move(3,4)] show ?thesis by simp
  qed
qed

end
