(* ===== verification/Signaling_Ends.thy ===== *)
theory Signaling_Ends
  imports Signaling_Runs
begin

text \<open>
  How the requests of the signaling rendezvous (\<open>cmd/chepherd-relay/main.go\<close>) end: the runs that
  continue an execution, the response that a taken answer becomes, the steps that a request can
  make by itself, and how many they are.
\<close>

section \<open>Continuations\<close>

inductive sys_run :: "int \<Rightarrow> sys \<Rightarrow> (nat \<times> event) list \<Rightarrow> sys \<Rightarrow> bool" for pid s where
  run_here: "sys_run pid s [] s"
| run_on: "sys_run pid s tr s1 \<Longrightarrow> sys_step pid s1 e s2 \<Longrightarrow> sys_run pid s (tr @ [e]) s2"

lemma reach_run: "sys_run pid s tr' s' \<Longrightarrow> reach pid tr s \<Longrightarrow> reach pid (tr @ tr') s'"
proof (induction rule: sys_run.induct)
  case (run_on tr1 s1 e s2)
  from reach.step [OF run_on.IH [OF run_on.prems] run_on.hyps(2)] show ?case by simp
qed simp

lemma sys_run_one: "sys_step pid s e s' \<Longrightarrow> sys_run pid s [e] s'"
  using run_on [OF run_here] by fastforce

section \<open>What a taken answer becomes\<close>

text \<open>The endpoint that a request for an answer came to.\<close>

fun flavour_of :: "handler \<Rightarrow> flavour option" where
  "flavour_of (Sending k b cid a q env) = Some k"
| "flavour_of (Awaiting k cid a) = Some k"
| "flavour_of _ = None"

definition answered_as :: "flavour option \<Rightarrow> event list \<Rightarrow> response \<Rightarrow> bool" where
  "answered_as ko es resp \<longleftrightarrow>
     (\<forall>cid env. AnswerTaken cid env \<in> set es \<longrightarrow> (\<exists>k. ko = Some k \<and> resp = answer_response k cid env))"

definition no_answer :: "event list \<Rightarrow> bool" where
  "no_answer es \<longleftrightarrow> (\<forall>cid env. AnswerTaken cid env \<notin> set es)"

fun answers_ok :: "flavour option \<Rightarrow> event list \<Rightarrow> handler \<Rightarrow> bool" where
  "answers_ok ko es (Cleaning cid resp) \<longleftrightarrow> answered_as ko es resp"
| "answers_ok ko es (Done resp) \<longleftrightarrow> answered_as ko es resp"
| "answers_ok ko es h \<longleftrightarrow> no_answer es \<and> (flavour_of h = None \<or> flavour_of h = ko)"

lemma answers_ok_step: "handler_step g h e g' h' \<Longrightarrow> answers_ok ko es h \<Longrightarrow> answers_ok ko (es @ [e]) h'"
  by (cases rule: handler_step_cases) (auto simp: no_answer_def answered_as_def)

lemma answers_ok_start: "answers_ok (flavour_of h) [] h"
  by (cases h) (auto simp: no_answer_def answered_as_def)

lemma run_answers_ok:
  "sys_run pid s tr s' \<Longrightarrow> live s r = Some h \<Longrightarrow>
     \<exists>h'. live s' r = Some h' \<and> answers_ok (flavour_of h) (events_of r tr) h'"
proof (induction rule: sys_run.induct)
  case run_here
  then show ?case using answers_ok_start by (simp add: events_of_def)
next
  case (run_on tr s1 e s2)
  then obtain h1 where h1: "live s1 r = Some h1" "answers_ok (flavour_of h) (events_of r tr) h1" by blast
  from run_on.hyps(2) show ?case
  proof cases
    case (arrive r' now ep rq g h')
    with h1 show ?thesis by (auto simp: events_of_append)
  next
    case (move r' h' v g h'')
    with h1 answers_ok_step [OF move(4)] show ?thesis by (auto simp: events_of_append)
  qed
qed

lemma run_answers:
  assumes "sys_run pid s tr s'" and "live s r = Some h" and "live s' r = Some (Done resp)"
    and "AnswerTaken cid env \<in> set (events_of r tr)"
  shows "\<exists>k. flavour_of h = Some k \<and> resp = answer_response k cid env"
  using run_answers_ok [OF assms(1,2)] assms(3,4) by (auto simp: answered_as_def)

section \<open>A request by itself\<close>

text \<open>The request is given up by its caller: the context of the request has ended.\<close>

fun gives_up :: "handler \<Rightarrow> handler \<Rightarrow> bool" where
  "gives_up (Awaiting k cid a) h' \<longleftrightarrow> h' = Cleaning cid nothing_written"
| "gives_up (Polling b q) h' \<longleftrightarrow> h' = Done nothing_written"
| "gives_up (PollingCands p q) h' \<longleftrightarrow> h' = Done nothing_written"
| "gives_up _ h' \<longleftrightarrow> False"

text \<open>The steps of one request while no other moves, and those of a caller that stays.\<close>

inductive own_run :: "signaling \<Rightarrow> handler \<Rightarrow> nat \<Rightarrow> signaling \<Rightarrow> handler \<Rightarrow> bool" where
  own_here: "own_run g h 0 g h"
| own_step: "handler_step g h e g1 h1 \<Longrightarrow> own_run g1 h1 n g2 h2 \<Longrightarrow> own_run g h (Suc n) g2 h2"

inductive patient_run :: "signaling \<Rightarrow> handler \<Rightarrow> nat \<Rightarrow> signaling \<Rightarrow> handler \<Rightarrow> bool" where
  patient_here: "patient_run g h 0 g h"
| patient_step: "handler_step g h e g1 h1 \<Longrightarrow> \<not> gives_up h h1 \<Longrightarrow> patient_run g1 h1 n g2 h2 \<Longrightarrow>
    patient_run g h (Suc n) g2 h2"

lemma patient_own: "patient_run g h n g' h' \<Longrightarrow> own_run g h n g' h'"
  by (induction rule: patient_run.induct) (auto intro: own_run.intros)

text \<open>What is left to do: every step of the request takes from it, draining included.\<close>

fun work :: "signaling \<Rightarrow> handler \<Rightarrow> nat" where
  "work g (Sending k b cid a q env) = 3"
| "work g (Awaiting k cid a) = 2"
| "work g (PollingCands p q) = Suc (length (chan_buf (cand_chans g q)))"
| "work g (Draining p q out) = Suc (length (chan_buf (cand_chans g q)))"
| "work g (Done r) = 0"
| "work g h = 1"

lemma work_step: "handler_step g h e g' h' \<Longrightarrow> work g' h' < work g h"
  by (cases rule: handler_step_cases) (auto dest: ch.recv_contents)

lemma own_run_work: "own_run g h n g' h' \<Longrightarrow> n + work g' h' \<le> work g h"
  by (induction rule: own_run.induct) (auto dest: work_step)

lemma work_bounded: "sig_ok g \<Longrightarrow> handler_ok g h \<Longrightarrow> work g h \<le> 33"
  by (cases h) (auto dest: sig_okD(2) simp: chan_ok_def)

text \<open>
  At every moment a request can go on although its caller stays and nobody else moves: when no
  value and no room is there, its timer is.
\<close>

lemma patient_step_possible:
  "(\<exists>resp. h = Done resp) \<or> (\<exists>e g' h'. handler_step g h e g' h' \<and> \<not> gives_up h h')"
proof (cases h)
  case (Sending k b cid a q env)
  then show ?thesis
    by (cases "chan_send (offer_chans g q) env") (force intro: handler_step_intros)+
next
  case (Awaiting k cid a)
  have "answer_response k cid ans \<noteq> nothing_written" "no_answer_response \<noteq> nothing_written" for ans
    by (simp_all add: answer_response_def nothing_written_def no_answer_response_def http_error_def writeJSON_def
        split: flavour.split)
  with Awaiting show ?thesis
    by (cases "chan_recv (answer_chans g a)") (force intro: handler_step_intros)+
next
  case (Cleaning cid r)
  then show ?thesis by (force intro: handler_step_intros)
next
  case (Polling b q)
  have "writeJSON st j \<noteq> nothing_written" "write_header StatusNoContent \<noteq> nothing_written" for st j
    by (simp_all add: nothing_written_def writeJSON_def write_header_def)
  with Polling show ?thesis
    by (cases "chan_recv (offer_chans g q)") (force intro: handler_step_intros)+
next
  case (Answering a env)
  then show ?thesis
    by (cases "chan_send (answer_chans g a) env") (force intro: handler_step_intros)+
next
  case (Posting p q x)
  then show ?thesis
    by (cases "chan_send (cand_chans g q) x") (force intro: handler_step_intros)+
next
  case (PollingCands p q)
  have "candidates_response out now \<noteq> nothing_written" for out now
    by (simp add: nothing_written_def candidates_response_def writeJSON_def)
  with PollingCands show ?thesis
    by (cases "chan_recv (cand_chans g q)") (force intro: handler_step_intros)+
next
  case (Draining p q out)
  then show ?thesis
    by (cases "chan_recv (cand_chans g q)") (force intro: handler_step_intros)+
qed simp

lemma patient_run_ends: "\<exists>n g' resp. patient_run g h n g' (Done resp)"
proof (induction "work g h" arbitrary: g h rule: less_induct)
  case less
  from patient_step_possible [of h g] show ?case
  proof
    assume "\<exists>resp. h = Done resp"
    then show ?thesis using patient_here by blast
  next
    assume "\<exists>e g' h'. handler_step g h e g' h' \<and> \<not> gives_up h h'"
    then obtain e g1 h1 where st: "handler_step g h e g1 h1" "\<not> gives_up h h1" by blast
    from less [OF work_step [OF st(1)]] patient_step [OF st] show ?thesis by blast
  qed
qed

section \<open>The steps of a request among all others\<close>

fun cands_posted :: "event list \<Rightarrow> json list" where
  "cands_posted [] = []"
| "cands_posted (CandQueued p x # es) = x # cands_posted es"
| "cands_posted (_ # es) = cands_posted es"

fun peer_of :: "event \<Rightarrow> string set" where
  "peer_of (CandQueued p x) = {p}"
| "peer_of (CandTaken p x) = {p}"
| "peer_of _ = {}"

lemma cands_posted_append: "cands_posted (xs @ ys) = cands_posted xs @ cands_posted ys"
  by (induction xs rule: cands_posted.induct) auto

lemma one_peer:
  assumes "finite P" and "peer_of e \<subseteq> P"
  shows "(\<Sum>p \<in> P. length (put_cand e p)) = length (cands_posted [e])"
    and "(\<Sum>p \<in> P. length (got_cand e p)) = length (cands_in [e])"
  using assms by (cases e; simp add: if_distrib [of length] sum.delta cong: if_cong)+

lemma all_peers:
  assumes "finite P" and "(\<Union>x \<in> set tr. peer_of (snd x)) \<subseteq> P"
  shows "(\<Sum>p \<in> P. length (concat (map (\<lambda>x. put_cand (snd x) p) tr))) = length (cands_posted (map snd tr))"
    and "(\<Sum>p \<in> P. length (concat (map (\<lambda>x. got_cand (snd x) p) tr))) = length (cands_in (map snd tr))"
  using assms
proof (induction tr)
  case (Cons x tr)
  {
    case 1
    with one_peer(1) [of P "snd x"] Cons.IH(1) cands_posted_append [of "[snd x]" "map snd tr"] show ?case
      by (simp add: sum.distrib)
  next
    case 2
    with one_peer(2) [of P "snd x"] Cons.IH(2) cands_in_append [of "[snd x]" "map snd tr"] show ?case
      by (simp add: sum.distrib)
  }
qed simp_all

lemma taken_were_posted:
  assumes "reach pid tr s"
  shows "length (cands_in (map snd tr)) \<le> length (cands_posted (map snd tr))"
proof -
  let ?P = "\<Union>x \<in> set tr. peer_of (snd x)"
  have "finite (peer_of e)" for e by (cases e) auto
  then have fin: "finite ?P" by simp
  have "length (concat (map (\<lambda>x. got_cand (snd x) p) tr)) \<le> length (concat (map (\<lambda>x. put_cand (snd x) p) tr))" for p
    using reach_shape [OF assms] by (simp add: balanced_def)
  then have "(\<Sum>p \<in> ?P. length (concat (map (\<lambda>x. got_cand (snd x) p) tr))) \<le>
      (\<Sum>p \<in> ?P. length (concat (map (\<lambda>x. put_cand (snd x) p) tr)))"
    by (rule sum_mono)
  then show ?thesis using all_peers [OF fin subset_refl] by simp
qed

lemma events_of_Cons: "events_of r (x # tr) = (if fst x = r then [snd x] else []) @ events_of r tr"
  by (simp add: events_of_def)

lemma own_cands: "length (cands_in (events_of r tr)) \<le> length (cands_in (map snd tr))"
proof (induction tr)
  case (Cons x tr)
  have "cands_in (map snd (x # tr)) = cands_in [snd x] @ cands_in (map snd tr)"
    using cands_in_append [of "[snd x]" "map snd tr"] by simp
  with Cons show ?case by (simp only: events_of_Cons cands_in_append length_append) simp
qed (simp add: events_of_def)

lemma own_steps_bounded:
  assumes "reach pid tr s" and "live s r = Some h"
  shows "length (events_of r tr) \<le> 4 + length (cands_posted (map snd tr))"
  using progress_okD(3) [OF reach_progress [OF assms(1)] assms(2)] own_cands [of r tr]
    taken_were_posted [OF assms(1)] by simp

end
