(* ===== verification/Signaling_Props.thy ===== *)
theory Signaling_Props
  imports Signaling_Clients Signaling_Ends
begin

text \<open>
  The properties of the signaling rendezvous (\<open>cmd/chepherd-relay/main.go\<close>), each with a
  concrete execution as witness: one full offer, poll and answer between a client and a
  bastion, and one candidate posted and polled.
\<close>

section \<open>A full rendezvous\<close>

definition demo_offer :: json where
  "demo_offer = JObj [(''type'', JStr ''offer''), (''sdp'', JStr ''v=0'')]"

definition demo_request :: "string \<Rightarrow> (string \<times> string) list \<Rightarrow> string \<Rightarrow> unit request" where
  "demo_request m query bdy =
     \<lparr>rq_method = m, rq_path = [], rq_query = query, rq_headers = [], rq_body = bdy, rq_claims = None\<rparr>"

definition offer_rq :: "unit request" where
  "offer_rq = demo_request ''POST'' []
     (json_print (JObj [(''bastion_id'', JStr ''b1''), (''offer'', demo_offer)]))"

definition demo_cid :: string where
  "demo_cid = genClientID 1 100"

definition demo_env :: envelope where
  "demo_env = \<lparr>Peer = demo_cid, SDP = Some demo_offer, ICE = None\<rparr>"

definition demo_answer :: envelope where
  "demo_answer = \<lparr>Peer = demo_cid, SDP = Some (JStr ''answer''), ICE = None\<rparr>"

definition poll_rq :: "unit request" where
  "poll_rq = demo_request ''GET'' [(''bastion'', ''b1'')] []"

definition answer_rq :: "unit request" where
  "answer_rq = demo_request ''POST'' [] (json_print (envelope_json demo_answer))"

lemma find_field_envelope:
  "find_field envelope_fields ''peer'' = Some (\<lambda>r j. map_option (\<lambda>x. r\<lparr>Peer := x\<rparr>) (dec_string (Peer r) j))"
  "find_field envelope_fields ''sdp'' = Some (\<lambda>r j. map_option (\<lambda>x. r\<lparr>SDP := x\<rparr>) (dec_raw (SDP r) j))"
  "find_field envelope_fields ''ice'' = Some (\<lambda>r j. map_option (\<lambda>x. r\<lparr>ICE := x\<rparr>) (dec_raw (ICE r) j))"
  by (simp_all add: find_field_def envelope_fields_def fld_def)

lemma find_field_offer_body:
  "find_field offer_body_fields ''bastion_id'' =
     Some (\<lambda>r j. map_option (\<lambda>x. r\<lparr>ob_BastionID := x\<rparr>) (dec_string (ob_BastionID r) j))"
  "find_field offer_body_fields ''offer'' =
     Some (\<lambda>r j. map_option (\<lambda>x. r\<lparr>ob_Offer := x\<rparr>) (dec_raw (ob_Offer r) j))"
  by (simp_all add: find_field_def offer_body_fields_def fld_def)

lemma find_field_cand_body:
  "find_field cand_body_fields ''bastion_id'' =
     Some (\<lambda>r j. map_option (\<lambda>x. r\<lparr>cb_BastionID := x\<rparr>) (dec_string (cb_BastionID r) j))"
  "find_field cand_body_fields ''candidate'' =
     Some (\<lambda>r j. map_option (\<lambda>x. r\<lparr>cb_Candidate := x\<rparr>) (dec_raw (cb_Candidate r) j))"
  by (simp_all add: find_field_def cand_body_fields_def fld_def)

lemmas body_decoding = find_field_envelope find_field_offer_body find_field_cand_body dec_raw_def
  plain_reading

lemma demo_request_decodes:
  "literal_json j \<Longrightarrow> decode_body fs z (demo_request m q (json_print j)) = dec_struct fs z j"
  by (rule decode_body_literal) (simp_all add: demo_request_def)

lemma offer_decodes:
  "decode_body offer_body_fields \<lparr>ob_BastionID = [], ob_Offer = None\<rparr> offer_rq =
     Some \<lparr>ob_BastionID = ''b1'', ob_Offer = Some demo_offer\<rparr>"
proof -
  have "literal_json (JObj [(''bastion_id'', JStr ''b1''), (''offer'', demo_offer)])"
    unfolding demo_offer_def by code_simp
  then show ?thesis by (simp add: offer_rq_def demo_request_decodes body_decoding)
qed

lemma offer_method: "rq_method offer_rq = ''POST''"
  by (simp add: offer_rq_def demo_request_def)

lemma demo_request_simps [simp]:
  "rq_method (demo_request m q b) = m" "rq_query (demo_request m q b) = q"
  by (simp_all add: demo_request_def)

lemma envelope_decode_encode:
  "dec_struct envelope_fields zero_envelope (envelope_json e) =
     Some (e\<lparr>Peer := to_valid (Peer e), SDP := Some (jraw (SDP e))\<rparr>)"
  by (cases e; cases "ICE e")
    (simp_all add: envelope_json_def body_decoding zero_envelope_def dec_string_jstr)

lemma demo_cid_valid: "to_valid demo_cid = demo_cid"
proof -
  have "valid_utf8 demo_cid" unfolding demo_cid_def by code_simp
  then show ?thesis by (rule to_valid_id)
qed

lemma answer_decodes: "decode_body envelope_fields zero_envelope answer_rq = Some demo_answer"
proof -
  have "literal_json (envelope_json demo_answer)" unfolding demo_answer_def demo_cid_def by code_simp
  then show ?thesis
    by (simp add: answer_rq_def demo_request_decodes envelope_decode_encode) (simp add: demo_answer_def jraw_def demo_cid_valid)
qed

lemma demo_cid_not_Nil: "demo_cid \<noteq> []"
  by (simp add: demo_cid_def genClientID_not_Nil)

text \<open>The states of the rendezvous, written out.\<close>

definition demo_sig :: "(string \<rightharpoonup> nat) \<Rightarrow> envelope list \<Rightarrow> envelope list \<Rightarrow> signaling" where
  "demo_sig waiting offers answers =
     \<lparr>pendingOffers = [''b1'' \<mapsto> 1], pendingAnswers = waiting, candidateQueues = Map.empty,
      offer_chans = (\<lambda>_. make_chan 0)(1 := \<lparr>chan_cap = 16, chan_buf = offers\<rparr>),
      answer_chans = (\<lambda>_. make_chan 0)(0 := \<lparr>chan_cap = 1, chan_buf = answers\<rparr>),
      cand_chans = (\<lambda>_. make_chan 0), next_chan = 2\<rparr>"

definition demo_sys :: "signaling \<Rightarrow> (nat \<times> handler) list \<Rightarrow> sys" where
  "demo_sys g hs = \<lparr>sig = g, live = map_of hs\<rparr>"

abbreviation "polled_done \<equiv> Done (writeJSON StatusOK (envelope_json demo_env))"
abbreviation "replied_done \<equiv> Done (writeJSON StatusOK (JObj [(''status'', jstr ''ok'')]))"
abbreviation "demo_resp \<equiv> answer_response OfferStyle demo_cid demo_answer"
abbreviation "waiting1 \<equiv> [demo_cid \<mapsto> 0 :: nat]"

lemma demo_arrive_offer:
  "signalingOffer 1 100 offer_rq new_signaling =
     (demo_sig waiting1 [] [], Sending OfferStyle ''b1'' demo_cid 0 1 demo_env)"
  by (simp add: signalingOffer_def offer_decodes Let_def offer_method
      register_client_def offer_queue_def new_signaling_def demo_sig_def demo_cid_def [symmetric]
      demo_env_def make_chan_def fun_eq_iff)

lemma demo_arrive_poll:
  "signalingPoll poll_rq (demo_sig w off ans) = (demo_sig w off ans, Polling ''b1'' 1)"
  by (simp add: signalingPoll_def poll_rq_def demo_request_def query_get_def first_value_def
      offer_queue_def demo_sig_def Let_def)

lemma demo_arrive_answer:
  "signalingAnswer answer_rq (demo_sig waiting1 off ans) =
     (demo_sig waiting1 off ans, Answering 0 demo_answer)"
proof -
  have "decode_body envelope_fields zero_envelope answer_rq = Some demo_answer"
    by (rule answer_decodes)
  moreover have "Peer demo_answer = demo_cid" by (simp add: demo_answer_def)
  ultimately show ?thesis
    using demo_cid_not_Nil by (simp add: signalingAnswer_def answer_rq_def demo_request_def demo_sig_def)
qed

lemma demo_arrival:
  assumes "reach 1 tr (demo_sys g hs)" and "map_of hs r = None"
    and "start_handler 1 now ep (rq :: unit request) g = (g', h)" and "e = (r, start_event h)"
  shows "reach 1 (tr @ [e]) (demo_sys g' ((r, h) # hs))"
  using reach.step [OF assms(1) sys_step.arrive [of "demo_sys g hs" r 1 now ep rq g' h]] assms
  by (simp add: demo_sys_def)

lemma demo_move:
  assumes "reach 1 tr (demo_sys g hs)" and "map_of hs r = Some h" and "handler_step g h e g' h'"
    and "map_of hs' = (map_of hs)(r \<mapsto> h')"
  shows "reach 1 (tr @ [(r, e)]) (demo_sys g' hs')"
  using reach.step [OF assms(1) sys_step.move [of "demo_sys g hs" r h e g' h' 1]] assms
  by (simp add: demo_sys_def)

definition demo_trace :: "(nat \<times> event) list" where
  "demo_trace =
     [(0, Registered demo_cid), (0, Offered ''b1'' demo_env), (1, Internal),
      (1, OfferPolled ''b1'' demo_env), (2, Internal), (2, AnswerAccepted demo_answer)]"

abbreviation "demo_before \<equiv> demo_sys (demo_sig waiting1 [] [demo_answer])
  [(2, replied_done), (1, polled_done), (0, Awaiting OfferStyle demo_cid 0)]"

abbreviation "demo_after \<equiv> demo_sys (demo_sig Map.empty [] [])
  [(2, replied_done), (1, polled_done), (0, Done demo_resp)]"

lemma demo_offered:
  "length off < 16 \<Longrightarrow>
   handler_step (demo_sig w off ans) (Sending k b cid a 1 env) (Offered b env)
     (demo_sig w (off @ [env]) ans) (Awaiting k cid a)"
  using offer_step.send_ok [of "demo_sig w off ans" 1 env "\<lparr>chan_cap = 16, chan_buf = off @ [env]\<rparr>" k b cid a, THEN handler_step.of_offer]
  by (simp add: demo_sig_def chan_send_def)

lemma demo_polled:
  "handler_step (demo_sig w (env # off) ans) (Polling b 1) (OfferPolled b env)
     (demo_sig w off ans) (Done (writeJSON StatusOK (envelope_json env)))"
  using poll_step.poll_ok [of "demo_sig w (env # off) ans" 1 env "\<lparr>chan_cap = 16, chan_buf = off\<rparr>" b, THEN handler_step.of_poll]
  by (simp add: demo_sig_def chan_recv_def)

lemma demo_replied:
  "handler_step (demo_sig w off []) (Answering 0 env) (AnswerAccepted env)
     (demo_sig w off [env]) replied_done"
  using reply_step.reply_ok [of "demo_sig w off []" 0 env "\<lparr>chan_cap = 1, chan_buf = [env]\<rparr>", THEN handler_step.of_reply]
  by (simp add: demo_sig_def chan_send_def)

lemma demo_taken:
  "handler_step (demo_sig w off [env]) (Awaiting k cid 0) (AnswerTaken cid env)
     (demo_sig w off []) (Cleaning cid (answer_response k cid env))"
  using offer_step.answer_ok [of "demo_sig w off [env]" 0 env "\<lparr>chan_cap = 1, chan_buf = []\<rparr>" k cid, THEN handler_step.of_offer]
  by (simp add: demo_sig_def chan_recv_def)

lemma demo_cleaned:
  "handler_step (demo_sig waiting1 off ans) (Cleaning demo_cid r) Internal (demo_sig Map.empty off ans) (Done r)"
  using offer_step.cleanup [of "demo_sig waiting1 off ans" demo_cid r, THEN handler_step.of_offer]
  by (simp add: demo_sig_def)

text \<open>Until the answer waits in the client's channel.\<close>

lemma demo_before_reach: "reach 1 demo_trace demo_before"
proof -
  have "reach 1 [] (demo_sys new_signaling [])"
    using reach.start [of 1] by (simp add: demo_sys_def init_sys_def)
  then have "reach 1 ([] @ [(0, Registered demo_cid)])
      (demo_sys (demo_sig waiting1 [] []) [(0, Sending OfferStyle ''b1'' demo_cid 0 1 demo_env)])"
    by (rule demo_arrival [where ep = EOffer and rq = offer_rq and now = 100])
      (simp_all add: demo_arrive_offer)
  then have "reach 1 (([] @ [(0, Registered demo_cid)]) @ [(0, Offered ''b1'' demo_env)])
      (demo_sys (demo_sig waiting1 ([] @ [demo_env]) []) [(0, Awaiting OfferStyle demo_cid 0)])"
    by (rule demo_move [OF _ _ demo_offered]) simp_all
  then have "reach 1 ((([] @ [(0, Registered demo_cid)]) @ [(0, Offered ''b1'' demo_env)]) @ [(1, Internal)])
      (demo_sys (demo_sig waiting1 ([] @ [demo_env]) [])
        [(1, Polling ''b1'' 1), (0, Awaiting OfferStyle demo_cid 0)])"
    by (rule demo_arrival [where ep = EPoll and rq = poll_rq and now = 0])
      (simp_all add: demo_arrive_poll)
  then have "reach 1 (((([] @ [(0, Registered demo_cid)]) @ [(0, Offered ''b1'' demo_env)]) @ [(1, Internal)]) @
        [(1, OfferPolled ''b1'' demo_env)])
      (demo_sys (demo_sig waiting1 [] []) [(1, polled_done), (0, Awaiting OfferStyle demo_cid 0)])"
    unfolding append_Nil by (rule demo_move [OF _ _ demo_polled]) simp_all
  then have "reach 1 ((((([] @ [(0, Registered demo_cid)]) @ [(0, Offered ''b1'' demo_env)]) @ [(1, Internal)]) @
        [(1, OfferPolled ''b1'' demo_env)]) @ [(2, Internal)])
      (demo_sys (demo_sig waiting1 [] [])
        [(2, Answering 0 demo_answer), (1, polled_done), (0, Awaiting OfferStyle demo_cid 0)])"
    by (rule demo_arrival [where ep = EAnswer and rq = answer_rq and now = 0])
      (simp_all add: demo_arrive_answer)
  then have "reach 1 (((((([] @ [(0, Registered demo_cid)]) @ [(0, Offered ''b1'' demo_env)]) @ [(1, Internal)]) @
        [(1, OfferPolled ''b1'' demo_env)]) @ [(2, Internal)]) @ [(2, AnswerAccepted demo_answer)]) demo_before"
    by (rule demo_move [OF _ _ demo_replied]) auto
  then show ?thesis by (simp add: demo_trace_def)
qed

lemma demo_take_answer:
  "sys_step 1 demo_before (0, AnswerTaken demo_cid demo_answer)
     (demo_sys (demo_sig waiting1 [] []) [(2, replied_done), (1, polled_done), (0, Cleaning demo_cid demo_resp)])"
  using sys_step.move [of demo_before 0 "Awaiting OfferStyle demo_cid 0" "AnswerTaken demo_cid demo_answer"
      "demo_sig waiting1 [] []" "Cleaning demo_cid demo_resp" 1] demo_taken
  by (simp add: demo_sys_def fun_upd_twist)

lemma demo_after_run:
  "sys_run 1 demo_before [(0, AnswerTaken demo_cid demo_answer), (0, Internal)] demo_after"
proof -
  let ?s = "demo_sys (demo_sig waiting1 [] []) [(2, replied_done), (1, polled_done), (0, Cleaning demo_cid demo_resp)]"
  have "sys_step 1 ?s (0, Internal) demo_after"
    using sys_step.move [of ?s 0 "Cleaning demo_cid demo_resp" Internal "demo_sig Map.empty [] []" "Done demo_resp" 1]
      demo_cleaned by (simp add: demo_sys_def fun_upd_twist)
  from sys_run.run_on [OF sys_run_one [OF demo_take_answer] this] show ?thesis by simp
qed

lemma demo_after_reach:
  "reach 1 (demo_trace @ [(0, AnswerTaken demo_cid demo_answer), (0, Internal)]) demo_after"
  by (rule reach_run [OF demo_after_run demo_before_reach])

end
