(* ===== verification/Signaling_Leak.thy ===== *)
theory Signaling_Leak
  imports Signaling_Props
begin

text \<open>
  What happens to the table of waiting clients (\<open>pendingAnswers\<close> in
  \<open>cmd/chepherd-relay/main.go\<close>) when the offer queue of a bastion is full: the handlers
  \<open>signalingInitiate\<close> and \<open>signalingOffer\<close> return from their two-second timeout without the
  clean-up at their end, so the entry stays. An execution that reaches this is built here.
\<close>

text \<open>An offer for \<open>b1\<close> reaches the blocking send.\<close>

lemma offer_rq_start:
  "\<exists>g' a q env. signalingOffer pid now offer_rq g =
     (g', Sending OfferStyle ''b1'' (genClientID pid now) a q env)"
  by (auto simp: signalingOffer_def offer_decodes offer_method Let_def split: prod.splits)

lemma registered_append: "registered (xs @ ys) = registered xs @ registered ys"
  by (simp add: registered_def)

text \<open>
  The state after \<open>n\<close> abandoned offers to a bastion that does not poll: all handlers have
  returned, the queue holds \<open>n\<close> offers.
\<close>

definition abandoned :: "int \<Rightarrow> nat \<Rightarrow> (nat \<times> event) list \<Rightarrow> sys \<Rightarrow> bool" where
  "abandoned pid n tr s \<longleftrightarrow>
     reach pid tr s \<and> ran (live s) \<subseteq> range Done \<and> (\<forall>r. n \<le> r \<longrightarrow> live s r = None) \<and>
     length (queued_offers (sig s) ''b1'') = n \<and>
     registered tr = map (\<lambda>i. genClientID pid (int i)) [0..<n]"

text \<open>One more offer: it arrives and stands before the send.\<close>

lemma abandoned_arrive:
  assumes "abandoned pid n tr s"
  obtains g a q env where
    "reach pid (tr @ [(n, Registered (genClientID pid (int n)))])
       (s\<lparr>sig := g, live := (live s)(n \<mapsto> Sending OfferStyle ''b1'' (genClientID pid (int n)) a q env)\<rparr>)"
    and "sig_ok g" and "handler_ok g (Sending OfferStyle ''b1'' (genClientID pid (int n)) a q env)"
    and "queued_offers g ''b1'' = queued_offers (sig s) ''b1''"
proof -
  from assms have re: "reach pid tr s" and new: "live s n = None" by (auto simp: abandoned_def)
  obtain g a q env where
    st: "signalingOffer pid (int n) offer_rq (sig s) =
           (g, Sending OfferStyle ''b1'' (genClientID pid (int n)) a q env)"
    using offer_rq_start by metis
  have sig: "sig_ok (sig s)" using reach_shape [OF re] by (simp add: sys_ok_def)
  have "arrival_ok (sig s) g (Sending OfferStyle ''b1'' (genClientID pid (int n)) a q env)"
    using signalingOffer_arrival [OF sig st] .
  then have "sig_ok g" and "handler_ok g (Sending OfferStyle ''b1'' (genClientID pid (int n)) a q env)"
    and "queued_offers g ''b1'' = queued_offers (sig s) ''b1''"
    by (auto simp: arrival_ok_def same_queues_def)
  moreover have "sys_step pid s (n, start_event (Sending OfferStyle ''b1'' (genClientID pid (int n)) a q env))
      (s\<lparr>sig := g, live := (live s)(n \<mapsto> Sending OfferStyle ''b1'' (genClientID pid (int n)) a q env)\<rparr>)"
    by (rule sys_step.arrive [where ep = EOffer and rq = offer_rq and now = "int n"])
      (simp_all add: new st)
  ultimately show ?thesis
    using that [of a q env g] reach.step [OF re] by simp
qed

lemma move_reach:
  assumes "reach pid tr (s\<lparr>sig := g, live := (live s)(r \<mapsto> h)\<rparr>)" and "handler_step g h e g' h'"
  shows "reach pid (tr @ [(r, e)]) (s\<lparr>sig := g', live := (live s)(r \<mapsto> h')\<rparr>)"
  using reach.step [OF assms(1) sys_step.move [of _ r h e g' h']] assms(2) by simp

lemma abandoned_exists: "n \<le> 16 \<Longrightarrow> \<exists>tr s. abandoned pid n tr s"
proof (induction n)
  case 0
  have "queued_offers new_signaling ''b1'' = []"
    by (simp add: queued_offers_def new_signaling_def)
  then have "abandoned pid 0 [] init_sys"
    using reach.start [of pid] by (simp add: abandoned_def init_sys_def registered_def)
  then show ?case by blast
next
  case (Suc n)
  then obtain tr s where ab: "abandoned pid n tr s" by auto
  let ?cid = "genClientID pid (int n)"
  obtain g a q env where
    re: "reach pid (tr @ [(n, Registered ?cid)])
       (s\<lparr>sig := g, live := (live s)(n \<mapsto> Sending OfferStyle ''b1'' ?cid a q env)\<rparr>)"
    and sig: "sig_ok g" and hok: "handler_ok g (Sending OfferStyle ''b1'' ?cid a q env)"
    and queue: "queued_offers g ''b1'' = queued_offers (sig s) ''b1''"
    using abandoned_arrive [OF ab] .
  have q: "pendingOffers g ''b1'' = Some q" using hok by simp
  have "length (chan_buf (offer_chans g q)) < chan_cap (offer_chans g q)"
    using sig_okD(1) [OF sig q] queue queued_offers_Some [OF q] ab Suc.prems
    by (simp add: abandoned_def)
  then obtain c where c: "chan_send (offer_chans g q) env = Some c"
    by (simp add: chan_send_def)
  let ?g = "g\<lparr>offer_chans := (offer_chans g)(q := c)\<rparr>"
  have "step_ok g (Offered ''b1'' env) ?g (Awaiting OfferStyle ?cid a)"
    using offer_send_step [OF sig q c] hok by simp
  then have len: "length (queued_offers ?g ''b1'') = Suc n"
    using queue ab by (auto simp: step_ok_def abandoned_def dest: spec [of _ "''b1''"])
  note re1 = move_reach [OF re offer_step.send_ok [OF c, THEN handler_step.of_offer]]
  note re2 = move_reach [OF re1 offer_step.client_gone [THEN handler_step.of_offer]]
  note re3 = move_reach [OF re2 offer_step.cleanup [THEN handler_step.of_offer]]
  have "registered [(n, Registered ?cid), (n, Offered ''b1'' env), (n, Internal), (n, Internal)] = [?cid]"
    by (simp add: registered_def)
  then have "abandoned pid (Suc n)
      (tr @ [(n, Registered ?cid), (n, Offered ''b1'' env), (n, Internal), (n, Internal)])
      (s\<lparr>sig := ?g\<lparr>pendingAnswers := (pendingAnswers ?g)(?cid := None)\<rparr>,
         live := (live s)(n \<mapsto> Done nothing_written)\<rparr>)"
    using re3 len ab unfolding abandoned_def
    by (auto simp: registered_append ran_def subset_eq)
  then show ?case by blast
qed

text \<open>The seventeenth offer times out; its client stays in the table.\<close>

lemma seventeenth_offer:
  "\<exists>tr s. reach pid tr s \<and> distinct (registered tr) \<and> ran (live s) \<subseteq> range Done \<and>
          timed_out tr \<noteq> {}"
proof -
  obtain tr s where ab: "abandoned pid 16 tr s" using abandoned_exists [where n = 16 and pid = pid] by auto
  let ?cid = "genClientID pid 16"
  obtain g a q env where
    re: "reach pid (tr @ [(16, Registered ?cid)])
       (s\<lparr>sig := g, live := (live s)(16 \<mapsto> Sending OfferStyle ''b1'' ?cid a q env)\<rparr>)"
    and sig: "sig_ok g" and hok: "handler_ok g (Sending OfferStyle ''b1'' ?cid a q env)"
    and queue: "queued_offers g ''b1'' = queued_offers (sig s) ''b1''"
    using abandoned_arrive [OF ab, unfolded of_nat_numeral] .
  have q: "pendingOffers g ''b1'' = Some q" using hok by simp
  have "chan_send (offer_chans g q) env = None"
    using sig_okD(1) [OF sig q] queue queued_offers_Some [OF q] ab
    by (simp add: abandoned_def chan_send_def)
  note re1 = move_reach [OF re offer_step.send_timeout [OF this, THEN handler_step.of_offer]]
  let ?tr = "(tr @ [(16, Registered ?cid)]) @ [(16, SendTimedOut ?cid)]"
  let ?s = "s\<lparr>sig := g, live := (live s)(16 \<mapsto> Done (queue_full_response OfferStyle))\<rparr>"
  have "registered ?tr = map (\<lambda>i. genClientID pid (int i)) [0..<17]"
    using ab by (simp add: abandoned_def registered_append upt_conv_Cons_Cons) (simp add: registered_def numeral_eq_Suc)
  then have "distinct (registered ?tr)"
    by (simp add: distinct_map inj_on_def genClientID_inj del: upt_Suc)
  moreover have "ran (live ?s) \<subseteq> range Done"
    using ab by (auto simp: abandoned_def ran_def subset_eq)
  moreover have "timed_out ?tr \<noteq> {}" by (auto simp: timed_out_def)
  ultimately show ?thesis using re1 by blast
qed

section \<open>Refused on a full queue\<close>

definition was_full :: "(nat \<times> event) list \<Rightarrow> string \<Rightarrow> bool" where
  "was_full tr b \<longleftrightarrow> length (concat (map (\<lambda>x. put_offer (snd x) b) tr)) =
     length (concat (map (\<lambda>x. got_offer (snd x) b) tr)) + 16"

lemma blocked_send_full:
  assumes "reach pid tr s" and "live s r = Some (Sending k b cid a q env)" and "chan_send (offer_chans (sig s) q) env = None"
  shows "was_full tr b"
proof -
  have g: "sig_ok (sig s)" and "handler_ok (sig s) (Sending k b cid a q env)" and bal: "balanced tr s"
    using reach_shape [OF assms(1)] assms(2) unfolding sys_ok_def by blast+
  then have q: "pendingOffers (sig s) b = Some q" by simp
  have "length (queued_offers (sig s) b) = 16"
    using sig_okD(1) [OF g q] assms(3) by (auto simp: queued_offers_Some [OF q] chan_ok_def chan_send_def split: if_splits)
  with bal show ?thesis by (simp add: was_full_def balanced_def)
qed

lemma timed_out_step:
  assumes "reach pid tr s" and "sys_step pid s (r, SendTimedOut cid) s'"
  shows "(\<exists>k. live s' r = Some (Done (queue_full_response k))) \<and> (\<exists>b. was_full tr b)"
  using assms(2)
proof cases
  case (arrive now ep rq g h)
  then show ?thesis by (cases h) auto
next
  case (move h g h')
  from move(3) obtain q env k b a where "h = Sending k b cid a q env" "h' = Done (queue_full_response k)"
    and "chan_send (offer_chans (sig s) q) env = None" by cases auto
  moreover from this have "was_full tr b" using blocked_send_full [OF assms(1)] move(2) by simp
  ultimately show ?thesis using move(1) by auto
qed

lemma done_stays: "sys_step pid s e s' \<Longrightarrow> live s r = Some (Done resp) \<Longrightarrow> live s' r = Some (Done resp)"
  by (cases rule: sys_step.cases) auto

lemma refused_on_full_queue:
  "reach pid tr s \<Longrightarrow> (r, SendTimedOut cid) \<in> set tr \<Longrightarrow>
     (\<exists>k. live s r = Some (Done (queue_full_response k))) \<and>
     (\<exists>b tr1 tr2. tr = tr1 @ (r, SendTimedOut cid) # tr2 \<and>
       length (concat (map (\<lambda>x. put_offer (snd x) b) tr1)) =
       length (concat (map (\<lambda>x. got_offer (snd x) b) tr1)) + 16)"
proof (induction rule: reach.induct)
  case (step tr s e s')
  show ?case
  proof (cases "(r, SendTimedOut cid) \<in> set tr")
    case True
    from step.IH [OF this] done_stays [OF step.hyps(2)] show ?thesis by (metis append_Cons append_assoc)
  next
    case False
    with step.prems have e: "e = (r, SendTimedOut cid)" by auto
    from timed_out_step [OF step.hyps(1) step.hyps(2) [unfolded e]] show ?thesis
      unfolding e was_full_def by blast
  qed
qed simp

end
