(* ===== verification/Signaling_Theorems.thy ===== *)
theory Signaling_Theorems
  imports Signaling_Leak
begin

text \<open>
  The properties of the signaling rendezvous (\<open>cmd/chepherd-relay/main.go\<close>). They hold for
  every execution \<open>reach pid tr s\<close>: any number of requests, arriving at any time and
  interleaved in any order, with any timer firing that can fire.
\<close>

section \<open>A candidate posted and polled\<close>

definition cand_rq :: "unit request" where
  "cand_rq = demo_request ''POST'' []
     (json_print (JObj [(''bastion_id'', JStr ''b1''), (''candidate'', JStr ''host'')]))"

definition cands_rq :: "unit request" where
  "cands_rq = demo_request ''GET'' [(''bastion_id'', ''b1'')] []"

definition cand_sig :: "json list \<Rightarrow> signaling" where
  "cand_sig cands =
     \<lparr>pendingOffers = Map.empty, pendingAnswers = Map.empty, candidateQueues = [''b1'' \<mapsto> 0],
      offer_chans = (\<lambda>_. make_chan 0), answer_chans = (\<lambda>_. make_chan 0),
      cand_chans = (\<lambda>_. make_chan 0)(0 := \<lparr>chan_cap = 32, chan_buf = cands\<rparr>), next_chan = 1\<rparr>"

lemma cand_method: "rq_method cand_rq = ''POST''"
  by (simp add: cand_rq_def demo_request_def)

lemma cand_decodes:
  "decode_body cand_body_fields \<lparr>cb_BastionID = [], cb_Candidate = None\<rparr> cand_rq =
     Some \<lparr>cb_BastionID = ''b1'', cb_Candidate = Some (JStr ''host'')\<rparr>"
proof -
  have "literal_json (JObj [(''bastion_id'', JStr ''b1''), (''candidate'', JStr ''host'')])" by code_simp
  then show ?thesis by (simp add: cand_rq_def demo_request_decodes body_decoding)
qed

lemma cand_arrive_post:
  "signalingPostCandidate cand_rq new_signaling = (cand_sig [], Posting ''b1'' 0 (JStr ''host''))"
  by (simp add: signalingPostCandidate_def cand_decodes cand_method Let_def
      candidateQueueLocked_def new_signaling_def cand_sig_def make_chan_def)

lemma cand_arrive_poll:
  "signalingPollCandidates cands_rq (cand_sig xs) = (cand_sig xs, PollingCands ''b1'' 0)"
  by (simp add: signalingPollCandidates_def cands_rq_def demo_request_def query_get_def
      first_value_def candidateQueueLocked_def cand_sig_def Let_def)

lemma cand_posted:
  "handler_step (cand_sig []) (Posting p 0 x) (CandQueued p x) (cand_sig [x]) (Done (write_header StatusNoContent))"
  using post_step.post_ok [of "cand_sig []" 0 x "\<lparr>chan_cap = 32, chan_buf = [x]\<rparr>" p, THEN handler_step.of_post]
  by (simp add: cand_sig_def chan_send_def)

lemma cand_taken:
  "handler_step (cand_sig (x # xs)) (PollingCands p 0) (CandTaken p x) (cand_sig xs) (Draining p 0 [x])"
  using cands_step.cands_first [of "cand_sig (x # xs)" 0 x "\<lparr>chan_cap = 32, chan_buf = xs\<rparr>" p, THEN handler_step.of_cands]
  by (simp add: cand_sig_def chan_recv_def)

definition cand_trace :: "(nat \<times> event) list" where
  "cand_trace =
     [(0, Internal), (0, CandQueued ''b1'' (JStr ''host'')), (1, Internal),
      (1, CandTaken ''b1'' (JStr ''host''))]"

lemma cand_reach:
  "reach 1 cand_trace
     (demo_sys (cand_sig [])
        [(1, Draining ''b1'' 0 [JStr ''host'']), (0, Done (write_header StatusNoContent))])"
proof -
  have "reach 1 [] (demo_sys new_signaling [])"
    using reach.start [of 1] by (simp add: demo_sys_def init_sys_def)
  then have "reach 1 ([] @ [(0, Internal)])
      (demo_sys (cand_sig []) [(0, Posting ''b1'' 0 (JStr ''host''))])"
    by (rule demo_arrival [where ep = ECandidate and rq = cand_rq and now = 0])
      (simp_all add: cand_arrive_post)
  then have "reach 1 (([] @ [(0, Internal)]) @ [(0, CandQueued ''b1'' (JStr ''host''))])
      (demo_sys (cand_sig [JStr ''host'']) [(0, Done (write_header StatusNoContent))])"
    by (rule demo_move [OF _ _ cand_posted]) simp_all
  then have "reach 1 ((([] @ [(0, Internal)]) @ [(0, CandQueued ''b1'' (JStr ''host''))]) @ [(1, Internal)])
      (demo_sys (cand_sig [JStr ''host''])
        [(1, PollingCands ''b1'' 0), (0, Done (write_header StatusNoContent))])"
    by (rule demo_arrival [where ep = ECandidates and rq = cands_rq and now = 0])
      (simp_all add: cand_arrive_poll)
  then have "reach 1 (((([] @ [(0, Internal)]) @ [(0, CandQueued ''b1'' (JStr ''host''))]) @ [(1, Internal)]) @
        [(1, CandTaken ''b1'' (JStr ''host''))])
      (demo_sys (cand_sig [])
        [(1, Draining ''b1'' 0 [JStr ''host'']), (0, Done (write_header StatusNoContent))])"
    by (rule demo_move [OF _ _ cand_taken]) simp_all
  then show ?thesis by (simp add: cand_trace_def)
qed

section \<open>Properties\<close>

text \<open>
  C5: The offers for a bastion are delivered first-in first-out, none lost and none twice: the
  offers its polls have received so far, followed by those still queued, are exactly the offers
  that clients have sent to it, in order. Offers for one bastion never reach another.
\<close>

theorem offers_fifo_exactly_once:
  assumes "reach pid tr s"
  shows "concat (map (\<lambda>x. put_offer (snd x) b) tr) =
         concat (map (\<lambda>x. got_offer (snd x) b) tr) @ queued_offers (sig s) b"
  using reach_shape [OF assms] by (simp add: balanced_def)

theorem offers_fifo_exactly_once_witness:
  "concat (map (\<lambda>x. got_offer (snd x) ''b1'') demo_trace) = [demo_env] \<and>
   queued_offers (sig demo_before) ''b1'' = []"
proof -
  have "concat (map (\<lambda>x. put_offer (snd x) ''b1'') demo_trace) = [demo_env]"
    by (simp add: demo_trace_def)
  with offers_fifo_exactly_once [OF demo_before_reach, of "''b1''"] show ?thesis
    by (simp add: queued_offers_def demo_sys_def demo_sig_def)
qed

text \<open>
  C6: The same for trickled ICE candidates: for each peer, the candidates taken by polls and
  then those still queued are the candidates posted for that peer, in order.
\<close>

theorem candidates_fifo_exactly_once:
  assumes "reach pid tr s"
  shows "concat (map (\<lambda>x. put_cand (snd x) p) tr) =
         concat (map (\<lambda>x. got_cand (snd x) p) tr) @ queued_cands (sig s) p"
  using reach_shape [OF assms] by (simp add: balanced_def)

theorem candidates_fifo_exactly_once_witness:
  "concat (map (\<lambda>x. put_cand (snd x) ''b1'') cand_trace) = [JStr ''host'']"
  using candidates_fifo_exactly_once [OF cand_reach, of "''b1''"]
  by (simp add: queued_cands_def demo_sys_def cand_sig_def) (simp add: cand_trace_def)

text \<open>
  C7: An answer is delivered only to the client it names: when the waiting request of a client
  id takes an answer, the answer's peer is that client id, and the relay had accepted that
  answer from a request before.
\<close>

theorem answer_reaches_its_addressee:
  assumes "reach pid tr s" and "sys_step pid s (r, AnswerTaken cid env) s'"
  shows "Peer env = cid \<and> AnswerAccepted env \<in> snd ` set tr"
  using taken_answer_addressed [OF assms] by (simp add: accepted_def)

theorem answer_reaches_its_addressee_witness:
  "Peer demo_answer = demo_cid \<and> AnswerAccepted demo_answer \<in> snd ` set demo_trace"
  by (rule answer_reaches_its_addressee [OF demo_before_reach demo_take_answer])

text \<open>
  C8: What a request takes from a channel it writes to its own response, once: a finished
  request has taken nothing, or exactly one answer or one offer which is its response, or some
  candidates which, all of them and in order, are its response.
\<close>

theorem taken_is_written:
  assumes "reach pid tr s" and "live s r = Some (Done resp)"
  shows "nothing_taken (events_of r tr) \<or> answer_written (events_of r tr) resp \<or>
         offer_written (events_of r tr) resp \<or> cands_written (events_of r tr) resp"
  using progress_okD(2) [OF reach_progress [OF assms(1)] assms(2)] by simp

theorem taken_is_written_witness:
  "answer_written (events_of 0 (demo_trace @ [(0, AnswerTaken demo_cid demo_answer), (0, Internal)])) demo_resp"
proof -
  have "live demo_after 0 = Some (Done demo_resp)" by (simp add: demo_sys_def)
  from taken_is_written [OF demo_after_reach this] show ?thesis
    by (auto simp: nothing_taken_def offer_written_def cands_written_def events_of_def demo_trace_def)
qed

text \<open>
  C12: Every request ends, even when its caller stays and nobody else acts. From every moment of
  every execution a request comes to its end by steps of its own of which none is the loss of
  its caller: when the value or the room it waits for is not there, a timer ends the wait. All
  its runs by itself, draining a candidate queue included, have at most 33 steps. And among
  all others it makes at most four steps, and one for each candidate posted in the execution.
\<close>

theorem every_request_ends:
  assumes "reach pid tr s" and "live s r = Some h"
  shows "(\<exists>n g' resp. n \<le> 33 \<and> patient_run (sig s) h n g' (Done resp)) \<and>
         (\<forall>n g' h'. own_run (sig s) h n g' h' \<longrightarrow> n \<le> 33) \<and>
         length (events_of r tr) \<le> 4 + length (cands_posted (map snd tr))"
proof -
  have "sig_ok (sig s)" "handler_ok (sig s) h"
    using reach_shape [OF assms(1)] assms(2) by (auto simp: sys_ok_def)
  from work_bounded [OF this] have own: "n \<le> 33" if "own_run (sig s) h n g' h'" for n g' h'
    using own_run_work [OF that] by simp
  obtain n g' resp where "patient_run (sig s) h n g' (Done resp)" using patient_run_ends by blast
  with own patient_own own_steps_bounded [OF assms] show ?thesis by blast
qed

theorem every_request_ends_witness:
  "\<exists>n g' resp. n \<le> 33 \<and> patient_run (sig demo_before) (Awaiting OfferStyle demo_cid 0) n g' (Done resp)"
proof -
  have "live demo_before 0 = Some (Awaiting OfferStyle demo_cid 0)" by (simp add: demo_sys_def)
  from every_request_ends [OF demo_before_reach this] show ?thesis by blast
qed

text \<open>
  C27: The buffers stay within what \<open>make\<close> gave them: at most 16 offers for a bastion, 32
  candidates for a peer, and one answer for a client.
\<close>

theorem buffers_bounded:
  assumes "reach pid tr s"
  shows "length (queued_offers (sig s) b) \<le> 16 \<and> length (queued_cands (sig s) p) \<le> 32 \<and>
         length (chan_buf (answer_chans (sig s) a)) \<le> 1"
proof -
  have g: "sig_ok (sig s)" using reach_shape [OF assms] by (simp add: sys_ok_def)
  have "length (queued_offers (sig s) b) \<le> 16"
    using sig_okD(1) [OF g, of b] by (auto simp: queued_offers_def chan_ok_def split: option.splits)
  moreover have "length (queued_cands (sig s) p) \<le> 32"
    using sig_okD(2) [OF g, of p] by (auto simp: queued_cands_def chan_ok_def split: option.splits)
  moreover have "length (chan_buf (answer_chans (sig s) a)) \<le> 1"
    using sig_okD(6,7) [OF g, of a] by (simp add: chan_ok_def)
  ultimately show ?thesis by blast
qed

theorem buffers_bounded_witness:
  "length (chan_buf (answer_chans (sig demo_before) 0)) = 1 \<and>
   length (queued_offers (sig demo_before) ''b1'') \<le> 16"
  using buffers_bounded [OF demo_before_reach, of "''b1''" "''b1''" 0]
  by (simp add: demo_sys_def demo_sig_def)

text \<open>
  C26: The table of waiting clients, exactly, in every execution in which no client id was drawn
  twice (the ids are clock readings, so this is not given): the ids in \<open>pendingAnswers\<close> are those
  of the offer requests still running, and those of all requests that ever timed out on a full
  offer queue.
\<close>

theorem pending_answers_accounting:
  assumes "reach pid tr s" and "distinct (registered tr)"
  shows "dom (pendingAnswers (sig s)) = live_clients s \<union> timed_out tr"
  by (rule clients_okD(5) [OF reach_clients [OF assms]])

theorem pending_answers_accounting_witness:
  "live_clients demo_after \<union> timed_out (demo_trace @ [(0, AnswerTaken demo_cid demo_answer), (0, Internal)]) = {}"
proof -
  have "distinct (registered (demo_trace @ [(0, AnswerTaken demo_cid demo_answer), (0, Internal)]))"
    by (simp add: registered_def demo_trace_def)
  from pending_answers_accounting [OF demo_after_reach this] show ?thesis
    by (simp add: demo_sys_def demo_sig_def)
qed

text \<open>
  C36: The leak in that table, for ever: when an offer has timed out on a full queue (the bastion had
  taken sixteen offers fewer than were put), its request is answered with 503 and the entry of
  its client is in \<open>pendingAnswers\<close> at every later moment of every execution in which no
  client id is drawn twice.
\<close>

theorem full_queue_leaks_client_entry:
  assumes "reach pid tr s" and "(r, SendTimedOut cid) \<in> set tr" and "distinct (registered tr)"
  shows "pendingAnswers (sig s) cid \<noteq> None \<and> (\<exists>k. live s r = Some (Done (queue_full_response k))) \<and>
    (\<exists>b tr1 tr2. tr = tr1 @ (r, SendTimedOut cid) # tr2 \<and>
       length (concat (map (\<lambda>x. put_offer (snd x) b) tr1)) =
       length (concat (map (\<lambda>x. got_offer (snd x) b) tr1)) + 16)"
proof -
  have "cid \<in> timed_out tr" using assms(2) by (force simp: timed_out_def)
  with clients_okD(5) [OF reach_clients [OF assms(1,3)]] have "pendingAnswers (sig s) cid \<noteq> None" by blast
  with refused_on_full_queue [OF assms(1,2)] show ?thesis by blast
qed

text \<open>Seventeen offers to a bastion that does not poll: all requests have ended, and the entry is there.\<close>

theorem full_queue_leaks_client_entry_witness:
  "\<exists>tr s cid. reach 1 tr s \<and> ran (live s) \<subseteq> range Done \<and> pendingAnswers (sig s) cid \<noteq> None"
proof -
  obtain tr s where re: "reach 1 tr s" "distinct (registered tr)" and ends: "ran (live s) \<subseteq> range Done"
    and "timed_out tr \<noteq> {}" using seventeenth_offer [of 1] by blast
  then obtain r cid where "(r, SendTimedOut cid) \<in> set tr" by (auto simp: timed_out_def)
  from full_queue_leaks_client_entry [OF re(1) this re(2)] re(1) ends show ?thesis by blast
qed

text \<open>
  C28: A client that waits can be answered, as long as no client id was drawn twice: a well-formed
  answer that names its id is routed to the very channel the client's request is waiting on,
  whatever other requests are going on. (Two offers with the same id break this, see
  \<open>same_clock_reading_steals_answers\<close>.)
\<close>

theorem waiting_client_is_routed:
  assumes "reach pid tr s" and "distinct (registered tr)"
    and "live s r = Some (Awaiting k cid a)"
    and "rq_method rq = ''POST''" and "decode_body envelope_fields zero_envelope rq = Some env"
    and "Peer env = cid" and "cid \<noteq> []"
  shows "signalingAnswer rq (sig s) = (sig s, Answering a env)"
proof -
  have "pendingAnswers (sig s) cid = Some a"
    using clients_okD(4) [OF reach_clients [OF assms(1,2)] assms(3)] by simp
  with assms(4-) show ?thesis by (simp add: signalingAnswer_def)
qed

theorem waiting_client_is_routed_witness:
  "signalingAnswer answer_rq (sig demo_before) = (sig demo_before, Answering 0 demo_answer)"
proof (rule waiting_client_is_routed [OF demo_before_reach])
  show "distinct (registered demo_trace)" by (simp add: registered_def demo_trace_def)
  show "live demo_before 0 = Some (Awaiting OfferStyle demo_cid 0)" by (simp add: demo_sys_def)
  show "rq_method answer_rq = ''POST''" by (simp add: answer_rq_def demo_request_def)
  show "decode_body envelope_fields zero_envelope answer_rq = Some demo_answer"
    by (rule answer_decodes)
  show "Peer demo_answer = demo_cid" by (simp add: demo_answer_def)
  show "demo_cid \<noteq> []" by (rule demo_cid_not_Nil)
qed

text \<open>
  Two offers that read the same clock value get the same client id, and the later one takes
  over its table entry: the answer channel of the earlier request is no longer the one that
  answers are routed to.
\<close>

theorem same_clock_reading_steals_answers:
  assumes "sig_ok g"
    and "signalingOffer pid now rq1 g = (g1, Sending k1 b1 cid1 a1 q1 env1)"
    and "signalingOffer pid now rq2 g1 = (g2, Sending k2 b2 cid2 a2 q2 env2)"
  shows "cid1 = cid2 \<and> a1 \<noteq> a2 \<and> pendingAnswers g2 cid1 = Some a2"
proof -
  have ids: "cid1 = genClientID pid now" "cid2 = genClientID pid now"
    using assms(2,3) by (auto simp: signalingOffer_def Let_def split: if_splits option.splits prod.splits)
  have one: "arrival_ok g g1 (Sending k1 b1 cid1 a1 q1 env1)"
    by (rule signalingOffer_arrival [OF assms(1,2)])
  then have "sig_ok g1" and "a1 < next_chan g1" by (auto simp: arrival_ok_def)
  from signalingOffer_arrival [OF this(1) assms(3)] \<open>a1 < next_chan g1\<close> ids show ?thesis
    by (auto simp: arrival_ok_def)
qed

theorem same_clock_reading_steals_answers_witness:
  "pendingAnswers (fst (signalingOffer 1 100 offer_rq (fst (signalingOffer 1 100 offer_rq new_signaling))))
     demo_cid = Some 2"
proof -
  have two: "signalingOffer 1 100 offer_rq (demo_sig waiting1 [] []) =
     (fst (signalingOffer 1 100 offer_rq (demo_sig waiting1 [] [])), Sending OfferStyle ''b1'' demo_cid 2 1 demo_env)"
    by (simp add: signalingOffer_def offer_decodes offer_method Let_def
      register_client_def offer_queue_def demo_sig_def demo_cid_def [symmetric] demo_env_def)
  from same_clock_reading_steals_answers [OF sig_ok_new demo_arrive_offer two] show ?thesis
    by (simp add: demo_arrive_offer)
qed

end
