(* ===== verification/Json_Wire.thy ===== *)
theory Json_Wire
  imports Http_Model
begin

text \<open>
  What a reader of the relay's responses gets, and what the relay's own readers make of a body:
  the values written by \<open>writeJSON\<close> are well-formed, they can be read back exactly when they are
  not nested too deeply, and a struct decoded from a body holds well-formed values and valid
  UTF-8 strings.
\<close>

section \<open>Written values\<close>

lemma wf_jstr [simp]: "wf_json (jstr s)" "jdepth (jstr s) = 0"
  by (simp_all add: jstr_def lit_ok_json_quote)

lemma wf_jint [simp]: "wf_json (jint i)" "jdepth (jint i) = 0"
  by (simp_all add: jint_def num_ok_show_int)

lemma esc_jstr: "esc_json (jstr s) = JStr (html_escape (json_quote s))"
  by (simp add: jstr_def)

lemma dec_string_esc: "dec_string old (esc_json (jstr s)) = Some (to_valid s)"
  using unquote_json_quote [of s "[]"] by (simp add: esc_jstr unquote_html_escape lit_ok_json_quote)

lemma plain_key: "\<forall>c \<in> set k. plain_char c \<and> untouched c \<Longrightarrow> lit_ok k \<and> unquote k = k \<and> html_escape k = k"
  using html_untouched_app [of k "[]"] by (simp add: lit_ok_plain unquote_plain)

section \<open>Values nested too deeply\<close>

lemma read_toks_deep:
  "maxNestingDepth < jdepth v + length st \<Longrightarrow> length st \<le> maxNestingDepth \<Longrightarrow>
     read_value NeedValue st (toks v @ ts) = None"
  "\<exists>w \<in> set vs. maxNestingDepth < jdepth w + Suc (length st) \<Longrightarrow> Suc (length st) \<le> maxNestingDepth \<Longrightarrow>
     read_value (After v') (FArr us # st) (elem_toks vs @ ts) = None"
  "\<exists>kv \<in> set kvs. maxNestingDepth < jdepth (snd kv) + Suc (length st) \<Longrightarrow> Suc (length st) \<le> maxNestingDepth \<Longrightarrow>
     read_value (After v') (FObj ms k # st) (member_toks kvs @ ts) = None"
proof (induction v and vs and kvs arbitrary: st ts and v' us st ts and v' ms k st ts
    rule: toks_elem_toks_member_toks.induct)
  case (3 v vs)
  have deep: "\<exists>w \<in> set (v # vs). maxNestingDepth < jdepth w + Suc (length st)"
    if "length st < maxNestingDepth"
    using depth_arr [of "v # vs" "length st"] 3(3) that
    by (simp add: not_le [symmetric] del: jdepth.simps)
  show ?case
  proof (cases "length st < maxNestingDepth")
    case False
    then show ?thesis by (simp add: finished_value_def push_frame_def)
  next
    case True
    have "read_value NeedValue st (toks (JArr (v # vs)) @ ts) =
        read_value NeedValue (FArr [] # st) (toks v @ elem_toks vs @ TEndArr # ts)"
      using True by (simp add: finished_value_def push_frame_def read_first_elem)
    also have "\<dots> = None"
    proof (cases "maxNestingDepth < jdepth v + Suc (length st)")
      case True
      then show ?thesis using 3(1) [of "FArr [] # st"] \<open>length st < maxNestingDepth\<close> by simp
    next
      case False
      then have "\<exists>w \<in> set vs. maxNestingDepth < jdepth w + Suc (length st)" using deep [OF True] by auto
      then show ?thesis
        using read_toks(1) [of v "FArr [] # st"] 3(2) [of st v "[]"] False True by simp
    qed
    finally show ?thesis .
  qed
next
  case (5 k v kvs)
  have deep: "\<exists>kv \<in> set ((k, v) # kvs). maxNestingDepth < jdepth (snd kv) + Suc (length st)"
    if "length st < maxNestingDepth"
    using depth_obj [of "(k, v) # kvs" "length st"] 5(3) that
    by (simp add: not_le [symmetric] del: jdepth.simps)
  show ?case
  proof (cases "length st < maxNestingDepth")
    case False
    then show ?thesis by (simp add: finished_value_def push_frame_def)
  next
    case True
    have "read_value NeedValue st (toks (JObj ((k, v) # kvs)) @ ts) =
        read_value NeedValue (FObj [] k # st) (toks v @ member_toks kvs @ TEndObj # ts)"
      using True by (simp add: finished_value_def push_frame_def)
    also have "\<dots> = None"
    proof (cases "maxNestingDepth < jdepth v + Suc (length st)")
      case True
      then show ?thesis using 5(1) [of "FObj [] k # st"] \<open>length st < maxNestingDepth\<close> by simp
    next
      case False
      then have "\<exists>kv \<in> set kvs. maxNestingDepth < jdepth (snd kv) + Suc (length st)" using deep [OF True] by auto
      then show ?thesis
        using read_toks(1) [of v "FObj [] k # st"] 5(2) [of st v "[]" k] False True by simp
    qed
    finally show ?thesis .
  qed
next
  case (8 v vs)
  have "read_value (After v') (FArr us # st) (elem_toks (v # vs) @ ts) =
      read_value NeedValue (FArr (v' # us) # st) (toks v @ elem_toks vs @ ts)"
    by (simp add: finished_value_def)
  also have "\<dots> = None"
  proof (cases "maxNestingDepth < jdepth v + Suc (length st)")
    case True
    then show ?thesis using 8(1) [of "FArr (v' # us) # st"] 8(4) by simp
  next
    case False
    then have "\<exists>w \<in> set vs. maxNestingDepth < jdepth w + Suc (length st)" using 8(3) by auto
    then show ?thesis using read_toks(1) [of v "FArr (v' # us) # st"] 8(2) [of st v "v' # us"] 8(4) False by simp
  qed
  finally show ?case .
next
  case (10 k2 v kvs)
  have "read_value (After v') (FObj ms k # st) (member_toks ((k2, v) # kvs) @ ts) =
      read_value NeedValue (FObj ((k, v') # ms) k2 # st) (toks v @ member_toks kvs @ ts)"
    by (simp add: finished_value_def)
  also have "\<dots> = None"
  proof (cases "maxNestingDepth < jdepth v + Suc (length st)")
    case True
    then show ?thesis using 10(1) [of "FObj ((k, v') # ms) k2 # st"] 10(4) by simp
  next
    case False
    then have "\<exists>kv \<in> set kvs. maxNestingDepth < jdepth (snd kv) + Suc (length st)" using 10(3) by auto
    then show ?thesis
      using read_toks(1) [of v "FObj ((k, v') # ms) k2 # st"] 10(2) [of st v "(k, v') # ms" k2] 10(4) False by simp
  qed
  finally show ?case .
qed (auto simp: finished_value_def push_frame_def)

text \<open>A written value can be read back exactly when it is not nested too deeply.\<close>

lemma Decode_print_iff:
  assumes "wf_json v" "num_stop u"
  shows "json_Decode (json_print v @ u) = (if jdepth v \<le> maxNestingDepth then Some (esc_json v) else None)"
  using Decode_print [OF assms(1) _ assms(2)] read_toks_deep(1) [of "esc_json v" "[]" "jlex u"]
    jlex_print(1) [OF assms]
  by (auto simp: json_Decode_def not_le)

text \<open>What the reader of a response makes of its body.\<close>

definition read_response :: "response \<Rightarrow> json option" where
  "read_response resp = json_Decode (body_text (rbody resp))"

lemma newline_stops: "num_stop [char_of (10 :: nat)]"
  by (simp add: num_stop_def is_digit_def octet_def) (simp add: char_of_def)

lemma read_writeJSON:
  "wf_json v \<Longrightarrow> read_response (writeJSON st v) = (if jdepth v \<le> maxNestingDepth then Some (esc_json v) else None)"
  by (simp add: read_response_def body_text_def Decode_print_iff newline_stops)

section \<open>Decoded structs\<close>

text \<open>
  A property of a struct that every field decoder keeps, given a well-formed value below the
  top, holds of what is decoded.
\<close>

definition raw_ok :: "json \<Rightarrow> bool" where
  "raw_ok j \<longleftrightarrow> wf_json j \<and> jdepth j < maxNestingDepth"

definition keeps :: "('r \<Rightarrow> bool) \<Rightarrow> 'r field_spec list \<Rightarrow> bool" where
  "keeps P fs \<longleftrightarrow> (\<forall>(n, f) \<in> set fs. \<forall>r j r'. P r \<longrightarrow> raw_ok j \<longrightarrow> f r j = Some r' \<longrightarrow> P r')"

lemma find_field_mem: "find_field fs k = Some f \<Longrightarrow> \<exists>n. (n, f) \<in> set fs"
  by (auto simp: find_field_def find_Some_iff map_of_SomeD split: option.splits dest!: map_of_SomeD)
    (metis nth_mem surj_pair snd_conv)+

lemma dec_members_keeps:
  "keeps P fs \<Longrightarrow> P r \<Longrightarrow> \<forall>kv \<in> set kvs. raw_ok (snd kv) \<Longrightarrow> dec_members fs r kvs = Some r' \<Longrightarrow> P r'"
proof (induction fs r kvs rule: dec_members.induct)
  case (2 fs r k j kvs)
  show ?case
  proof (cases "find_field fs (unquote k)")
    case None
    with 2 show ?thesis by simp
  next
    case (Some f)
    with 2(6) obtain r1 where r1: "f r j = Some r1" "dec_members fs r1 kvs = Some r'"
      by (auto split: option.splits)
    obtain n where "(n, f) \<in> set fs" using find_field_mem [OF Some] by blast
    then have "P r1" using 2(3,4,5) r1(1) unfolding keeps_def by fastforce
    with 2(2) [OF Some r1(1) 2(3)] 2(5) r1(2) show ?thesis by simp
  qed
qed simp

lemma decode_body_keeps:
  assumes "keeps P fs" "P z" "decode_body fs z rq = Some r"
  shows "P r"
proof -
  obtain j where j: "json_Decode (rq_body rq) = Some j" "dec_struct fs z j = Some r"
    using assms(3) by (auto simp: decode_body_def split: option.splits)
  then have wf: "wf_json j" "jdepth j \<le> maxNestingDepth" using Decode_wf by blast+
  show ?thesis
  proof (cases j)
    case (JObj kvs)
    have "raw_ok (snd kv)" if "kv \<in> set kvs" for kv
      using wf depth_obj [of kvs 0] that
      by (auto simp: raw_ok_def JObj list_all_iff pred_prod_beta simp del: jdepth.simps)
    then have "\<forall>kv \<in> set kvs. raw_ok (snd kv)" by blast
    moreover have "dec_members fs z kvs = Some r" using j(2) JObj by simp
    ultimately show ?thesis using dec_members_keeps [OF assms(1,2)] by blast
  qed (use j(2) assms(2) in auto)
qed

lemma dec_string_valid: "dec_string old j = Some s \<Longrightarrow> valid_utf8 old \<Longrightarrow> valid_utf8 s"
  by (cases j) (auto simp: unquote_valid)

lemma keeps_fld:
  assumes "\<And>r j x. P r \<Longrightarrow> raw_ok j \<Longrightarrow> d (getf r) j = Some x \<Longrightarrow> P (upd (\<lambda>_. x) r)"
  shows "\<forall>r j r'. P r \<longrightarrow> raw_ok j \<longrightarrow> snd (fld n getf upd d) r j = Some r' \<longrightarrow> P r'"
  using assms by (auto simp: fld_def)

lemma keeps_Cons: "keeps P (f # fs) \<longleftrightarrow>
    (\<forall>r j r'. P r \<longrightarrow> raw_ok j \<longrightarrow> snd f r j = Some r' \<longrightarrow> P r') \<and> keeps P fs"
  by (cases f) (simp add: keeps_def)

lemma keeps_Nil: "keeps P []"
  by (simp add: keeps_def)

end
