(* ===== verification/Signaling_Json.thy ===== *)
theory Signaling_Json
  imports Signaling_Theorems Json_Wire
begin

text \<open>
  The values that travel through the signaling rendezvous: every value that the process stores
  or is about to write was read from some body, so it is well-formed and not nested to the limit,
  and every peer name is valid UTF-8. Hence what a bastion or a client reads from a response is
  the value that was posted.
\<close>

section \<open>The values in the process\<close>

definition env_ok :: "envelope \<Rightarrow> bool" where
  "env_ok e \<longleftrightarrow> valid_utf8 (Peer e) \<and> pred_option raw_ok (SDP e) \<and> pred_option raw_ok (ICE e)"

definition candidates_json :: "json list \<Rightarrow> time \<Rightarrow> json" where
  "candidates_json out now = JObj
     [(''candidates'', if out = [] then JNull else JArr out), (''cursor'', jstr (''ts-'' @ show_int now))]"

text \<open>
  A JSON body is well-formed and nested at most to the limit, so that it can be read back, unless
  it is a list of candidates, which may be one level deeper.
\<close>

definition resp_ok :: "response \<Rightarrow> bool" where
  "resp_ok r \<longleftrightarrow>
     (case rbody r of
        JsonBody j \<Rightarrow> wf_json j \<and>
          (jdepth j \<le> maxNestingDepth \<or>
           jdepth j = Suc maxNestingDepth \<and> (\<exists>out now. j = candidates_json out now \<and> list_all raw_ok out))
      | _ \<Rightarrow> True)"

fun handler_vals :: "handler \<Rightarrow> bool" where
  "handler_vals (Sending k b cid a q env) \<longleftrightarrow> env_ok env \<and> valid_utf8 cid"
| "handler_vals (Awaiting k cid a) \<longleftrightarrow> valid_utf8 cid"
| "handler_vals (Cleaning cid r) \<longleftrightarrow> resp_ok r"
| "handler_vals (Polling b q) \<longleftrightarrow> True"
| "handler_vals (Answering a env) \<longleftrightarrow> env_ok env"
| "handler_vals (Posting p q x) \<longleftrightarrow> raw_ok x"
| "handler_vals (PollingCands p q) \<longleftrightarrow> True"
| "handler_vals (Draining p q out) \<longleftrightarrow> list_all raw_ok out"
| "handler_vals (Done r) \<longleftrightarrow> resp_ok r"

definition sig_vals :: "signaling \<Rightarrow> bool" where
  "sig_vals g \<longleftrightarrow>
     (\<forall>q. list_all env_ok (chan_buf (offer_chans g q))) \<and>
     (\<forall>a. list_all env_ok (chan_buf (answer_chans g a))) \<and>
     (\<forall>q. list_all raw_ok (chan_buf (cand_chans g q)))"

definition sys_vals :: "sys \<Rightarrow> bool" where
  "sys_vals s \<longleftrightarrow> sig_vals (sig s) \<and> (\<forall>r h. live s r = Some h \<longrightarrow> handler_vals h)"

lemma raw_ok_esc: "raw_ok j \<Longrightarrow> raw_ok (esc_json j) \<and> value_of (esc_json j) = value_of j"
  by (simp add: raw_ok_def wf_esc value_of_esc)

lemma raw_ok_jraw: "pred_option raw_ok r \<Longrightarrow> raw_ok (jraw r)"
  by (cases r) (simp_all add: jraw_def raw_ok_def)

lemma ascii_show_int: "\<forall>c \<in> set (show_int i). octet c < 128"
proof -
  have "octet c < 128" if "c \<in> set (show_nat n)" for c n
    using show_nat_digits [OF that] by (auto simp: dec_digit_def octet_char_of)
  then show ?thesis by (auto simp: show_int_def octet_def)
qed

lemma valid_genClientID: "valid_utf8 (genClientID pid now)"
  by (rule valid_ascii_text) (use ascii_show_int in \<open>auto simp: genClientID_def octet_def\<close>)

subsection \<open>Reading a body\<close>

lemma keeps_envelope: "keeps env_ok envelope_fields"
  unfolding envelope_fields_def keeps_Cons
  by (intro conjI keeps_fld keeps_Nil) (auto simp: env_ok_def dec_raw_def dest: dec_string_valid)

definition offer_body_ok :: "offer_body \<Rightarrow> bool" where
  "offer_body_ok b \<longleftrightarrow> valid_utf8 (ob_BastionID b) \<and> pred_option raw_ok (ob_Offer b)"

lemma keeps_offer: "keeps offer_body_ok offer_body_fields"
  unfolding offer_body_fields_def keeps_Cons
  by (intro conjI keeps_fld keeps_Nil) (auto simp: offer_body_ok_def dec_raw_def dest: dec_string_valid)

definition cand_body_ok :: "cand_body \<Rightarrow> bool" where
  "cand_body_ok b \<longleftrightarrow> valid_utf8 (cb_BastionID b) \<and> pred_option raw_ok (cb_Candidate b)"

lemma keeps_cand: "keeps cand_body_ok cand_body_fields"
  unfolding cand_body_fields_def keeps_Cons
  by (intro conjI keeps_fld keeps_Nil) (auto simp: cand_body_ok_def dec_raw_def dest: dec_string_valid)

lemma decoded_ok:
  "decode_body envelope_fields zero_envelope rq = Some env \<Longrightarrow> env_ok env"
  "decode_body offer_body_fields \<lparr>ob_BastionID = [], ob_Offer = None\<rparr> rq = Some ob \<Longrightarrow> offer_body_ok ob"
  "decode_body cand_body_fields \<lparr>cb_BastionID = [], cb_Candidate = None\<rparr> rq = Some cb \<Longrightarrow> cand_body_ok cb"
  using decode_body_keeps [OF keeps_envelope, of zero_envelope rq env]
    decode_body_keeps [OF keeps_offer, of "\<lparr>ob_BastionID = [], ob_Offer = None\<rparr>" rq ob]
    decode_body_keeps [OF keeps_cand, of "\<lparr>cb_BastionID = [], cb_Candidate = None\<rparr>" rq cb]
  by (simp_all add: env_ok_def offer_body_ok_def cand_body_ok_def zero_envelope_def)

subsection \<open>Writing a response\<close>

lemma resp_ok_simps [simp]:
  "resp_ok (http_error m c)" "resp_ok (write_header c)" "resp_ok nothing_written"
  "resp_ok (queue_full_response k)" "resp_ok no_answer_response"
  by (simp_all add: resp_ok_def http_error_def write_header_def nothing_written_def
      queue_full_response_def no_answer_response_def split: flavour.split)

lemma keys_ok: "lit_ok ''peer''" "lit_ok ''sdp''" "lit_ok ''ice''" "lit_ok ''answer''" "lit_ok ''client_id''"
  "lit_ok ''candidates''" "lit_ok ''cursor''" "lit_ok ''status''"
  by (simp_all add: lit_ok_plain plain_char_def octet_def)

lemma envelope_json_ok:
  assumes "env_ok e" shows "wf_json (envelope_json e)" "jdepth (envelope_json e) \<le> maxNestingDepth"
proof -
  have "raw_ok (jraw (SDP e))" "pred_option raw_ok (ICE e)" using assms raw_ok_jraw by (auto simp: env_ok_def)
  then show "wf_json (envelope_json e)" "jdepth (envelope_json e) \<le> maxNestingDepth"
    by (cases "ICE e"; simp add: envelope_json_def keys_ok raw_ok_def)+
qed

lemma resp_ok_envelope: "env_ok e \<Longrightarrow> resp_ok (writeJSON st (envelope_json e))"
  using envelope_json_ok [of e] by (simp add: resp_ok_def)

lemma resp_ok_answer: "env_ok ans \<Longrightarrow> resp_ok (answer_response k cid ans)"
  using resp_ok_envelope [of ans] raw_ok_jraw [of "SDP ans"]
  by (auto simp: answer_response_def resp_ok_def raw_ok_def env_ok_def keys_ok split: flavour.split)

lemma resp_ok_status: "resp_ok (writeJSON st (JObj [(''status'', jstr s)]))"
  by (simp add: resp_ok_def keys_ok)

lemma candidates_response_json: "candidates_response out now = writeJSON StatusOK (candidates_json out now)"
  by (simp add: candidates_response_def candidates_json_def)

lemma candidates_json_wf: "list_all wf_json out \<Longrightarrow> wf_json (candidates_json out now)"
  by (simp add: candidates_json_def keys_ok)

lemma candidates_json_depth:
  assumes "Suc 0 \<le> n"
  shows "jdepth (candidates_json out now) \<le> Suc n \<longleftrightarrow> list_all (\<lambda>c. Suc (jdepth c) \<le> n) out"
proof (cases "out = []")
  case False
  then show ?thesis
    using assms depth_le [of jdepth out "n - 1"]
    by (auto simp: candidates_json_def list_all_iff max_def Suc_le_eq)
qed (use assms in \<open>simp add: candidates_json_def\<close>)

lemma resp_ok_candidates: "list_all raw_ok out \<Longrightarrow> resp_ok (candidates_response out now)"
  using candidates_json_wf [of out now] candidates_json_depth [of maxNestingDepth out now]
  by (auto simp: candidates_response_json resp_ok_def list_all_iff raw_ok_def Suc_le_eq le_Suc_eq)

section \<open>Every step keeps them\<close>

lemma sig_vals_new: "sig_vals new_signaling"
  by (simp add: sig_vals_def new_signaling_def)

lemma sig_vals_sections:
  assumes "sig_vals g"
  shows "sig_vals (fst (offer_queue g b))" "sig_vals (fst (candidateQueueLocked g b))"
    "sig_vals (fst (register_client g cid))" "sig_vals (forget_client g cid)"
  using assms
  by (auto simp: sig_vals_def offer_queue_def candidateQueueLocked_def register_client_def Let_def split: option.split)

lemma offer_start_vals:
  assumes "sig_vals g" "register_client g cid = (s1, a)" "offer_queue s1 b = (s2, q)"
  shows "sig_vals s2"
  using sig_vals_sections(3) [OF assms(1), of cid] sig_vals_sections(1) [of s1 b] assms(2,3) by simp

lemma start_handler_vals:
  assumes "sig_vals g" "start_handler pid now ep rq g = (g', h)"
  shows "sig_vals g' \<and> handler_vals h"
proof (cases ep)
  case EInitiate
  with assms show ?thesis
    using decoded_ok(1) [of rq] valid_genClientID [of pid now]
    by (auto simp: signalingInitiate_def Let_def env_ok_def split: if_splits option.splits prod.splits
        intro: offer_start_vals)
next
  case EOffer
  with assms show ?thesis
    using decoded_ok(2) [of rq] valid_genClientID [of pid now]
    by (auto simp: signalingOffer_def Let_def env_ok_def offer_body_ok_def split: if_splits option.splits prod.splits
        intro: offer_start_vals)
next
  case EPoll
  with assms show ?thesis
    using sig_vals_sections(1) [OF assms(1), of "query_get rq ''bastion''"]
    by (auto simp: signalingPoll_def Let_def split: if_splits prod.splits)
next
  case EAnswer
  with assms show ?thesis
    using decoded_ok(1) [of rq]
    by (auto simp: signalingAnswer_def split: if_splits option.splits)
next
  case ECandidate
  then have p: "signalingPostCandidate rq g = (g', h)" using assms(2) by simp
  then show ?thesis
  proof (cases rule: signalingPostCandidate_cases)
    case (2 p q x)
    then have "raw_ok x"
      using p decoded_ok(3) [of rq]
      by (auto simp: signalingPostCandidate_def cand_body_ok_def Let_def
          split: if_splits option.splits prod.splits list.splits)
    moreover have "sig_vals g'" using sig_vals_sections(2) [OF assms(1), of p] 2(1) by simp
    ultimately show ?thesis using 2(2) by simp
  qed (use p assms(1) in \<open>auto simp: signalingPostCandidate_def Let_def
      split: if_splits option.splits prod.splits list.splits\<close>)
next
  case ECandidates
  with assms show ?thesis
    using sig_vals_sections(2) [OF assms(1), of "query_get rq ''bastion_id''"]
    by (auto simp: signalingPollCandidates_def Let_def split: if_splits prod.splits)
qed

lemma sig_vals_offer: "sig_vals g \<Longrightarrow> list_all env_ok (chan_buf c) \<Longrightarrow> sig_vals (g\<lparr>offer_chans := (offer_chans g)(q := c)\<rparr>)"
  and sig_vals_answer: "sig_vals g \<Longrightarrow> list_all env_ok (chan_buf c) \<Longrightarrow> sig_vals (g\<lparr>answer_chans := (answer_chans g)(q := c)\<rparr>)"
  and sig_vals_cand: "sig_vals g \<Longrightarrow> list_all raw_ok (chan_buf d) \<Longrightarrow> sig_vals (g\<lparr>cand_chans := (cand_chans g)(q := d)\<rparr>)"
  by (auto simp: sig_vals_def)

lemma chan_all:
  "chan_send c x = Some c' \<Longrightarrow> list_all P (chan_buf c) \<Longrightarrow> P x \<Longrightarrow> list_all P (chan_buf c')"
  "chan_recv c = Some (x, c') \<Longrightarrow> list_all P (chan_buf c) \<Longrightarrow> P x \<and> list_all P (chan_buf c')"
  using ch.send_contents ch.recv_contents by fastforce+

lemma sig_valsD:
  assumes "sig_vals g"
  shows "list_all env_ok (chan_buf (offer_chans g q))" "list_all env_ok (chan_buf (answer_chans g q))"
    "list_all raw_ok (chan_buf (cand_chans g q))"
  using assms by (auto simp: sig_vals_def)

lemma handler_step_vals:
  assumes "handler_step g h e g' h'" "sig_vals g" "handler_vals h"
  shows "sig_vals g' \<and> handler_vals h'"
  using assms(1)
proof cases
  case (send_ok q env c k b cid a)
  with assms show ?thesis using chan_all(1) [OF send_ok(5) sig_valsD(1)] by (simp add: sig_vals_offer)
next
  case (answer_ok a ans c k cid)
  with assms show ?thesis using chan_all(2) [OF answer_ok(5) sig_valsD(2)]
    by (simp add: sig_vals_answer resp_ok_answer)
next
  case (poll_ok q env c b)
  with assms show ?thesis using chan_all(2) [OF poll_ok(5) sig_valsD(1)]
    by (simp add: sig_vals_offer resp_ok_envelope)
next
  case (reply_ok a env c)
  with assms show ?thesis using chan_all(1) [OF reply_ok(5) sig_valsD(2)]
    by (simp add: sig_vals_answer resp_ok_status)
next
  case (post_ok q x c p)
  with assms show ?thesis using chan_all(1) [OF post_ok(5) sig_valsD(3)] by (simp add: sig_vals_cand)
next
  case (cands_first q x c p)
  with assms show ?thesis using chan_all(2) [OF cands_first(5) sig_valsD(3)] by (simp add: sig_vals_cand)
next
  case (drain_more q x c p out)
  with assms show ?thesis using chan_all(2) [OF drain_more(5) sig_valsD(3)] by (simp add: sig_vals_cand)
next
  case (cleanup cid r)
  with assms show ?thesis using sig_vals_sections(4) [of g cid] by simp
qed (use assms in \<open>auto simp: resp_ok_candidates\<close>)

lemma sys_step_vals: "sys_step pid s e s' \<Longrightarrow> sys_vals s \<Longrightarrow> sys_vals s'"
proof (cases rule: sys_step.cases)
qed (auto simp: sys_vals_def dest: start_handler_vals handler_step_vals split: if_splits)

lemma reach_vals: "reach pid tr s \<Longrightarrow> sys_vals s"
proof (induction rule: reach.induct)
  case start
  show ?case by (simp add: init_sys_def sys_vals_def sig_vals_new)
qed (rule sys_step_vals)

text \<open>The values that the events of a run name.\<close>

fun event_vals :: "event \<Rightarrow> bool" where
  "event_vals (Registered cid) \<longleftrightarrow> valid_utf8 cid"
| "event_vals (Offered b env) \<longleftrightarrow> env_ok env"
| "event_vals (SendTimedOut cid) \<longleftrightarrow> valid_utf8 cid"
| "event_vals (OfferPolled b env) \<longleftrightarrow> env_ok env"
| "event_vals (AnswerAccepted env) \<longleftrightarrow> env_ok env"
| "event_vals (AnswerTaken cid env) \<longleftrightarrow> valid_utf8 cid \<and> env_ok env"
| "event_vals (CandQueued p x) \<longleftrightarrow> raw_ok x"
| "event_vals (CandTaken p x) \<longleftrightarrow> raw_ok x"
| "event_vals Internal \<longleftrightarrow> True"

lemma handler_step_event:
  assumes "handler_step g h e g' h'" "sig_vals g" "handler_vals h"
  shows "event_vals e"
  using assms chan_all(2) [OF _ sig_valsD(1) [OF assms(2)]] chan_all(2) [OF _ sig_valsD(2) [OF assms(2)]]
    chan_all(2) [OF _ sig_valsD(3) [OF assms(2)]]
  by cases auto

lemma start_event_vals: "handler_vals h \<Longrightarrow> event_vals (start_event h)"
  by (cases h) auto

lemma sys_step_event:
  assumes "sys_step pid s e s'" "sys_vals s"
  shows "event_vals (snd e)"
  using assms(1)
proof cases
  case (arrive r now ep rq g h)
  have "handler_vals h" using start_handler_vals [OF _ arrive(4)] assms(2) by (simp add: sys_vals_def)
  then show ?thesis by (simp add: arrive start_event_vals)
next
  case (move r h ev g h')
  with assms(2) show ?thesis using handler_step_event [OF move(4)] by (simp add: sys_vals_def)
qed

lemma reach_events: "reach pid tr s \<Longrightarrow> x \<in> set tr \<Longrightarrow> event_vals (snd x)"
  by (induction rule: reach.induct) (auto dest: sys_step_event reach_vals)

lemma events_of_vals: "reach pid tr s \<Longrightarrow> e \<in> set (events_of r tr) \<Longrightarrow> event_vals e"
  using reach_events by (fastforce simp: events_of_def)

section \<open>Reading the responses\<close>

definition same_raw :: "json option \<Rightarrow> json option \<Rightarrow> bool" where
  "same_raw r r' \<longleftrightarrow> value_of (jraw r) = value_of (jraw r')"

definition reads_envelope :: "response \<Rightarrow> envelope \<Rightarrow> bool" where
  "reads_envelope resp env \<longleftrightarrow>
     (\<exists>j e. read_response resp = Some j \<and> dec_struct envelope_fields zero_envelope j = Some e \<and>
        Peer e = Peer env \<and> same_raw (SDP e) (SDP env) \<and>
        map_option value_of (ICE e) = map_option value_of (ICE env))"

definition reads_answer :: "response \<Rightarrow> string \<Rightarrow> envelope \<Rightarrow> bool" where
  "reads_answer resp cid env \<longleftrightarrow>
     (\<exists>x y. read_response resp = Some (JObj [(''answer'', x), (''client_id'', y)]) \<and>
        value_of x = value_of (jraw (SDP env)) \<and> dec_string [] y = Some cid)"

lemma keys_kept: "html_escape ''peer'' = ''peer''" "html_escape ''sdp'' = ''sdp''" "html_escape ''ice'' = ''ice''"
  "html_escape ''answer'' = ''answer''" "html_escape ''client_id'' = ''client_id''"
  "html_escape ''candidates'' = ''candidates''" "html_escape ''cursor'' = ''cursor''"
  by code_simp+

lemma envelope_reads:
  assumes "env_ok e" shows "reads_envelope (writeJSON st (envelope_json e)) e"
proof -
  let ?e = "e\<lparr>SDP := Some (esc_json (jraw (SDP e))), ICE := map_option esc_json (ICE e)\<rparr>"
  have v: "valid_utf8 (Peer e)" "raw_ok (jraw (SDP e))" "pred_option raw_ok (ICE e)"
    using assms raw_ok_jraw by (auto simp: env_ok_def)
  have "read_response (writeJSON st (envelope_json e)) = Some (esc_json (envelope_json e))"
    using envelope_json_ok [OF assms] by (simp add: read_writeJSON)
  moreover have "dec_struct envelope_fields zero_envelope (esc_json (envelope_json e)) = Some ?e"
    using v(1) by (cases e; cases "ICE e")
      (simp_all add: envelope_json_def keys_kept body_decoding zero_envelope_def dec_string_esc to_valid_id)
  moreover have "same_raw (SDP ?e) (SDP e)" "map_option value_of (ICE ?e) = map_option value_of (ICE e)"
    using v(2,3) raw_ok_esc by (cases "ICE e"; simp add: same_raw_def jraw_def)+
  ultimately show ?thesis unfolding reads_envelope_def by fastforce
qed

text \<open>
  \<open>/v1/signaling/initiate\<close> writes the envelope of the answer; \<open>/v1/signaling/offer\<close> its description
  beside the client id, and no ICE part.
\<close>

definition reads_taken_answer :: "flavour \<Rightarrow> response \<Rightarrow> string \<Rightarrow> envelope \<Rightarrow> bool" where
  "reads_taken_answer k resp cid env \<longleftrightarrow>
     (case k of InitiateStyle \<Rightarrow> reads_envelope resp env | OfferStyle \<Rightarrow> reads_answer resp cid env)"

lemma answer_reads:
  assumes "env_ok ans" "valid_utf8 cid"
  shows "reads_taken_answer k (answer_response k cid ans) cid ans"
proof (cases k)
  case InitiateStyle
  then show ?thesis using envelope_reads [OF assms(1)] by (simp add: answer_response_def reads_taken_answer_def)
next
  case OfferStyle
  have r: "raw_ok (jraw (SDP ans))" using assms raw_ok_jraw by (auto simp: env_ok_def)
  then have "read_response (answer_response k cid ans) =
      Some (JObj [(''answer'', esc_json (jraw (SDP ans))), (''client_id'', esc_json (jstr cid))])"
    by (simp add: OfferStyle answer_response_def read_writeJSON keys_ok keys_kept raw_ok_def)
  then show ?thesis
    using raw_ok_esc [OF r] assms(2)
    by (auto simp: reads_answer_def reads_taken_answer_def OfferStyle dec_string_esc to_valid_id)
qed

lemma candidates_read:
  assumes "list_all raw_ok out" "out \<noteq> []"
  shows "(\<exists>xs y. read_response (candidates_response out now) = Some (JObj [(''candidates'', JArr xs), (''cursor'', y)]) \<and>
      map value_of xs = map value_of out) \<longleftrightarrow> (\<forall>c \<in> set out. jdepth c + 2 \<le> maxNestingDepth)"
    and "\<exists>c \<in> set out. maxNestingDepth < jdepth c + 2 \<Longrightarrow> read_response (candidates_response out now) = None"
proof -
  have "jdepth (candidates_json out now) \<le> maxNestingDepth \<longleftrightarrow> (\<forall>c \<in> set out. jdepth c + 2 \<le> maxNestingDepth)"
    using candidates_json_depth [of 9999 out now] by (auto simp: list_all_iff)
  moreover have "list_all wf_json out" using assms(1) by (auto simp: list_all_iff raw_ok_def)
  ultimately have r: "read_response (candidates_response out now) =
      (if \<forall>c \<in> set out. jdepth c + 2 \<le> maxNestingDepth then Some (esc_json (candidates_json out now)) else None)"
    using candidates_json_wf [of out now] by (simp add: candidates_response_json read_writeJSON)
  have "esc_json (candidates_json out now) =
      JObj [(''candidates'', JArr (map esc_json out)), (''cursor'', esc_json (jstr (''ts-'' @ show_int now)))]"
    using assms(2) by (simp add: candidates_json_def keys_kept)
  moreover have "map value_of (map esc_json out) = map value_of out"
    using assms(1) raw_ok_esc by (simp add: list_all_iff)
  ultimately show "(\<exists>xs y. read_response (candidates_response out now) = Some (JObj [(''candidates'', JArr xs), (''cursor'', y)]) \<and>
      map value_of xs = map value_of out) \<longleftrightarrow> (\<forall>c \<in> set out. jdepth c + 2 \<le> maxNestingDepth)"
    using r by auto
  show "\<exists>c \<in> set out. maxNestingDepth < jdepth c + 2 \<Longrightarrow> read_response (candidates_response out now) = None"
    using r by (auto simp: not_le)
qed

lemma filter_single:
  assumes "filter p es = [x]" "y \<in> set es" "p y" shows "y = x"
proof -
  have "y \<in> set (filter p es)" using assms(2,3) by simp
  then show ?thesis by (simp only: assms(1)) simp
qed

lemma cands_in_vals: "\<forall>e \<in> set es. event_vals e \<Longrightarrow> list_all raw_ok (cands_in es)"
  by (induction es rule: cands_in.induct) auto

section \<open>Properties\<close>

text \<open>
  C11: Every value in the signaling system is well-formed. What the channels and the waiting requests
  hold is JSON that was read from some body, nested below the decoder's limit, with peer names
  in valid UTF-8. What the requests write, or are about to write, is well-formed JSON within the
  limit, except that a list of candidates may exceed it by one level.
\<close>

theorem signaling_values_well_formed:
  assumes "reach pid tr s"
  shows "sig_vals (sig s) \<and> (live s r = Some h \<longrightarrow> handler_vals h)"
  using reach_vals [OF assms] by (simp add: sys_vals_def)

theorem signaling_values_well_formed_witness:
  "handler_vals (Draining ''b1'' 0 [JStr ''host''])"
proof -
  have "live (demo_sys (cand_sig []) [(1, Draining ''b1'' 0 [JStr ''host'']), (0, Done (write_header StatusNoContent))]) 1 =
      Some (Draining ''b1'' 0 [JStr ''host''])" by (simp add: demo_sys_def)
  with signaling_values_well_formed [OF cand_reach, of 1] show ?thesis by blast
qed

text \<open>
  C9: What a request takes it writes, and what its reader gets is what was posted, whatever else is
  going on. From any moment of a request to its end: a bastion that polls an offer reads the
  envelope that was queued, its peer, its description and its ICE part equal as JSON values; a
  client that takes an answer reads, on \<open>/v1/signaling/initiate\<close>, the envelope that the bastion
  sent, likewise with all three parts, and on \<open>/v1/signaling/offer\<close> its description beside the
  client id, and nothing else (the ICE part of the answer is dropped there). The bodies are the
  bytes on the wire, escaping and re-reading included.
\<close>

theorem taken_reads_back:
  assumes "reach pid tr s" and "live s r = Some h"
    and "sys_run pid s tr' s'" and "live s' r = Some (Done resp)"
  shows "(\<forall>b env. OfferPolled b env \<in> set (events_of r tr') \<longrightarrow> reads_envelope resp env) \<and>
    (\<forall>cid env. AnswerTaken cid env \<in> set (events_of r tr') \<longrightarrow>
       (\<exists>k. flavour_of h = Some k \<and> reads_taken_answer k resp cid env))"
proof (intro conjI allI impI)
  have re: "reach pid (tr @ tr') s'" by (rule reach_run [OF assms(3,1)])
  have d: "delivered (events_of r (tr @ tr')) (Done resp)"
    by (rule progress_okD(2) [OF reach_progress [OF re] assms(4)])
  have sub: "set (events_of r tr') \<subseteq> set (events_of r (tr @ tr'))" by (auto simp: events_of_def)
  note vals = events_of_vals [OF re, of _ r, OF subsetD [OF sub]]
  show "reads_envelope resp env" if e: "OfferPolled b env \<in> set (events_of r tr')" for b env
  proof -
    from e sub have e': "OfferPolled b env \<in> set (events_of r (tr @ tr'))" by blast
    then have "filter takes_offer (events_of r (tr @ tr')) \<noteq> []" by (force simp: filter_empty_conv)
    with d obtain b' env' where f: "filter takes_offer (events_of r (tr @ tr')) = [OfferPolled b' env']"
      and resp: "resp = writeJSON StatusOK (envelope_json env')"
      by (auto simp: nothing_taken_def answer_written_def offer_written_def cands_written_def)
    have "env' = env" using filter_single [OF f e'] by simp
    then show ?thesis using envelope_reads [of env] vals [OF e] resp by simp
  qed
  show "\<exists>k. flavour_of h = Some k \<and> reads_taken_answer k resp cid env"
    if e: "AnswerTaken cid env \<in> set (events_of r tr')" for cid env
  proof -
    from run_answers [OF assms(3,2,4) e] obtain k where "flavour_of h = Some k"
      and "resp = answer_response k cid env" by blast
    with answer_reads [of env cid k] vals [OF e] show ?thesis by auto
  qed
qed

theorem taken_reads_back_witness:
  "reads_answer demo_resp demo_cid demo_answer"
proof -
  let ?tr' = "[(0, AnswerTaken demo_cid demo_answer), (0, Internal)]"
  have "live demo_before 0 = Some (Awaiting OfferStyle demo_cid 0)" "live demo_after 0 = Some (Done demo_resp)"
    by (simp_all add: demo_sys_def)
  moreover have "AnswerTaken demo_cid demo_answer \<in> set (events_of 0 ?tr')" by (simp add: events_of_def)
  ultimately show ?thesis using taken_reads_back [OF demo_before_reach _ demo_after_run]
    by (fastforce simp: reads_taken_answer_def)
qed

text \<open>
  C10: The candidates that a poll takes can be read back, all of them and in order as JSON values,
  exactly when each leaves room for the object and the array around it: the list adds two levels
  to a candidate, the body it was posted in added one.
\<close>

theorem candidates_read_back:
  assumes "reach pid tr s" and "live s r = Some (Done resp)" and "cands_in (events_of r tr) = out"
    and "out \<noteq> []"
  shows "(\<exists>xs y. read_response resp = Some (JObj [(''candidates'', JArr xs), (''cursor'', y)]) \<and>
      map value_of xs = map value_of out) \<longleftrightarrow> (\<forall>c \<in> set out. jdepth c + 2 \<le> maxNestingDepth)"
proof -
  have d: "delivered (events_of r tr) (Done resp)"
    by (rule progress_okD(2) [OF reach_progress [OF assms(1)] assms(2)])
  then obtain now where resp: "resp = candidates_response out now"
    using assms(3,4) by (auto simp: nothing_taken_def answer_written_def offer_written_def cands_written_def)
  have "list_all raw_ok out" using cands_in_vals [of "events_of r tr"] events_of_vals [OF assms(1)] assms(3) by blast
  from candidates_read(1) [OF this assms(4)] show ?thesis by (simp only: resp)
qed

text \<open>
  A candidate that is nested 9,999 deep fits into the body it is posted in, and no list it is
  written in can be read.
\<close>

definition nest :: "nat \<Rightarrow> json" where
  "nest n = ((\<lambda>v. JArr [v]) ^^ n) JNull"

lemma nest_simps [simp]: "jdepth (nest n) = n" "wf_json (nest n)" "esc_json (nest n) = nest n" "nest n \<noteq> JStr l"
  by (induction n) (simp_all add: nest_def)

definition deep_rq :: "unit request" where
  "deep_rq = demo_request ''POST'' []
     (json_print (JObj [(''bastion_id'', JStr ''b1''), (''candidate'', nest 9999)]))"

lemma deep_arrive:
  "signalingPostCandidate deep_rq new_signaling = (cand_sig [], Posting ''b1'' 0 (nest 9999))"
proof -
  have lits: "lit_ok ''bastion_id''" "lit_ok ''candidate''" "lit_ok ''b1''"
    by (simp_all add: lit_ok_plain plain_char_def octet_def)
  moreover have "html_escape ''bastion_id'' = ''bastion_id''" "html_escape ''candidate'' = ''candidate''"
    "html_escape ''b1'' = ''b1''" by code_simp+
  ultimately have "literal_json (JObj [(''bastion_id'', JStr ''b1''), (''candidate'', nest 9999)])"
    by (simp add: literal_json_def)
  then have "decode_body cand_body_fields \<lparr>cb_BastionID = [], cb_Candidate = None\<rparr> deep_rq =
      Some \<lparr>cb_BastionID = ''b1'', cb_Candidate = Some (nest 9999)\<rparr>"
    by (simp add: deep_rq_def demo_request_decodes body_decoding)
  then show ?thesis
    by (simp add: signalingPostCandidate_def deep_rq_def Let_def
        candidateQueueLocked_def new_signaling_def cand_sig_def make_chan_def)
qed

lemma second_arrive:
  "signalingPostCandidate cand_rq (cand_sig xs) = (cand_sig xs, Posting ''b1'' 0 (JStr ''host''))"
  by (simp add: signalingPostCandidate_def cand_decodes cand_method candidateQueueLocked_def Let_def)
    (simp add: cand_sig_def)

lemma second_posted:
  "handler_step (cand_sig [y]) (Posting p 0 x) (CandQueued p x) (cand_sig [y, x]) (Done (write_header StatusNoContent))"
  using post_step.post_ok [of "cand_sig [y]" 0 x "\<lparr>chan_cap = 32, chan_buf = [y, x]\<rparr>" p, THEN handler_step.of_post]
  by (simp add: cand_sig_def chan_send_def)

lemma second_drained:
  "handler_step (cand_sig [x]) (Draining p 0 out) (CandTaken p x) (cand_sig []) (Draining p 0 (out @ [x]))"
  using cands_step.drain_more [of "cand_sig [x]" 0 x "\<lparr>chan_cap = 32, chan_buf = []\<rparr>" p out, THEN handler_step.of_cands]
  by (simp add: cand_sig_def chan_recv_def)

lemma drained:
  "handler_step (cand_sig []) (Draining p 0 out) Internal (cand_sig []) (Done (candidates_response out now))"
  using cands_step.drain_done [of "cand_sig []" 0 p out now, THEN handler_step.of_cands]
  by (simp add: cand_sig_def chan_recv_def)

abbreviation "deep_posted \<equiv> [(0 :: nat, Internal), (0, CandQueued ''b1'' (nest 9999)), (1, Internal),
  (1, CandQueued ''b1'' (JStr ''host''))]"

abbreviation "deep_polled \<equiv> [(2 :: nat, Internal), (2, CandTaken ''b1'' (nest 9999)),
  (2, CandTaken ''b1'' (JStr ''host'')), (2, Internal)]"

lemma deep_run:
  "reach 1 (deep_posted @ deep_polled)
     (demo_sys (cand_sig [])
        [(2, Done (candidates_response [nest 9999, JStr ''host''] now)),
         (1, Done (write_header StatusNoContent)), (0, Done (write_header StatusNoContent))])"
proof -
  let ?ok = "Done (write_header StatusNoContent)"
  have "reach 1 [] (demo_sys new_signaling [])"
    using reach.start [of 1] by (simp add: demo_sys_def init_sys_def)
  then have "reach 1 ([] @ [(0, Internal)]) (demo_sys (cand_sig []) [(0, Posting ''b1'' 0 (nest 9999))])"
    by (rule demo_arrival [where ep = ECandidate and rq = deep_rq and now = 0]) (simp_all add: deep_arrive)
  then have "reach 1 (([] @ [(0, Internal)]) @ [(0, CandQueued ''b1'' (nest 9999))])
      (demo_sys (cand_sig [nest 9999]) [(0, ?ok)])"
    by (rule demo_move [OF _ _ cand_posted]) simp_all
  then have "reach 1 ((([] @ [(0, Internal)]) @ [(0, CandQueued ''b1'' (nest 9999))]) @ [(1, Internal)])
      (demo_sys (cand_sig [nest 9999]) [(1, Posting ''b1'' 0 (JStr ''host'')), (0, ?ok)])"
    by (rule demo_arrival [where ep = ECandidate and rq = cand_rq and now = 0]) (simp_all add: second_arrive)
  then have "reach 1 (((([] @ [(0, Internal)]) @ [(0, CandQueued ''b1'' (nest 9999))]) @ [(1, Internal)]) @
        [(1, CandQueued ''b1'' (JStr ''host''))])
      (demo_sys (cand_sig [nest 9999, JStr ''host'']) [(1, ?ok), (0, ?ok)])"
    by (rule demo_move [OF _ _ second_posted]) (auto simp: fun_eq_iff)
  then have "reach 1 deep_posted (demo_sys (cand_sig [nest 9999, JStr ''host'']) [(1, ?ok), (0, ?ok)])" by simp
  then have "reach 1 (deep_posted @ [(2, Internal)])
      (demo_sys (cand_sig [nest 9999, JStr ''host'']) [(2, PollingCands ''b1'' 0), (1, ?ok), (0, ?ok)])"
    by (rule demo_arrival [where ep = ECandidates and rq = cands_rq and now = 0]) (simp_all add: cand_arrive_poll)
  then have "reach 1 ((deep_posted @ [(2, Internal)]) @ [(2, CandTaken ''b1'' (nest 9999))])
      (demo_sys (cand_sig [JStr ''host'']) [(2, Draining ''b1'' 0 [nest 9999]), (1, ?ok), (0, ?ok)])"
    by (rule demo_move [OF _ _ cand_taken]) (auto simp: fun_eq_iff)
  then have "reach 1 (((deep_posted @ [(2, Internal)]) @ [(2, CandTaken ''b1'' (nest 9999))]) @
        [(2, CandTaken ''b1'' (JStr ''host''))])
      (demo_sys (cand_sig []) [(2, Draining ''b1'' 0 ([nest 9999] @ [JStr ''host''])), (1, ?ok), (0, ?ok)])"
    by (rule demo_move [OF _ _ second_drained]) (auto simp: fun_eq_iff)
  then have "reach 1 ((((deep_posted @ [(2, Internal)]) @ [(2, CandTaken ''b1'' (nest 9999))]) @
        [(2, CandTaken ''b1'' (JStr ''host''))]) @ [(2, Internal)])
      (demo_sys (cand_sig []) [(2, Done (candidates_response ([nest 9999] @ [JStr ''host'']) now)), (1, ?ok), (0, ?ok)])"
    by (rule demo_move [OF _ _ drained]) (auto simp: fun_eq_iff)
  then show ?thesis by simp
qed

text \<open>
  C35: One deep candidate costs the bastion every candidate of the same poll: there is a run in
  which two candidates are accepted with 204 and a poll takes both, yet no reader gets anything
  out of the poll's response, and both are gone from the queue.
\<close>

theorem deep_candidate_spoils_poll:
  "\<exists>tr s resp. reach 1 tr s \<and> live s 2 = Some (Done resp) \<and> status resp = 200 \<and>
     cands_in (events_of 2 tr) = [nest 9999, JStr ''host''] \<and> queued_cands (sig s) ''b1'' = [] \<and>
     live s 0 = Some (Done (write_header 204)) \<and> live s 1 = Some (Done (write_header 204)) \<and>
     read_response resp = None"
proof -
  have "list_all raw_ok [nest 9999, JStr ''host'']"
    by (simp add: raw_ok_def lit_ok_plain plain_char_def octet_def)
  then have "read_response (candidates_response [nest 9999, JStr ''host''] 0) = None"
    by (rule candidates_read(2)) simp_all
  moreover have "cands_in (events_of 2 (deep_posted @ deep_polled)) = [nest 9999, JStr ''host'']"
    by (simp add: events_of_def)
  ultimately show ?thesis
    using deep_run [of 0]
    by (intro exI [of _ "deep_posted @ deep_polled"] exI [of _ "demo_sys (cand_sig [])
        [(2, Done (candidates_response [nest 9999, JStr ''host''] 0)),
         (1, Done (write_header StatusNoContent)), (0, Done (write_header StatusNoContent))]"]
        exI [of _ "candidates_response [nest 9999, JStr ''host''] 0"] conjI)
      (simp_all add: demo_sys_def queued_cands_def cand_sig_def, simp add: candidates_response_def)
qed

theorem candidates_read_back_witness:
  "\<not> (\<exists>xs y. read_response (candidates_response [nest 9999, JStr ''host''] 0) =
      Some (JObj [(''candidates'', JArr xs), (''cursor'', y)]) \<and>
      map value_of xs = map value_of [nest 9999, JStr ''host''])"
proof -
  let ?s = "demo_sys (cand_sig []) [(2, Done (candidates_response [nest 9999, JStr ''host''] 0)),
    (1, Done (write_header StatusNoContent)), (0, Done (write_header StatusNoContent))]"
  have "live ?s 2 = Some (Done (candidates_response [nest 9999, JStr ''host''] 0))" by (simp add: demo_sys_def)
  from candidates_read_back [OF deep_run this] show ?thesis by (simp add: events_of_def)
qed

end
