(* ===== verification/Ws_Relay.thy ===== *)
theory Ws_Relay
  imports Http_Model
begin

text \<open>
  The WebSocket relay (\<open>internal/wsrelay/wsrelay.go\<close>): the hub of rooms, the parsing of a
  connection request, joining and leaving a room, forwarding a frame, and the statistics.

  Rooms and connections are shared by pointer, so they live in stores and are compared by
  address, as the code compares pointers. \<open>leaveRoom\<close> takes its locks three times; the three
  sections are three functions here, because other connections can act between them.
\<close>

section \<open>Data\<close>

record conn =
  c_role :: string
  c_clientID :: string

record room =
  rm_bastionID :: string
  rm_daemon :: "nat option"
  rm_clients :: "string \<rightharpoonup> nat"

record hub =
  rooms :: "string \<rightharpoonup> nat"
  room_at :: "nat \<Rightarrow> room"
  next_room :: nat
  conn_at :: "nat \<Rightarrow> conn"

definition new_room :: "string \<Rightarrow> room" where
  "new_room b = \<lparr>rm_bastionID = b, rm_daemon = None, rm_clients = Map.empty\<rparr>"

definition new_hub :: hub where
  "new_hub =
     \<lparr>rooms = Map.empty, room_at = (\<lambda>_. new_room []), next_room = 0,
      conn_at = (\<lambda>_. \<lparr>c_role = [], c_clientID = []\<rparr>)\<rparr>"

definition room_empty :: "room \<Rightarrow> bool" where
  "room_empty r \<longleftrightarrow> rm_daemon r = None \<and> dom (rm_clients r) = {}"

section \<open>The connection request\<close>

definition parseSecWSProtocol :: "'c request \<Rightarrow> string list" where
  "parseSecWSProtocol rq =
     concat (map (\<lambda>h. filter (\<lambda>s. s \<noteq> []) (map trim_space (split_on (CHR '','') h)))
       (header_values rq ''Sec-WebSocket-Protocol''))"

record ws_params =
  wp_role :: string
  wp_bastionID :: string
  wp_negotiated :: string

text \<open>One round of the loop over the offered subprotocols.\<close>

definition ws_protocol :: "string \<Rightarrow> ws_params \<Rightarrow> ws_params" where
  "ws_protocol p w =
     (let w1 =
        (if has_prefix ''chepherd-rc-v1.'' p then
           (case split2 (CHR ''.'') (trim_prefix ''chepherd-rc-v1.'' p) of
              [bastion, token] \<Rightarrow>
                w\<lparr>wp_bastionID := (if wp_bastionID w = [] then bastion else wp_bastionID w),
                  wp_role := (if wp_role w = [] then ''client'' else wp_role w),
                  wp_negotiated := p\<rparr>
            | _ \<Rightarrow> w)
         else w)
      in if p = ''chepherd-rc-v1'' \<and> wp_negotiated w1 = [] then w1\<lparr>wp_negotiated := p\<rparr> else w1)"

definition ws_parse :: "'c request \<Rightarrow> ws_params" where
  "ws_parse rq = fold ws_protocol (parseSecWSProtocol rq)
     \<lparr>wp_role = query_get rq ''role'', wp_bastionID = query_get rq ''bastion_id'', wp_negotiated = []\<rparr>"

datatype ws_start =
    Reject response
  | Upgrade string string string "string list" \<comment> \<open>role, bastion, client id, subprotocols to accept\<close>

definition HandleHTTP_start :: "'c request \<Rightarrow> ws_start" where
  "HandleHTTP_start rq =
     (let w = ws_parse rq in
      if wp_role w \<noteq> ''client'' \<and> wp_role w \<noteq> ''daemon'' then
        Reject (http_error ''role required (client|daemon)'' StatusBadRequest)
      else if wp_bastionID w = [] then
        Reject (http_error ''bastion_id required'' StatusBadRequest)
      else
        Upgrade (wp_role w) (wp_bastionID w) (query_get rq ''client_id'')
          (if wp_negotiated w \<noteq> [] \<and> wp_negotiated w \<noteq> ''chepherd-rc-v1''
           then [wp_negotiated w] else [''chepherd-rc-v1'']))"

section \<open>Rooms\<close>

text \<open>\<open>fmt.Sprintf("c-%p", c)\<close>: the address in hexadecimal.\<close>

definition pointer_id :: "nat \<Rightarrow> string" where
  "pointer_id c = ''c-0x'' @ show_hex c"

definition joinRoom :: "hub \<Rightarrow> string \<Rightarrow> nat \<Rightarrow> hub \<times> nat" where
  "joinRoom h bastionID c =
     (let (h1, r) =
        (case rooms h bastionID of
           Some r \<Rightarrow> (h, r)
         | None \<Rightarrow>
             (h\<lparr>rooms := (rooms h)(bastionID \<mapsto> next_room h),
                room_at := (room_at h)(next_room h := new_room bastionID),
                next_room := Suc (next_room h)\<rparr>, next_room h));
          cn = conn_at h1 c
      in if c_role cn = ''daemon'' then
           (h1\<lparr>room_at := (room_at h1)(r := (room_at h1 r)\<lparr>rm_daemon := Some c\<rparr>)\<rparr>, r)
         else if c_role cn = ''client'' then
           (let cid = (if c_clientID cn = [] then pointer_id c else c_clientID cn) in
            (h1\<lparr>conn_at := (conn_at h1)(c := cn\<lparr>c_clientID := cid\<rparr>),
                room_at := (room_at h1)(r := (room_at h1 r)
                  \<lparr>rm_clients := (rm_clients (room_at h1 r))(cid \<mapsto> c)\<rparr>)\<rparr>, r))
         else (h1, r))"

text \<open>First section: find the room of the bastion under the hub's lock.\<close>

definition leave_lookup :: "hub \<Rightarrow> string \<Rightarrow> nat option" where
  "leave_lookup h bastionID = rooms h bastionID"

text \<open>Second section: take the connection out, under the room's lock.\<close>

definition leave_remove :: "hub \<Rightarrow> nat \<Rightarrow> nat \<Rightarrow> hub \<times> bool" where
  "leave_remove h r c =
     (let cn = conn_at h c;
          rm = room_at h r;
          rm1 = (if c_role cn = ''daemon'' \<and> rm_daemon rm = Some c then rm\<lparr>rm_daemon := None\<rparr> else rm);
          rm2 = (if c_role cn = ''client''
                 then rm1\<lparr>rm_clients := (rm_clients rm1)(c_clientID cn := None)\<rparr> else rm1)
      in (h\<lparr>room_at := (room_at h)(r := rm2)\<rparr>, room_empty rm2))"

text \<open>Third section: check again under both locks before the room is deleted.\<close>

definition leave_recheck :: "hub \<Rightarrow> string \<Rightarrow> nat \<Rightarrow> hub" where
  "leave_recheck h bastionID r =
     (if rooms h bastionID = Some r \<and> room_empty (room_at h r)
      then h\<lparr>rooms := (rooms h)(bastionID := None)\<rparr> else h)"

text \<open>The three in a row, as when nobody intervenes.\<close>

definition leaveRoom :: "hub \<Rightarrow> string \<Rightarrow> nat \<Rightarrow> hub" where
  "leaveRoom h bastionID c =
     (case leave_lookup h bastionID of
        None \<Rightarrow> h
      | Some r \<Rightarrow>
          let (h1, isempty) = leave_remove h r c in
          if isempty then leave_recheck h1 bastionID r else h1)"

text \<open>
  The recipients of a frame read from \<open>src\<close>; \<open>ks\<close> is the order in which the loop over the
  clients meets them. Each recipient is then written the frame as it was read.
\<close>

definition fanout_targets :: "hub \<Rightarrow> nat \<Rightarrow> nat \<Rightarrow> string list \<Rightarrow> nat list" where
  "fanout_targets h r src ks =
     (if c_role (conn_at h src) = ''client'' then
        (case rm_daemon (room_at h r) of None \<Rightarrow> [] | Some d \<Rightarrow> [d])
      else if c_role (conn_at h src) = ''daemon'' then
        concat (map (\<lambda>k. case rm_clients (room_at h r) k of None \<Rightarrow> [] | Some c \<Rightarrow> [c]) ks)
      else [])"

datatype message_type = MessageText | MessageBinary

definition fanout ::
    "hub \<Rightarrow> nat \<Rightarrow> nat \<Rightarrow> message_type \<Rightarrow> bytes \<Rightarrow> string list \<Rightarrow> (nat \<times> message_type \<times> bytes) list" where
  "fanout h r src mt data ks = map (\<lambda>t. (t, mt, data)) (fanout_targets h r src ks)"

section \<open>Statistics\<close>

record ws_stats =
  OpenRooms :: nat
  RoomsWithDaemon :: nat
  OpenClientWs :: nat

definition stats_round :: "hub \<Rightarrow> string \<Rightarrow> ws_stats \<Rightarrow> ws_stats" where
  "stats_round h b out =
     (case rooms h b of
        None \<Rightarrow> out
      | Some r \<Rightarrow>
          out\<lparr>RoomsWithDaemon := RoomsWithDaemon out + (if rm_daemon (room_at h r) \<noteq> None then 1 else 0),
              OpenClientWs := OpenClientWs out + card (dom (rm_clients (room_at h r))),
              OpenRooms := Suc (OpenRooms out)\<rparr>)"

definition ws_Stats :: "hub \<Rightarrow> string list \<Rightarrow> ws_stats" where
  "ws_Stats h ks = fold (stats_round h) ks \<lparr>OpenRooms = 0, RoomsWithDaemon = 0, OpenClientWs = 0\<rparr>"

section \<open>The system of all connections\<close>

text \<open>
  Where the goroutine of a connection stands: reading frames in the room it joined, or in one of
  the sections of \<open>leaveRoom\<close>, or finished. The bastion is the local variable of \<open>HandleHTTP\<close>.
\<close>

datatype phase =
    Joined (phase_bastion: string) nat
  | Removing (phase_bastion: string) nat
  | Rechecking (phase_bastion: string) nat
  | Gone (phase_bastion: string)

record ws_sys =
  ws_hub :: hub
  phases :: "nat \<rightharpoonup> phase"

definition init_ws :: ws_sys where
  "init_ws = \<lparr>ws_hub = new_hub, phases = Map.empty\<rparr>"

datatype ws_event =
    Connected nat
  | Forwarded nat "(nat \<times> message_type \<times> bytes) list"
  | Left nat

text \<open>
  A connection \<open>c\<close> (the address of a new \<open>conn\<close>) arrives with accepted parameters; a frame is
  read and forwarded; the read loop ends and the connection leaves in up to three sections.
\<close>

inductive ws_step :: "ws_sys \<Rightarrow> ws_event \<Rightarrow> ws_sys \<Rightarrow> bool" where
  connect: "phases s c = None \<Longrightarrow> HandleHTTP_start (rq :: unit request) = Upgrade role b cid subs \<Longrightarrow>
    joinRoom ((ws_hub s)\<lparr>conn_at := (conn_at (ws_hub s))(c := \<lparr>c_role = role, c_clientID = cid\<rparr>)\<rparr>) b c = (h, r) \<Longrightarrow>
    ws_step s (Connected c) (s\<lparr>ws_hub := h, phases := (phases s)(c \<mapsto> Joined b r)\<rparr>)"
| frame: "phases s c = Some (Joined b r) \<Longrightarrow> enumerates ks (rm_clients (room_at (ws_hub s) r)) \<Longrightarrow>
    ws_step s (Forwarded c (fanout (ws_hub s) r c mt data ks)) s"
| leave_none: "phases s c = Some (Joined b r) \<Longrightarrow> leave_lookup (ws_hub s) b = None \<Longrightarrow>
    ws_step s (Left c) (s\<lparr>phases := (phases s)(c \<mapsto> Gone b)\<rparr>)"
| leave_found: "phases s c = Some (Joined b r) \<Longrightarrow> leave_lookup (ws_hub s) b = Some r' \<Longrightarrow>
    ws_step s (Left c) (s\<lparr>phases := (phases s)(c \<mapsto> Removing b r')\<rparr>)"
| removed: "phases s c = Some (Removing b r) \<Longrightarrow> leave_remove (ws_hub s) r c = (h, isempty) \<Longrightarrow>
    ws_step s (Left c) (s\<lparr>ws_hub := h, phases := (phases s)(c \<mapsto> if isempty then Rechecking b r else Gone b)\<rparr>)"
| rechecked: "phases s c = Some (Rechecking b r) \<Longrightarrow>
    ws_step s (Left c) (s\<lparr>ws_hub := leave_recheck (ws_hub s) b r, phases := (phases s)(c \<mapsto> Gone b)\<rparr>)"

inductive ws_reach :: "ws_event list \<Rightarrow> ws_sys \<Rightarrow> bool" where
  ws_start: "ws_reach [] init_ws"
| ws_more: "ws_reach tr s \<Longrightarrow> ws_step s e s' \<Longrightarrow> ws_reach (tr @ [e]) s'"

end
