(* ===== verification/Ws_Inv.thy ===== *)
theory Ws_Inv
  imports Ws_Relay
begin

text \<open>
  Invariants of the WebSocket hub (\<open>internal/wsrelay/wsrelay.go\<close>) in every interleaving of
  joins, frames and leaves: who can be in which room, and which rooms the hub keeps.
\<close>

section \<open>The invariant\<close>

definition member :: "hub \<Rightarrow> nat \<Rightarrow> nat \<Rightarrow> bool" where
  "member h r c \<longleftrightarrow> rm_daemon (room_at h r) = Some c \<or> c \<in> ran (rm_clients (room_at h r))"

text \<open>
  Members: a daemon entry is a connection with role daemon, a client entry one with role client
  stored under its own id; both are connections of the room's bastion.
\<close>

definition members_ok :: "ws_sys \<Rightarrow> bool" where
  "members_ok s \<longleftrightarrow>
     (\<forall>r c. rm_daemon (room_at (ws_hub s) r) = Some c \<longrightarrow>
        c_role (conn_at (ws_hub s) c) = ''daemon'' \<and>
        (\<exists>p. phases s c = Some p \<and> phase_bastion p = rm_bastionID (room_at (ws_hub s) r))) \<and>
     (\<forall>r k c. rm_clients (room_at (ws_hub s) r) k = Some c \<longrightarrow>
        c_role (conn_at (ws_hub s) c) = ''client'' \<and> c_clientID (conn_at (ws_hub s) c) = k \<and>
        (\<exists>p. phases s c = Some p \<and> phase_bastion p = rm_bastionID (room_at (ws_hub s) r)))"

text \<open>Rooms: names and addresses agree, and running connections hold allocated rooms.\<close>

definition rooms_ok :: "ws_sys \<Rightarrow> bool" where
  "rooms_ok s \<longleftrightarrow>
     (\<forall>b r. rooms (ws_hub s) b = Some r \<longrightarrow>
        r < next_room (ws_hub s) \<and> rm_bastionID (room_at (ws_hub s) r) = b) \<and>
     (\<forall>r. next_room (ws_hub s) \<le> r \<longrightarrow> room_empty (room_at (ws_hub s) r)) \<and>
     (\<forall>r. finite (dom (rm_clients (room_at (ws_hub s) r)))) \<and>
     (\<forall>c b r. phases s c \<in> {Some (Joined b r), Some (Removing b r), Some (Rechecking b r)} \<longrightarrow>
        r < next_room (ws_hub s) \<and> rm_bastionID (room_at (ws_hub s) r) = b) \<and>
     (\<forall>c p. phases s c = Some p \<longrightarrow>
        c_role (conn_at (ws_hub s) c) = ''client'' \<or> c_role (conn_at (ws_hub s) c) = ''daemon'')"

text \<open>
  Cleaning up: a member of a room the hub knows is still reading there or about to be taken out
  of it, and an empty room the hub knows is about to be checked again by its last leaver.
\<close>

definition cleanup_ok :: "ws_sys \<Rightarrow> bool" where
  "cleanup_ok s \<longleftrightarrow>
     (\<forall>b r c. rooms (ws_hub s) b = Some r \<longrightarrow> member (ws_hub s) r c \<longrightarrow>
        phases s c = Some (Joined b r) \<or> phases s c = Some (Removing b r)) \<and>
     (\<forall>b r. rooms (ws_hub s) b = Some r \<longrightarrow> room_empty (room_at (ws_hub s) r) \<longrightarrow>
        (\<exists>c. phases s c = Some (Rechecking b r)))"

definition ws_inv :: "ws_sys \<Rightarrow> bool" where
  "ws_inv s \<longleftrightarrow> members_ok s \<and> rooms_ok s \<and> cleanup_ok s"

lemma members_okD:
  assumes "members_ok s"
  shows "rm_daemon (room_at (ws_hub s) r) = Some c \<Longrightarrow>
        c_role (conn_at (ws_hub s) c) = ''daemon'' \<and>
        (\<exists>p. phases s c = Some p \<and> phase_bastion p = rm_bastionID (room_at (ws_hub s) r))"
    and "rm_clients (room_at (ws_hub s) r) k = Some c \<Longrightarrow>
        c_role (conn_at (ws_hub s) c) = ''client'' \<and> c_clientID (conn_at (ws_hub s) c) = k \<and>
        (\<exists>p. phases s c = Some p \<and> phase_bastion p = rm_bastionID (room_at (ws_hub s) r))"
  using assms unfolding members_ok_def by blast+

lemma rooms_okD:
  assumes "rooms_ok s"
  shows "rooms (ws_hub s) b = Some r \<Longrightarrow>
        r < next_room (ws_hub s) \<and> rm_bastionID (room_at (ws_hub s) r) = b"
    and "next_room (ws_hub s) \<le> r \<Longrightarrow> room_empty (room_at (ws_hub s) r)"
    and "finite (dom (rm_clients (room_at (ws_hub s) r)))"
    and "phases s c = Some (Joined b r) \<Longrightarrow>
        r < next_room (ws_hub s) \<and> rm_bastionID (room_at (ws_hub s) r) = b"
    and "phases s c = Some (Removing b r) \<Longrightarrow>
        r < next_room (ws_hub s) \<and> rm_bastionID (room_at (ws_hub s) r) = b"
    and "phases s c = Some (Rechecking b r) \<Longrightarrow>
        r < next_room (ws_hub s) \<and> rm_bastionID (room_at (ws_hub s) r) = b"
    and "phases s c = Some p \<Longrightarrow>
        c_role (conn_at (ws_hub s) c) = ''client'' \<or> c_role (conn_at (ws_hub s) c) = ''daemon''"
  using assms unfolding rooms_ok_def by blast+

lemma cleanup_okD:
  assumes "cleanup_ok s"
  shows "rooms (ws_hub s) b = Some r \<Longrightarrow> member (ws_hub s) r c \<Longrightarrow>
        phases s c = Some (Joined b r) \<or> phases s c = Some (Removing b r)"
    and "rooms (ws_hub s) b = Some r \<Longrightarrow> room_empty (room_at (ws_hub s) r) \<Longrightarrow>
        \<exists>c. phases s c = Some (Rechecking b r)"
  using assms unfolding cleanup_ok_def by blast+

lemma ws_inv_init: "ws_inv init_ws"
  by (simp add: ws_inv_def members_ok_def rooms_ok_def cleanup_ok_def init_ws_def new_hub_def
      new_room_def room_empty_def)

lemma room_empty_no_member: "room_empty (room_at h r) \<longleftrightarrow> (\<forall>c. \<not> member h r c)"
  unfolding room_empty_def member_def ran_def by (auto simp: fun_eq_iff; metis not_None_eq)

section \<open>What a join changes\<close>

text \<open>
  The hub after a join, by what it looks like from outside: the room the connection is in is the
  one the hub has for its bastion, other rooms are as before, and the connection is its daemon
  or the client under its id.
\<close>

lemma HandleHTTP_start_role:
  "HandleHTTP_start rq = Upgrade role b cid subs \<Longrightarrow> (role = ''client'' \<or> role = ''daemon'') \<and> b \<noteq> []"
  by (auto simp: HandleHTTP_start_def Let_def split: if_splits)

definition base_room :: "hub \<Rightarrow> string \<Rightarrow> nat \<Rightarrow> room" where
  "base_room h b r = (if rooms h b = None then new_room b else room_at h r)"

lemma joinRoom_result:
  assumes "joinRoom h b c = (h', r)" and "c_role (conn_at h c) = role"
    and "role = ''client'' \<or> role = ''daemon''"
  shows "r = (case rooms h b of Some x \<Rightarrow> x | None \<Rightarrow> next_room h)"
    and "rooms h' = (rooms h)(b \<mapsto> r)"
    and "next_room h' = (if rooms h b = None then Suc (next_room h) else next_room h)"
    and "x \<noteq> r \<Longrightarrow> room_at h' x = room_at h x"
    and "rm_bastionID (room_at h' r) = rm_bastionID (base_room h b r)"
    and "role = ''daemon'' \<Longrightarrow> room_at h' r = (base_room h b r)\<lparr>rm_daemon := Some c\<rparr>"
    and "role = ''client'' \<Longrightarrow> room_at h' r = (base_room h b r)
           \<lparr>rm_clients := (rm_clients (base_room h b r))(c_clientID (conn_at h' c) \<mapsto> c)\<rparr>"
    and "x \<noteq> c \<Longrightarrow> conn_at h' x = conn_at h x"
    and "c_role (conn_at h' c) = role"
  using assms
  by (auto simp: joinRoom_def Let_def base_room_def fun_eq_iff split: option.splits if_splits)

text \<open>After a join the members of the room are the old ones that were not replaced, and the new.\<close>

lemma joinRoom_member:
  assumes "joinRoom h b c = (h', r)" and "c_role (conn_at h c) = role"
    and "role = ''client'' \<or> role = ''daemon''"
    and "\<And>x. next_room h \<le> x \<Longrightarrow> room_empty (room_at h x)"
  shows "member h' x y \<Longrightarrow> (x = r \<and> y = c) \<or> member h x y"
    and "member h' r c"
proof -
  note j = joinRoom_result [OF assms(1-3)]
  show "member h' r c"
    using assms(3) j(6,7) by (auto simp: member_def ran_def)
  assume "member h' x y"
  show "(x = r \<and> y = c) \<or> member h x y"
  proof (cases "x = r")
    case False
    with \<open>member h' x y\<close> j(4) show ?thesis by (simp add: member_def)
  next
    case True
    have "y = c \<or> rm_daemon (base_room h b r) = Some y \<or> y \<in> ran (rm_clients (base_room h b r))"
      using \<open>member h' x y\<close> True assms(3) j(6,7)
      by (auto simp: member_def ran_def split: if_splits)
    then show ?thesis
      using True by (auto simp: base_room_def member_def new_room_def split: if_splits)
  qed
qed

section \<open>A new connection\<close>

text \<open>Connection \<open>c\<close> is new in \<open>s\<close> and joins the room \<open>r\<close> of bastion \<open>b\<close>, giving the hub \<open>h\<close>.\<close>

definition joins :: "ws_sys \<Rightarrow> nat \<Rightarrow> string \<Rightarrow> string \<Rightarrow> string \<Rightarrow> hub \<Rightarrow> nat \<Rightarrow> bool" where
  "joins s c role b cid h r \<longleftrightarrow>
     phases s c = None \<and> (role = ''client'' \<or> role = ''daemon'') \<and>
     joinRoom ((ws_hub s)\<lparr>conn_at := (conn_at (ws_hub s))(c := \<lparr>c_role = role, c_clientID = cid\<rparr>)\<rparr>) b c = (h, r)"

lemma joins_role: "joins s c role b cid h r \<Longrightarrow> role = ''client'' \<or> role = ''daemon''"
  by (simp add: joins_def)

lemma joins_new: "joins s c role b cid h r \<Longrightarrow> phases s y = Some p \<Longrightarrow> y \<noteq> c"
  by (auto simp: joins_def)

lemma joins_hub:
  assumes "joins s c role b cid h r"
  shows "r = (case rooms (ws_hub s) b of Some x \<Rightarrow> x | None \<Rightarrow> next_room (ws_hub s))"
    and "rooms h = (rooms (ws_hub s))(b \<mapsto> r)"
    and "next_room h = (if rooms (ws_hub s) b = None then Suc (next_room (ws_hub s)) else next_room (ws_hub s))"
    and "x \<noteq> r \<Longrightarrow> room_at h x = room_at (ws_hub s) x"
    and "rm_bastionID (room_at h r) = rm_bastionID (base_room (ws_hub s) b r)"
    and "role = ''daemon'' \<Longrightarrow> room_at h r = (base_room (ws_hub s) b r)\<lparr>rm_daemon := Some c\<rparr>"
    and "role = ''client'' \<Longrightarrow> room_at h r = (base_room (ws_hub s) b r)
           \<lparr>rm_clients := (rm_clients (base_room (ws_hub s) b r))(c_clientID (conn_at h c) \<mapsto> c)\<rparr>"
    and "x \<noteq> c \<Longrightarrow> conn_at h x = conn_at (ws_hub s) x"
    and "c_role (conn_at h c) = role"
proof -
  let ?h0 = "(ws_hub s)\<lparr>conn_at := (conn_at (ws_hub s))(c := \<lparr>c_role = role, c_clientID = cid\<rparr>)\<rparr>"
  have base: "base_room ?h0 b r = base_room (ws_hub s) b r" by (simp add: base_room_def)
  have role0: "c_role (conn_at ?h0 c) = role" by simp
  have join: "joinRoom ?h0 b c = (h, r)" using assms by (simp add: joins_def)
  note j = joinRoom_result [OF join role0 joins_role [OF assms], unfolded base]
  show "r = (case rooms (ws_hub s) b of Some x \<Rightarrow> x | None \<Rightarrow> next_room (ws_hub s))"
    using j(1) by (simp split: option.splits)
  show "x \<noteq> r \<Longrightarrow> room_at h x = room_at (ws_hub s) x" using j(4) [of x] by simp
  show "x \<noteq> c \<Longrightarrow> conn_at h x = conn_at (ws_hub s) x" using j(8) [of x] by simp
qed (use joinRoom_result [of "(ws_hub s)\<lparr>conn_at := (conn_at (ws_hub s))(c := \<lparr>c_role = role, c_clientID = cid\<rparr>)\<rparr>" b c h r role]
    assms in \<open>auto simp: joins_def base_room_def\<close>)

lemma joins_bastion:
  assumes "joins s c role b cid h r" and "rooms_ok s"
  shows "rm_bastionID (room_at h r) = b" and "r < next_room h"
    and "member (ws_hub s) r y \<Longrightarrow> rooms (ws_hub s) b = Some r"
proof -
  note j = joins_hub [OF assms(1)]
  show "rm_bastionID (room_at h r) = b"
    using j(1,5) rooms_okD(1) [OF assms(2), of b r]
    by (auto simp: base_room_def new_room_def split: option.splits)
  show "r < next_room h"
    using j(1,3) rooms_okD(1) [OF assms(2), of b r] by (auto split: option.splits)
  show "member (ws_hub s) r y \<Longrightarrow> rooms (ws_hub s) b = Some r"
    using j(1) rooms_okD(2) [OF assms(2), of r]
    by (auto simp: room_empty_no_member split: option.splits)
qed

lemma joins_entries:
  assumes "joins s c role b cid h r"
  shows "rm_daemon (room_at h x) = Some y \<Longrightarrow>
      (x = r \<and> y = c \<and> role = ''daemon'') \<or> rm_daemon (room_at (ws_hub s) x) = Some y"
    and "rm_clients (room_at h x) k = Some y \<Longrightarrow>
      (x = r \<and> y = c \<and> role = ''client'' \<and> k = c_clientID (conn_at h c)) \<or>
      rm_clients (room_at (ws_hub s) x) k = Some y"
    and "member h x y \<Longrightarrow> (x = r \<and> y = c) \<or> member (ws_hub s) x y"
    and "member h r c"
proof -
  note j = joins_hub [OF assms] and role = joins_role [OF assms]
  have "rm_daemon (base_room (ws_hub s) b r) = Some y \<Longrightarrow> rm_daemon (room_at (ws_hub s) r) = Some y"
    and "rm_clients (base_room (ws_hub s) b r) k = Some y \<Longrightarrow> rm_clients (room_at (ws_hub s) r) k = Some y"
    for k y
    by (auto simp: base_room_def new_room_def split: if_splits)
  with j(4) [of x] j(6,7) role show
    d: "rm_daemon (room_at h x) = Some y \<Longrightarrow>
      (x = r \<and> y = c \<and> role = ''daemon'') \<or> rm_daemon (room_at (ws_hub s) x) = Some y" and
    cl: "rm_clients (room_at h x) k = Some y \<Longrightarrow>
      (x = r \<and> y = c \<and> role = ''client'' \<and> k = c_clientID (conn_at h c)) \<or>
      rm_clients (room_at (ws_hub s) x) k = Some y" for k
    by (cases "x = r"; auto split: if_splits)+
  from d cl show "member h x y \<Longrightarrow> (x = r \<and> y = c) \<or> member (ws_hub s) x y"
    by (auto simp: member_def ran_def)
  from role j(6,7) show "member h r c" by (auto simp: member_def ran_def)
qed

lemma connect_members:
  assumes "members_ok s" and ro: "rooms_ok s" and jo: "joins s c role b cid h r"
  shows "members_ok (s\<lparr>ws_hub := h, phases := (phases s)(c \<mapsto> Joined b r)\<rparr>)"
proof -
  note j = joins_hub [OF jo] and ent = joins_entries [OF jo] and bas = joins_bastion [OF jo ro]
  have same: "rm_bastionID (room_at h x) = rm_bastionID (room_at (ws_hub s) x)"
    if "member (ws_hub s) x y" for x y
  proof (cases "x = r")
    case True
    with bas(3) that have "rooms (ws_hub s) b = Some r" by blast
    with rooms_okD(1) [OF ro this] bas(1) True show ?thesis by simp
  next
    case False
    with j(4) show ?thesis by simp
  qed
  have daemon: "c_role (conn_at h y) = ''daemon'' \<and>
      (\<exists>p. ((phases s)(c \<mapsto> Joined b r)) y = Some p \<and> phase_bastion p = rm_bastionID (room_at h x))"
    if "rm_daemon (room_at h x) = Some y" for x y
    using ent(1) [OF that]
  proof
    assume "x = r \<and> y = c \<and> role = ''daemon''"
    with j(9) bas(1) show ?thesis by simp
  next
    assume d: "rm_daemon (room_at (ws_hub s) x) = Some y"
    with members_okD(1) [OF assms(1) d] joins_new [OF jo, of y] j(8) [of y] same [of x y]
    show ?thesis by (auto simp: member_def)
  qed
  have client: "c_role (conn_at h y) = ''client'' \<and> c_clientID (conn_at h y) = k \<and>
      (\<exists>p. ((phases s)(c \<mapsto> Joined b r)) y = Some p \<and> phase_bastion p = rm_bastionID (room_at h x))"
    if "rm_clients (room_at h x) k = Some y" for x k y
    using ent(2) [OF that]
  proof
    assume "x = r \<and> y = c \<and> role = ''client'' \<and> k = c_clientID (conn_at h c)"
    with j(9) bas(1) show ?thesis by simp
  next
    assume d: "rm_clients (room_at (ws_hub s) x) k = Some y"
    then have "member (ws_hub s) x y" by (auto simp: member_def ran_def)
    with members_okD(2) [OF assms(1) d] joins_new [OF jo, of y] j(8) [of y] same [of x y]
    show ?thesis by auto
  qed
  show ?thesis using daemon client by (simp add: members_ok_def)
qed

lemma connect_rooms:
  assumes ro: "rooms_ok s" and jo: "joins s c role b cid h r"
  shows "rooms_ok (s\<lparr>ws_hub := h, phases := (phases s)(c \<mapsto> Joined b r)\<rparr>)"
proof -
  note j = joins_hub [OF jo] and bas = joins_bastion [OF jo ro] and role = joins_role [OF jo]
  have mono: "next_room (ws_hub s) \<le> next_room h" using j(3) by simp
  have keep: "x < next_room h \<and> rm_bastionID (room_at h x) = b'"
    if "x < next_room (ws_hub s)" "rm_bastionID (room_at (ws_hub s) x) = b'" for x b'
  proof (cases "x = r")
    case True
    with that have "rooms (ws_hub s) b = Some r" using j(1) by (auto split: option.splits)
    with that True bas(1,2) rooms_okD(1) [OF ro this] show ?thesis by simp
  next
    case False
    with that j(4) mono show ?thesis by simp
  qed
  have "finite (dom (rm_clients (room_at h x)))" for x
  proof (cases "x = r")
    case True
    have "finite (dom (rm_clients (base_room (ws_hub s) b r)))"
      using rooms_okD(3) [OF ro, of r] by (auto simp: base_room_def new_room_def)
    with True j(6,7) role show ?thesis by auto
  next
    case False
    with j(4) [OF False] rooms_okD(3) [OF ro, of x] show ?thesis by simp
  qed
  moreover have "room_empty (room_at h x)" if "next_room h \<le> x" for x
    using that bas(2) mono j(4) [of x] rooms_okD(2) [OF ro, of x] by auto
  moreover have "x < next_room h \<and> rm_bastionID (room_at h x) = b'" if "rooms h b' = Some x" for b' x
    using that j(2) bas(1,2) keep rooms_okD(1) [OF ro, of b' x] by (auto split: if_splits)
  moreover have "c_role (conn_at h y) = ''client'' \<or> c_role (conn_at h y) = ''daemon''"
    if "((phases s)(c \<mapsto> Joined b r)) y = Some p" for y p
    using that j(8) [of y] j(9) role rooms_okD(7) [OF ro, of y p] by (cases "y = c") auto
  ultimately show ?thesis
    unfolding rooms_ok_def
    using keep bas(1,2) rooms_okD(4-6) [OF ro] by (auto split: if_splits)
qed

lemma connect_cleanup:
  assumes cl: "cleanup_ok s" and ro: "rooms_ok s" and jo: "joins s c role b cid h r"
  shows "cleanup_ok (s\<lparr>ws_hub := h, phases := (phases s)(c \<mapsto> Joined b r)\<rparr>)"
proof -
  let ?p = "(phases s)(c \<mapsto> Joined b r)"
  note j = joins_hub [OF jo] and ent = joins_entries [OF jo] and bas = joins_bastion [OF jo ro]
  have "?p y = Some (Joined b' x) \<or> ?p y = Some (Removing b' x)"
    if "rooms h b' = Some x" "member h x y" for b' x y
    using ent(3) [OF that(2)]
  proof
    assume xy: "x = r \<and> y = c"
    then have "b' = b"
      using that(1) j(1,2) rooms_okD(1) [OF ro, of b' x] rooms_okD(1) [OF ro, of b x]
      by (auto split: if_splits option.splits)
    with xy show ?thesis by simp
  next
    assume old: "member (ws_hub s) x y"
    have "rooms (ws_hub s) b' = Some x"
      using that(1) j(2) bas(3) [of y] old by (cases "b' = b") auto
    from cleanup_okD(1) [OF cl this old] joins_new [OF jo, of y] show ?thesis by auto
  qed
  moreover have "\<exists>y. ?p y = Some (Rechecking b' x)"
    if "rooms h b' = Some x" "room_empty (room_at h x)" for b' x
  proof -
    have "x \<noteq> r" using that(2) ent(4) by (auto simp: room_empty_no_member)
    with that j(2) have "rooms (ws_hub s) b' = Some x" and "room_empty (room_at (ws_hub s) x)"
      using j(4) by (auto split: if_splits)
    from cleanup_okD(2) [OF cl this] joins_new [OF jo] show ?thesis by auto
  qed
  ultimately show ?thesis by (simp add: cleanup_ok_def)
qed

lemma connect_inv [relay_inv]:
  "ws_inv s \<Longrightarrow> joins s c role b cid h r \<Longrightarrow>
     ws_inv (s\<lparr>ws_hub := h, phases := (phases s)(c \<mapsto> Joined b r)\<rparr>)"
  by (simp add: ws_inv_def connect_members connect_rooms connect_cleanup)

section \<open>Leaving\<close>

lemma leave_remove_result:
  assumes "leave_remove h r c = (h', isempty)"
  shows "rooms h' = rooms h" "next_room h' = next_room h" "conn_at h' = conn_at h"
    and "x \<noteq> r \<Longrightarrow> room_at h' x = room_at h x"
    and "rm_bastionID (room_at h' x) = rm_bastionID (room_at h x)"
    and "isempty = room_empty (room_at h' r)"
    and "rm_daemon (room_at h' r) =
           (if c_role (conn_at h c) = ''daemon'' \<and> rm_daemon (room_at h r) = Some c then None
            else rm_daemon (room_at h r))"
    and "rm_clients (room_at h' r) =
           (if c_role (conn_at h c) = ''client''
            then (rm_clients (room_at h r))(c_clientID (conn_at h c) := None)
            else rm_clients (room_at h r))"
  using assms by (auto simp: leave_remove_def Let_def)

lemma leave_remove_entries:
  assumes "leave_remove h r c = (h', isempty)"
  shows "rm_daemon (room_at h' x) = Some y \<Longrightarrow> rm_daemon (room_at h x) = Some y"
    and "rm_clients (room_at h' x) k = Some y \<Longrightarrow> rm_clients (room_at h x) k = Some y"
    and "member h' x y \<Longrightarrow> member h x y"
proof -
  note l = leave_remove_result [OF assms]
  show d: "rm_daemon (room_at h' x) = Some y \<Longrightarrow> rm_daemon (room_at h x) = Some y"
    using l(4) [of x] l(7) by (cases "x = r") (auto split: if_splits)
  have cl: "rm_clients (room_at h' x) k = Some y \<Longrightarrow> rm_clients (room_at h x) k = Some y" for k
    using l(4) [of x] l(8) by (cases "x = r") (auto split: if_splits)
  then show "rm_clients (room_at h' x) k = Some y \<Longrightarrow> rm_clients (room_at h x) k = Some y" .
  show "member h' x y \<Longrightarrow> member h x y"
    using d cl by (auto simp: member_def ran_def)
qed

text \<open>After the second section the connection is not a member of that room.\<close>

lemma leave_remove_out:
  assumes "members_ok s" and "leave_remove (ws_hub s) r c = (h', isempty)"
  shows "\<not> member h' r c"
proof
  assume "member h' r c"
  note l = leave_remove_result [OF assms(2)] and e = leave_remove_entries [OF assms(2)]
  consider "rm_daemon (room_at h' r) = Some c" | k where "rm_clients (room_at h' r) k = Some c"
    using \<open>member h' r c\<close> by (auto simp: member_def ran_def)
  then show False
  proof cases
    case 1
    with members_okD(1) [OF assms(1) e(1) [OF 1]] e(1) [OF 1] l(7) show False by simp
  next
    case 2
    with members_okD(2) [OF assms(1) e(2) [OF 2]] l(8) show False by simp
  qed
qed

text \<open>
  Each section of a leave only takes entries and names away, and moves the connection to a phase
  of the same bastion.
\<close>

definition shrinks :: "hub \<Rightarrow> hub \<Rightarrow> bool" where
  "shrinks h h' \<longleftrightarrow>
     next_room h' = next_room h \<and> conn_at h' = conn_at h \<and>
     (\<forall>b r. rooms h' b = Some r \<longrightarrow> rooms h b = Some r) \<and>
     (\<forall>r. rm_bastionID (room_at h' r) = rm_bastionID (room_at h r)) \<and>
     (\<forall>r c. rm_daemon (room_at h' r) = Some c \<longrightarrow> rm_daemon (room_at h r) = Some c) \<and>
     (\<forall>r k c. rm_clients (room_at h' r) k = Some c \<longrightarrow> rm_clients (room_at h r) k = Some c)"

lemma shrinks_refl: "shrinks h h"
  by (simp add: shrinks_def)

lemma shrinks_leave_remove: "leave_remove h r c = (h', isempty) \<Longrightarrow> shrinks h h'"
  using leave_remove_result [of h r c h' isempty] leave_remove_entries [of h r c h' isempty]
  unfolding shrinks_def by simp

lemma shrinks_leave_recheck: "shrinks h (leave_recheck h b r)"
  by (simp add: shrinks_def leave_recheck_def)

lemma shrinks_member: "shrinks h h' \<Longrightarrow> member h' r c \<Longrightarrow> member h r c"
  unfolding shrinks_def member_def ran_def by blast

lemma ws_fields:
  "ws_hub (s\<lparr>ws_hub := h, phases := ph\<rparr>) = h" "phases (s\<lparr>ws_hub := h, phases := ph\<rparr>) = ph"
  by simp_all

lemma leave_change_members:
  assumes m: "members_ok s" and ph: "phases s c = Some p" and b: "phase_bastion p' = phase_bastion p"
    and sh: "shrinks (ws_hub s) h"
  shows "members_ok (s\<lparr>ws_hub := h, phases := (phases s)(c \<mapsto> p')\<rparr>)"
proof -
  have bas: "rm_bastionID (room_at h r) = rm_bastionID (room_at (ws_hub s) r)" for r
    using sh by (simp add: shrinks_def)
  have co: "conn_at h = conn_at (ws_hub s)" using sh by (simp add: shrinks_def)
  have keep: "\<exists>q'. ((phases s)(c \<mapsto> p')) y = Some q' \<and> phase_bastion q' = B"
    if "\<exists>q. phases s y = Some q \<and> phase_bastion q = B" for y B
    using that ph b by auto
  have "c_role (conn_at h y) = ''daemon'' \<and>
      (\<exists>q. ((phases s)(c \<mapsto> p')) y = Some q \<and> phase_bastion q = rm_bastionID (room_at h r))"
    if "rm_daemon (room_at h r) = Some y" for r y
  proof -
    have "rm_daemon (room_at (ws_hub s) r) = Some y" using that sh by (simp add: shrinks_def)
    from members_okD(1) [OF m this] keep show ?thesis unfolding bas co by blast
  qed
  moreover have "c_role (conn_at h y) = ''client'' \<and> c_clientID (conn_at h y) = k \<and>
      (\<exists>q. ((phases s)(c \<mapsto> p')) y = Some q \<and> phase_bastion q = rm_bastionID (room_at h r))"
    if "rm_clients (room_at h r) k = Some y" for r k y
  proof -
    have "rm_clients (room_at (ws_hub s) r) k = Some y" using that sh by (simp add: shrinks_def)
    from members_okD(2) [OF m this] keep show ?thesis unfolding bas co by blast
  qed
  ultimately show ?thesis unfolding members_ok_def ws_fields by blast
qed

definition holds_room :: "phase \<Rightarrow> string \<Rightarrow> nat \<Rightarrow> bool" where
  "holds_room p b r \<longleftrightarrow> p \<in> {Joined b r, Removing b r, Rechecking b r}"

lemma leave_change_rooms:
  assumes ro: "rooms_ok s" and ph: "phases s c = Some p" and sh: "shrinks (ws_hub s) h"
    and new: "\<And>b r. holds_room p' b r \<Longrightarrow> r < next_room (ws_hub s) \<and> rm_bastionID (room_at (ws_hub s) r) = b"
  shows "rooms_ok (s\<lparr>ws_hub := h, phases := (phases s)(c \<mapsto> p')\<rparr>)"
proof -
  have bas: "rm_bastionID (room_at h r) = rm_bastionID (room_at (ws_hub s) r)" for r
    using sh by (simp add: shrinks_def)
  have co: "conn_at h = conn_at (ws_hub s)" "next_room h = next_room (ws_hub s)"
    using sh by (simp_all add: shrinks_def)
  have "r < next_room h \<and> rm_bastionID (room_at h r) = b" if "rooms h b = Some r" for b r
    using that sh rooms_okD(1) [OF ro, of b r] by (simp add: shrinks_def)
  moreover have "room_empty (room_at h r)" if "next_room h \<le> r" for r
    using rooms_okD(2) [OF ro, of r] that shrinks_member [OF sh, of r] co
    by (auto simp: room_empty_no_member)
  moreover have "finite (dom (rm_clients (room_at h r)))" for r
  proof (rule finite_subset [OF _ rooms_okD(3) [OF ro, of r]])
    show "dom (rm_clients (room_at h r)) \<subseteq> dom (rm_clients (room_at (ws_hub s) r))"
      using sh unfolding shrinks_def by blast
  qed
  moreover have "r < next_room h \<and> rm_bastionID (room_at h r) = b"
    if "((phases s)(c \<mapsto> p')) y \<in> {Some (Joined b r), Some (Removing b r), Some (Rechecking b r)}" for y b r
  proof (cases "y = c")
    case True
    with that have "holds_room p' b r" by (simp add: holds_room_def)
    from new [OF this] show ?thesis by (simp add: bas co)
  next
    case False
    with that rooms_okD(4-6) [OF ro, of y b r] show ?thesis unfolding bas co by auto
  qed
  moreover have "c_role (conn_at h y) = ''client'' \<or> c_role (conn_at h y) = ''daemon''"
    if "((phases s)(c \<mapsto> p')) y = Some q" for y q
    using that ph rooms_okD(7) [OF ro, of y] by (cases "y = c") (auto simp: co)
  ultimately show ?thesis unfolding rooms_ok_def ws_fields by blast
qed

text \<open>What is left to show of a leave step is the cleaning up.\<close>

lemma leave_change_inv:
  assumes "ws_inv s" and "phases s c = Some p" and "phase_bastion p' = phase_bastion p"
    and "shrinks (ws_hub s) h"
    and "\<And>b r. holds_room p' b r \<Longrightarrow> r < next_room (ws_hub s) \<and> rm_bastionID (room_at (ws_hub s) r) = b"
    and "\<And>b r y. rooms h b = Some r \<Longrightarrow> member h r y \<Longrightarrow>
      ((phases s)(c \<mapsto> p')) y = Some (Joined b r) \<or> ((phases s)(c \<mapsto> p')) y = Some (Removing b r)"
    and "\<And>b r. rooms h b = Some r \<Longrightarrow> room_empty (room_at h r) \<Longrightarrow>
      \<exists>y. ((phases s)(c \<mapsto> p')) y = Some (Rechecking b r)"
  shows "ws_inv (s\<lparr>ws_hub := h, phases := (phases s)(c \<mapsto> p')\<rparr>)"
proof -
  have m: "members_ok s" and ro: "rooms_ok s" using assms(1) by (auto simp: ws_inv_def)
  have "cleanup_ok (s\<lparr>ws_hub := h, phases := (phases s)(c \<mapsto> p')\<rparr>)"
    using assms(6,7) unfolding cleanup_ok_def ws_fields by blast
  with leave_change_members [OF m assms(2-4)] leave_change_rooms [OF ro assms(2,4,5)]
  show ?thesis by (simp add: ws_inv_def)
qed

lemma lookup_inv:
  assumes inv: "ws_inv s" and ph: "phases s c = Some (Joined b r)"
    and p: "p = (case leave_lookup (ws_hub s) b of None \<Rightarrow> Gone b | Some r' \<Rightarrow> Removing b r')"
  shows "ws_inv (s\<lparr>phases := (phases s)(c \<mapsto> p)\<rparr>)"
proof -
  have ro: "rooms_ok s" and cl: "cleanup_ok s" using inv by (auto simp: ws_inv_def)
  have "ws_inv (s\<lparr>ws_hub := ws_hub s, phases := (phases s)(c \<mapsto> p)\<rparr>)"
  proof (rule leave_change_inv [OF inv ph _ shrinks_refl])
    show "phase_bastion p = phase_bastion (Joined b r)" using p by (simp split: option.split)
  next
    fix b' r' assume "holds_room p b' r'"
    then have "rooms (ws_hub s) b' = Some r'"
      using p by (auto simp: holds_room_def leave_lookup_def split: option.splits)
    from rooms_okD(1) [OF ro this]
    show "r' < next_room (ws_hub s) \<and> rm_bastionID (room_at (ws_hub s) r') = b'" .
  next
    fix b' r' y assume *: "rooms (ws_hub s) b' = Some r'" "member (ws_hub s) r' y"
    show "((phases s)(c \<mapsto> p)) y = Some (Joined b' r') \<or> ((phases s)(c \<mapsto> p)) y = Some (Removing b' r')"
      using cleanup_okD(1) [OF cl *] * ph p by (cases "y = c") (simp_all add: leave_lookup_def)
  next
    fix b' r' assume "rooms (ws_hub s) b' = Some r'" "room_empty (room_at (ws_hub s) r')"
    from cleanup_okD(2) [OF cl this] obtain y where "phases s y = Some (Rechecking b' r')" ..
    with ph have "((phases s)(c \<mapsto> p)) y = Some (Rechecking b' r')" by auto
    then show "\<exists>y. ((phases s)(c \<mapsto> p)) y = Some (Rechecking b' r')" ..
  qed
  then show ?thesis by simp
qed

lemma removed_inv:
  assumes inv: "ws_inv s" and ph: "phases s c = Some (Removing b r)"
    and rem: "leave_remove (ws_hub s) r c = (h, isempty)"
  shows "ws_inv (s\<lparr>ws_hub := h, phases := (phases s)(c \<mapsto> if isempty then Rechecking b r else Gone b)\<rparr>)"
    (is "ws_inv (s\<lparr>ws_hub := h, phases := ?ph\<rparr>)")
proof -
  have m: "members_ok s" and ro: "rooms_ok s" and cl: "cleanup_ok s"
    using inv by (auto simp: ws_inv_def)
  note l = leave_remove_result [OF rem] and sh = shrinks_leave_remove [OF rem]
  show ?thesis
  proof (rule leave_change_inv [OF inv ph _ sh])
    show "phase_bastion (if isempty then Rechecking b r else Gone b) = phase_bastion (Removing b r)"
      by simp
  next
    fix b' r' assume "holds_room (if isempty then Rechecking b r else Gone b) b' r'"
    then have "b' = b \<and> r' = r" by (auto simp: holds_room_def split: if_splits)
    with rooms_okD(5) [OF ro ph]
    show "r' < next_room (ws_hub s) \<and> rm_bastionID (room_at (ws_hub s) r') = b'" by simp
  next
    fix b' r' y assume *: "rooms h b' = Some r'" "member h r' y"
    have old: "rooms (ws_hub s) b' = Some r'" using *(1) l(1) by simp
    have old2: "phases s y = Some (Joined b' r') \<or> phases s y = Some (Removing b' r')"
      using cleanup_okD(1) [OF cl old shrinks_member [OF sh *(2)]] .
    have "y \<noteq> c" using old2 ph *(2) leave_remove_out [OF m rem] by auto
    with old2 show "?ph y = Some (Joined b' r') \<or> ?ph y = Some (Removing b' r')" by simp
  next
    fix b' r' assume *: "rooms h b' = Some r'" "room_empty (room_at h r')"
    have old: "rooms (ws_hub s) b' = Some r'" using *(1) l(1) by simp
    show "\<exists>y. ?ph y = Some (Rechecking b' r')"
    proof (cases "r' = r")
      case True
      then have "b' = b" using rooms_okD(1) [OF ro old] rooms_okD(5) [OF ro ph] by simp
      with True *(2) l(6) have "?ph c = Some (Rechecking b' r')" by simp
      then show ?thesis ..
    next
      case False
      with *(2) l(4) obtain y where "phases s y = Some (Rechecking b' r')"
        using cleanup_okD(2) [OF cl old] by auto
      with ph have "?ph y = Some (Rechecking b' r')" by auto
      then show ?thesis ..
    qed
  qed
qed

lemma rechecked_inv:
  assumes inv: "ws_inv s" and ph: "phases s c = Some (Rechecking b r)"
  shows "ws_inv (s\<lparr>ws_hub := leave_recheck (ws_hub s) b r, phases := (phases s)(c \<mapsto> Gone b)\<rparr>)"
    (is "ws_inv (s\<lparr>ws_hub := ?h, phases := ?ph\<rparr>)")
proof (rule leave_change_inv [OF inv ph _ shrinks_leave_recheck])
  have cl: "cleanup_ok s" using inv by (auto simp: ws_inv_def)
  have same: "room_at ?h = room_at (ws_hub s)" by (simp add: leave_recheck_def)
  have sub: "rooms ?h b' = Some x \<Longrightarrow> rooms (ws_hub s) b' = Some x" for b' x
    using shrinks_leave_recheck unfolding shrinks_def by blast
  have gone: "rooms ?h b = Some r \<Longrightarrow> \<not> room_empty (room_at (ws_hub s) r)"
    by (auto simp: leave_recheck_def split: if_splits)
  show "phase_bastion (Gone b) = phase_bastion (Rechecking b r)" by simp
  show "holds_room (Gone b) b' r' \<Longrightarrow>
      r' < next_room (ws_hub s) \<and> rm_bastionID (room_at (ws_hub s) r') = b'" for b' r'
    by (simp add: holds_room_def)
  show "?ph y = Some (Joined b' r') \<or> ?ph y = Some (Removing b' r')"
    if "rooms ?h b' = Some r'" "member ?h r' y" for b' r' y
  proof -
    have "member (ws_hub s) r' y" using that(2) same by (simp add: member_def)
    from cleanup_okD(1) [OF cl sub [OF that(1)] this] ph show ?thesis by (cases "y = c") auto
  qed
  show "\<exists>y. ?ph y = Some (Rechecking b' r')"
    if known: "rooms ?h b' = Some r'" and emp: "room_empty (room_at ?h r')" for b' r'
  proof -
    obtain y where y: "phases s y = Some (Rechecking b' r')"
      using cleanup_okD(2) [OF cl sub [OF known]] emp unfolding same by blast
    have "y \<noteq> c" using y ph gone known emp unfolding same by auto
    with y have "?ph y = Some (Rechecking b' r')" by simp
    then show ?thesis ..
  qed
qed

lemma ws_step_inv [relay_inv]:
  assumes "ws_step s e s'" and "ws_inv s"
  shows "ws_inv s'"
  using assms
proof (cases rule: ws_step.cases)
  case (connect c rq role b cid subs h r)
  then have "joins s c role b cid h r"
    using HandleHTTP_start_role [OF connect(4)] by (simp add: joins_def)
  with connect assms(2) show ?thesis by (simp add: connect_inv)
next
  case (leave_none c b r)
  with lookup_inv [OF assms(2) leave_none(3)] show ?thesis by simp
next
  case (leave_found c b r r')
  with lookup_inv [OF assms(2) leave_found(3)] show ?thesis by simp
next
  case (removed c b r h isempty)
  with removed_inv [OF assms(2) removed(3,4)] show ?thesis by simp
next
  case (rechecked c b r)
  with rechecked_inv [OF assms(2) rechecked(3)] show ?thesis by simp
qed simp

lemma ws_reach_inv: "ws_reach tr s \<Longrightarrow> ws_inv s"
  by (induction rule: ws_reach.induct) (auto intro: ws_inv_init ws_step_inv)

end
