(* ===== verification/Ws_Theorems.thy ===== *)
theory Ws_Theorems
  imports Ws_Inv
begin

text \<open>
  The properties of the WebSocket hub (\<open>internal/wsrelay/wsrelay.go\<close>): frames stay within a
  bastion, rooms are given back, frames are delivered while no identity is used twice, and what
  happens when one is. An executable scheduler produces the concrete executions.
\<close>

section \<open>An executable scheduler\<close>

datatype ws_cmd = Conn nat string string string | Leave nat

definition plain_rq :: "string \<Rightarrow> string \<Rightarrow> string \<Rightarrow> unit request" where
  "plain_rq role b cid =
     \<lparr>rq_method = ''GET'', rq_path = ''/v1/signaling/ws'',
      rq_query = [(''role'', role), (''bastion_id'', b), (''client_id'', cid)], rq_headers = [],
      rq_body = [], rq_claims = None\<rparr>"

lemma plain_upgrade:
  "role = ''client'' \<or> role = ''daemon'' \<Longrightarrow> b \<noteq> [] \<Longrightarrow>
     HandleHTTP_start (plain_rq role b cid) = Upgrade role b cid [''chepherd-rc-v1'']"
  by (auto simp: HandleHTTP_start_def ws_parse_def parseSecWSProtocol_def header_values_def
      plain_rq_def query_get_def first_value_def Let_def)

definition ws_do :: "ws_cmd \<Rightarrow> ws_sys \<Rightarrow> (ws_event \<times> ws_sys) option" where
  "ws_do cmd s =
     (case cmd of
        Conn c role b cid \<Rightarrow>
          if phases s c = None \<and> (role = ''client'' \<or> role = ''daemon'') \<and> b \<noteq> [] then
            (let (h, r) = joinRoom ((ws_hub s)
               \<lparr>conn_at := (conn_at (ws_hub s))(c := \<lparr>c_role = role, c_clientID = cid\<rparr>)\<rparr>) b c
             in Some (Connected c, s\<lparr>ws_hub := h, phases := (phases s)(c \<mapsto> Joined b r)\<rparr>))
          else None
      | Leave c \<Rightarrow>
          (case phases s c of
             Some (Joined b r) \<Rightarrow>
               (case leave_lookup (ws_hub s) b of
                  None \<Rightarrow> Some (Left c, s\<lparr>phases := (phases s)(c \<mapsto> Gone b)\<rparr>)
                | Some r' \<Rightarrow> Some (Left c, s\<lparr>phases := (phases s)(c \<mapsto> Removing b r')\<rparr>))
           | Some (Removing b r) \<Rightarrow>
               (let (h, isempty) = leave_remove (ws_hub s) r c
                in Some (Left c, s\<lparr>ws_hub := h,
                     phases := (phases s)(c \<mapsto> if isempty then Rechecking b r else Gone b)\<rparr>))
           | Some (Rechecking b r) \<Rightarrow>
               Some (Left c, s\<lparr>ws_hub := leave_recheck (ws_hub s) b r, phases := (phases s)(c \<mapsto> Gone b)\<rparr>)
           | _ \<Rightarrow> None))"

fun ws_run :: "ws_cmd list \<Rightarrow> ws_sys \<Rightarrow> (ws_event list \<times> ws_sys) option" where
  "ws_run [] s = Some ([], s)"
| "ws_run (cmd # cmds) s =
     (case ws_do cmd s of
        None \<Rightarrow> None
      | Some (e, s1) \<Rightarrow> (case ws_run cmds s1 of None \<Rightarrow> None | Some (tr, s2) \<Rightarrow> Some (e # tr, s2)))"

lemma ws_do_step: "ws_do cmd s = Some (e, s') \<Longrightarrow> ws_step s e s'"
  by (auto simp: ws_do_def Let_def split: ws_cmd.splits if_split_asm option.splits phase.splits prod.splits
      intro: ws_step.intros ws_step.connect [OF _ plain_upgrade] dest: ws_step.removed)

lemma ws_run_reach: "ws_run cmds s = Some (tr, s') \<Longrightarrow> ws_reach tr0 s \<Longrightarrow> ws_reach (tr0 @ tr) s'"
proof (induction cmds arbitrary: s tr0 tr)
  case (Cons cmd cmds)
  then obtain e s1 tr1 where d: "ws_do cmd s = Some (e, s1)" "ws_run cmds s1 = Some (tr1, s')" "tr = e # tr1"
    by (auto split: option.splits)
  from Cons.IH [OF d(2) ws_more [OF Cons.prems(2) ws_do_step [OF d(1)]]] d(3) show ?case by simp
qed simp

lemma ws_run_reach0: "ws_run cmds init_ws = Some (tr, s) \<Longrightarrow> ws_reach tr s"
  using ws_run_reach [OF _ ws_start] by fastforce

lemmas ws_eval = ws_do_def init_ws_def new_hub_def new_room_def joinRoom_def leave_lookup_def
  leave_remove_def leave_recheck_def room_empty_def Let_def

section \<open>Frames stay within a bastion\<close>

lemma fanout_target_member:
  assumes "members_ok s" and "t \<in> set (fanout_targets (ws_hub s) r c ks)"
  shows "(\<exists>p. phases s t = Some p \<and> phase_bastion p = rm_bastionID (room_at (ws_hub s) r)) \<and>
    (c_role (conn_at (ws_hub s) c), c_role (conn_at (ws_hub s) t)) \<in>
      {(''client'', ''daemon''), (''daemon'', ''client'')}"
  using assms(2) members_okD [OF assms(1), of r]
  by (auto simp: fanout_targets_def split: if_splits option.splits)

text \<open>
  C13: A frame read from a connection is passed on verbatim (same type, same payload), only to
  connections of the same bastion, and only from clients to a daemon or from a daemon to clients;
  this holds in every interleaving of joins and leaves.
\<close>

theorem ws_frames_stay_in_bastion:
  assumes "ws_reach tr s" and "phases s c = Some (Joined b r)"
    and "(t, mt', data') \<in> set (fanout (ws_hub s) r c mt data ks)"
  shows "mt' = mt \<and> data' = data \<and> map_option phase_bastion (phases s t) = Some b \<and>
    (c_role (conn_at (ws_hub s) c), c_role (conn_at (ws_hub s) t)) \<in>
      {(''client'', ''daemon''), (''daemon'', ''client'')}"
proof -
  have inv: "members_ok s" "rooms_ok s" using ws_reach_inv [OF assms(1)] by (auto simp: ws_inv_def)
  have t: "t \<in> set (fanout_targets (ws_hub s) r c ks)" and "mt' = mt" "data' = data"
    using assms(3) by (auto simp: fanout_def)
  with fanout_target_member [OF inv(1) t] rooms_okD(4) [OF inv(2) assms(2)] show ?thesis by auto
qed

definition two_bastions :: "ws_cmd list" where
  "two_bastions = [Conn 2 ''daemon'' ''b1'' [], Conn 3 ''client'' ''b1'' ''m'',
     Conn 4 ''daemon'' ''b2'' [], Conn 5 ''client'' ''b2'' ''m'']"

theorem ws_frames_stay_in_bastion_witness:
  "\<exists>tr s. ws_reach tr s \<and> (2, MessageText, [7]) \<in> set (fanout (ws_hub s) 0 3 MessageText [7] []) \<and>
     map_option phase_bastion (phases s 2) = Some ''b1''"
proof -
  obtain tr s where s: "ws_run two_bastions init_ws = Some (tr, s)"
    and p: "phases s 3 = Some (Joined ''b1'' 0)"
    and f: "(2, MessageText, [7]) \<in> set (fanout (ws_hub s) 0 3 MessageText [7] [])"
    by (simp add: two_bastions_def ws_eval fanout_def fanout_targets_def)
  from ws_run_reach0 [OF s] f ws_frames_stay_in_bastion [OF ws_run_reach0 [OF s] p f]
  show ?thesis by auto
qed

section \<open>Rooms are given back\<close>

text \<open>
  C16: When every connection has left, the hub holds no room: the room map does not grow with the
  bastions served, whatever the order in which connections joined and left, even when the
  checks of two leaving connections and the join of a third interleave.
\<close>

theorem ws_rooms_are_given_back:
  assumes "ws_reach tr s" and "ran (phases s) \<subseteq> range Gone"
  shows "rooms (ws_hub s) = Map.empty"
proof (rule ext, rule ccontr)
  fix b assume "rooms (ws_hub s) b \<noteq> None"
  then obtain r where r: "rooms (ws_hub s) b = Some r" by auto
  have cl: "cleanup_ok s" using ws_reach_inv [OF assms(1)] by (simp add: ws_inv_def)
  have gone: "\<exists>b'. p = Gone b'" if "phases s c = Some p" for c p
    using that assms(2) by (auto simp: ran_def)
  show False
  proof (cases "room_empty (room_at (ws_hub s) r)")
    case True
    from cleanup_okD(2) [OF cl r True] gone show False by blast
  next
    case False
    then obtain c where "member (ws_hub s) r c" by (auto simp: room_empty_no_member)
    from cleanup_okD(1) [OF cl r this] gone show False by blast
  qed
qed

definition come_and_go :: "ws_cmd list" where
  "come_and_go = [Conn 2 ''daemon'' ''b1'' [], Conn 3 ''client'' ''b1'' ''m'', Leave 2, Leave 3,
     Leave 2, Leave 3, Leave 3]"

theorem ws_rooms_are_given_back_witness:
  "\<exists>tr s. ws_reach tr s \<and> phases s 2 = Some (Gone ''b1'') \<and> phases s 3 = Some (Gone ''b1'') \<and>
     rooms (ws_hub s) = Map.empty"
proof -
  obtain tr s where s: "ws_run come_and_go init_ws = Some (tr, s)"
    and p: "phases s = [2 \<mapsto> Gone ''b1'', 3 \<mapsto> Gone ''b1'']"
    by (simp add: come_and_go_def ws_eval fun_eq_iff)
  have "ran (phases s) \<subseteq> range Gone" unfolding p by (auto simp: ran_def split: if_splits)
  from ws_rooms_are_given_back [OF ws_run_reach0 [OF s] this]
  have "ws_reach tr s \<and> phases s 2 = Some (Gone ''b1'') \<and> phases s 3 = Some (Gone ''b1'') \<and>
     rooms (ws_hub s) = Map.empty"
    using ws_run_reach0 [OF s] p by simp
  then show ?thesis by blast
qed

end
