(* ===== verification/Ws_Delivery.thy ===== *)
theory Ws_Delivery
  imports Ws_Theorems
begin

text \<open>
  Delivery in the WebSocket hub (\<open>internal/wsrelay/wsrelay.go\<close>): as long as no two connections
  that are not yet gone use the same identity in a bastion, every frame reaches its other side;
  when an identity is used twice, it may not, and the last section shows how.
\<close>

section \<open>Executions without reused identities\<close>

text \<open>What a room files a connection under: the daemon's place, or the id of the client.\<close>

definition identity :: "hub \<Rightarrow> nat \<Rightarrow> string \<times> string" where
  "identity h c =
     (if c_role (conn_at h c) = ''daemon'' then (''daemon'', [])
      else (''client'', c_clientID (conn_at h c)))"

definition running :: "ws_sys \<Rightarrow> nat \<Rightarrow> string \<Rightarrow> bool" where
  "running s c b \<longleftrightarrow> (\<exists>p. phases s c = Some p \<and> phase_bastion p = b \<and> p \<noteq> Gone b)"

definition distinct_ids :: "ws_sys \<Rightarrow> bool" where
  "distinct_ids s \<longleftrightarrow>
     (\<forall>b c c'. running s c b \<longrightarrow> running s c' b \<longrightarrow> identity (ws_hub s) c = identity (ws_hub s) c' \<longrightarrow> c = c')"

inductive orderly :: "ws_event list \<Rightarrow> ws_sys \<Rightarrow> bool" where
  orderly_start: "orderly [] init_ws"
| orderly_more: "orderly tr s \<Longrightarrow> ws_step s e s' \<Longrightarrow> distinct_ids s' \<Longrightarrow> orderly (tr @ [e]) s'"

lemma orderly_reach: "orderly tr s \<Longrightarrow> ws_reach tr s"
  by (induction rule: orderly.induct) (auto intro: ws_reach.intros)

lemma orderly_distinct: "orderly tr s \<Longrightarrow> distinct_ids s"
  by (induction rule: orderly.induct) (auto simp: distinct_ids_def running_def init_ws_def)

lemma orderly_inv: "orderly tr s \<Longrightarrow> ws_inv s"
  by (rule ws_reach_inv [OF orderly_reach])

section \<open>Every reading connection is in the room of its bastion\<close>

definition filed :: "hub \<Rightarrow> nat \<Rightarrow> nat \<Rightarrow> bool" where
  "filed h r c \<longleftrightarrow>
     (if c_role (conn_at h c) = ''daemon'' then rm_daemon (room_at h r) = Some c
      else rm_clients (room_at h r) (c_clientID (conn_at h c)) = Some c)"

definition settled :: "ws_sys \<Rightarrow> bool" where
  "settled s \<longleftrightarrow>
     (\<forall>c b r. phases s c = Some (Joined b r) \<longrightarrow> rooms (ws_hub s) b = Some r \<and> filed (ws_hub s) r c)"

lemma settledD:
  "settled s \<Longrightarrow> phases s c = Some (Joined b r) \<Longrightarrow> rooms (ws_hub s) b = Some r"
  "settled s \<Longrightarrow> phases s c = Some (Joined b r) \<Longrightarrow> filed (ws_hub s) r c"
  by (auto simp: settled_def)

lemma filed_member: "filed h r c \<Longrightarrow> member h r c"
  by (auto simp: filed_def member_def ran_def split: if_splits)

lemma running_joined: "phases s c = Some (Joined b r) \<Longrightarrow> running s c b"
  by (simp add: running_def)

lemma distinct_idsD:
  "distinct_ids s \<Longrightarrow> running s c b \<Longrightarrow> running s c' b \<Longrightarrow> c \<noteq> c' \<Longrightarrow>
     identity (ws_hub s) c \<noteq> identity (ws_hub s) c'"
  unfolding distinct_ids_def by blast

lemma joins_filed:
  assumes jo: "joins s c0 role b0 cid h r0" and "c \<noteq> c0" and "filed (ws_hub s) r c"
    and known: "rooms (ws_hub s) b = Some r" and ids: "identity h c \<noteq> identity h c0 \<or> r \<noteq> r0"
    and "rooms_ok s"
  shows "filed h r c"
proof (cases "r = r0")
  case False
  with joins_hub(4,8) [OF jo] assms(2,3) show ?thesis by (simp add: filed_def)
next
  case True
  note j = joins_hub [OF jo] and role = joins_role [OF jo]
  have "rooms (ws_hub s) b0 = Some r"
    using joins_bastion(3) [OF jo assms(6)] filed_member [OF assms(3)] True by blast
  then have base: "base_room (ws_hub s) b0 r = room_at (ws_hub s) r" by (simp add: base_room_def)
  from role show ?thesis
  proof
    assume "role = ''client''"
    with j(7,8,9) base True ids assms(2,3) show ?thesis
      by (auto simp: filed_def identity_def split: if_splits)
  next
    assume "role = ''daemon''"
    with j(6,8,9) base True ids assms(2,3) show ?thesis
      by (auto simp: filed_def identity_def split: if_splits)
  qed
qed

lemma joins_filed_new: "joins s c role b cid h r \<Longrightarrow> filed h r c"
  using joins_hub(6,7,9) [of s c role b cid h r] joins_role [of s c role b cid h r]
  by (auto simp: filed_def)

lemma settled_connect:
  assumes se: "settled s" and inv: "ws_inv s" and jo: "joins s c0 role b0 cid h r0"
    and ids: "distinct_ids (s\<lparr>ws_hub := h, phases := (phases s)(c0 \<mapsto> Joined b0 r0)\<rparr>)" (is "distinct_ids ?s")
  shows "settled ?s"
proof -
  have ro: "rooms_ok s" using inv by (simp add: ws_inv_def)
  note j = joins_hub [OF jo]
  have "rooms h b = Some r \<and> filed h r c"
    if ph: "((phases s)(c0 \<mapsto> Joined b0 r0)) c = Some (Joined b r)" for c b r
  proof (cases "c = c0")
    case True
    with ph j(2) joins_filed_new [OF jo] show ?thesis by simp
  next
    case False
    then have old: "phases s c = Some (Joined b r)" using ph by simp
    note known = settledD(1) [OF se old]
    have "identity h c \<noteq> identity h c0 \<or> r \<noteq> r0"
    proof (cases "r = r0")
      case True
      then have "b = b0" using joins_bastion(3) [OF jo ro]
          filed_member [OF settledD(2) [OF se old]] rooms_okD(1) [OF ro] known by blast
      then have "running ?s c b0" "running ?s c0 b0" using False old by (simp_all add: running_def)
      from distinct_idsD [OF ids this False] show ?thesis by simp
    qed simp
    from joins_filed [OF jo False settledD(2) [OF se old] known this ro]
    show ?thesis using j(1,2) known by auto
  qed
  then show ?thesis by (simp add: settled_def)
qed

lemma settled_phase:
  "settled s \<Longrightarrow> (\<And>b r. p \<noteq> Joined b r) \<Longrightarrow> settled (s\<lparr>phases := (phases s)(c \<mapsto> p)\<rparr>)"
  by (auto simp: settled_def split: if_splits)

lemma settled_removed:
  assumes se: "settled s" and ids: "distinct_ids s" and ro: "rooms_ok s"
    and ph: "phases s c0 = Some (Removing b0 r0)" and rem: "leave_remove (ws_hub s) r0 c0 = (h, isempty)"
    and p: "\<And>b r. p \<noteq> Joined b r"
  shows "settled (s\<lparr>ws_hub := h, phases := (phases s)(c0 \<mapsto> p)\<rparr>)"
proof -
  note l = leave_remove_result [OF rem]
  have "rooms h b = Some r \<and> filed h r c"
    if new: "((phases s)(c0 \<mapsto> p)) c = Some (Joined b r)" for c b r
  proof -
    have old: "phases s c = Some (Joined b r)" and ne: "c \<noteq> c0" using new p by (auto split: if_splits)
    note f = settledD(2) [OF se old]
    have "filed h r c"
    proof (cases "r = r0")
      case False
      with f l(3,4) show ?thesis by (simp add: filed_def)
    next
      case True
      then have "b = b0" using rooms_okD(4) [OF ro old] rooms_okD(5) [OF ro ph] by simp
      then have "identity (ws_hub s) c \<noteq> identity (ws_hub s) c0"
        using distinct_idsD [OF ids running_joined [OF old], of c0] ne ph by (simp add: running_def)
      then show ?thesis
        using f ne True l(3,7,8) rooms_okD(7) [OF ro ph] rooms_okD(7) [OF ro old]
        by (auto simp: filed_def identity_def split: if_splits)
    qed
    with settledD(1) [OF se old] l(1) show ?thesis by simp
  qed
  then show ?thesis by (simp add: settled_def)
qed

lemma settled_rechecked:
  assumes se: "settled s" and "p = Gone b0"
  shows "settled (s\<lparr>ws_hub := leave_recheck (ws_hub s) b0 r0, phases := (phases s)(c0 \<mapsto> p)\<rparr>)"
proof -
  have "rooms (leave_recheck (ws_hub s) b0 r0) b = Some r \<and> filed (leave_recheck (ws_hub s) b0 r0) r c"
    if old: "phases s c = Some (Joined b r)" for c b r
    using settledD [OF se old] filed_member [OF settledD(2) [OF se old]]
    by (auto simp: leave_recheck_def filed_def room_empty_no_member)
  with assms(2) show ?thesis by (auto simp: settled_def split: if_splits)
qed

lemma orderly_settled: "orderly tr s \<Longrightarrow> settled s"
proof (induction rule: orderly.induct)
  case (orderly_more tr s e s')
  have inv: "ws_inv s" "rooms_ok s" using orderly_inv [OF orderly_more(1)] by (auto simp: ws_inv_def)
  from orderly_more.hyps(2) show ?case
  proof (cases rule: ws_step.cases)
    case (connect c rq role b cid subs h r)
    then have "joins s c role b cid h r"
      using HandleHTTP_start_role [OF connect(4)] by (simp add: joins_def)
    from settled_connect [OF orderly_more.IH inv(1) this] orderly_more.hyps(3) connect(2)
    show ?thesis by simp
  next
    case (removed c b r h isempty)
    from settled_removed [OF orderly_more.IH orderly_distinct [OF orderly_more(1)] inv(2) removed(3,4),
        of "if isempty then Rechecking b r else Gone b"] removed(2)
    show ?thesis by simp
  next
    case (rechecked c b r)
    with settled_rechecked [OF orderly_more.IH refl] show ?thesis by simp
  qed (use orderly_more.IH in \<open>auto intro: settled_phase\<close>)
qed (simp add: settled_def init_ws_def)

section \<open>Delivery\<close>

lemma count_list_distinct: "distinct xs \<Longrightarrow> x \<in> set xs \<Longrightarrow> count_list xs x = 1"
  by (induction xs) auto

text \<open>Commands run one at a time, each state checked for reused identities.\<close>

lemma orderly_do:
  "orderly tr s \<Longrightarrow> ws_do cmd s = Some (e, s') \<Longrightarrow> distinct_ids s' \<Longrightarrow> orderly (tr @ [e]) s'"
  by (rule orderly_more [OF _ ws_do_step])

lemma daemon_and_client:
  "\<exists>tr s. orderly tr s \<and> phases s = [2 \<mapsto> Joined ''b1'' 0, 3 \<mapsto> Joined ''b1'' 0] \<and>
     c_role (conn_at (ws_hub s) 2) = ''daemon'' \<and> c_role (conn_at (ws_hub s) 3) = ''client'' \<and>
     rm_clients (room_at (ws_hub s) 0) = [''m'' \<mapsto> 3]"
proof -
  obtain e1 s1 where s1: "ws_do (Conn 2 ''daemon'' ''b1'' []) init_ws = Some (e1, s1)"
    and p1: "phases s1 = [2 \<mapsto> Joined ''b1'' 0]" and r1: "c_role (conn_at (ws_hub s1) 2) = ''daemon''"
    and h1: "rooms (ws_hub s1) = [''b1'' \<mapsto> 0]" "rm_clients (room_at (ws_hub s1) 0) = Map.empty"
    by (simp add: ws_eval)
  have "distinct_ids s1" using p1 by (auto simp: distinct_ids_def running_def split: if_splits)
  from orderly_do [OF orderly_start s1 this] have o1: "orderly [e1] s1" by simp
  obtain e2 s2 where s2: "ws_do (Conn 3 ''client'' ''b1'' ''m'') s1 = Some (e2, s2)"
    and p2: "phases s2 = [2 \<mapsto> Joined ''b1'' 0, 3 \<mapsto> Joined ''b1'' 0]"
    and r2: "c_role (conn_at (ws_hub s2) 2) = ''daemon''" "c_role (conn_at (ws_hub s2) 3) = ''client''"
    and h2: "rm_clients (room_at (ws_hub s2) 0) = [''m'' \<mapsto> 3]"
    using p1 r1 h1 by (simp add: ws_do_def joinRoom_def Let_def)
  have "distinct_ids s2"
    using p2 r2 by (auto simp: distinct_ids_def running_def identity_def split: if_splits)
  from orderly_do [OF o1 s2 this] p2 r2 h2 show ?thesis by blast
qed

lemma orderly_same_room:
  assumes "orderly tr s" and "phases s c = Some (Joined b r)" and "phases s d = Some (Joined b r')"
  shows "r' = r"
  using settledD(1) [OF orderly_settled [OF assms(1)] assms(2)]
    settledD(1) [OF orderly_settled [OF assms(1)] assms(3)] by simp

text \<open>
  C14: In an execution without reused identities, a frame of a connected client reaches the
  connected daemon of its bastion, once, and nobody else.
\<close>

theorem client_frame_reaches_daemon:
  assumes "orderly tr s" and "phases s c = Some (Joined b r)" and "phases s d = Some (Joined b r')"
    and "c_role (conn_at (ws_hub s) c) = ''client''" and "c_role (conn_at (ws_hub s) d) = ''daemon''"
  shows "fanout (ws_hub s) r c mt data ks = [(d, mt, data)]"
  using settledD(2) [OF orderly_settled [OF assms(1)] assms(3)] orderly_same_room [OF assms(1-3)]
    assms(4,5)
  by (simp add: fanout_def fanout_targets_def filed_def)

theorem client_frame_reaches_daemon_witness:
  "\<exists>tr s. orderly tr s \<and> fanout (ws_hub s) 0 3 MessageText [7] [] = [(2, MessageText, [7])]"
proof -
  obtain tr s where s: "orderly tr s" "phases s = [2 \<mapsto> Joined ''b1'' 0, 3 \<mapsto> Joined ''b1'' 0]"
    and r: "c_role (conn_at (ws_hub s) 2) = ''daemon''" "c_role (conn_at (ws_hub s) 3) = ''client''"
    using daemon_and_client by blast
  have "fanout (ws_hub s) 0 3 MessageText [7] [] = [(2, MessageText, [7])]"
    by (rule client_frame_reaches_daemon [OF s(1)]) (use s(2) r in simp_all)
  with s(1) show ?thesis by blast
qed

text \<open>
  C15: In an execution without reused identities, a frame of the connected daemon reaches every
  connected client of its bastion exactly once, in whatever order the loop over the map runs.
\<close>

theorem daemon_frame_reaches_every_client:
  assumes "orderly tr s" and "phases s d = Some (Joined b r)" and "phases s c = Some (Joined b r')"
    and "c_role (conn_at (ws_hub s) d) = ''daemon''" and "c_role (conn_at (ws_hub s) c) = ''client''"
    and "enumerates ks (rm_clients (room_at (ws_hub s) r))"
  shows "count_list (fanout (ws_hub s) r d mt data ks) (c, mt, data) = 1"
proof -
  let ?cl = "rm_clients (room_at (ws_hub s) r)" and ?k = "c_clientID (conn_at (ws_hub s) c)"
  let ?at = "\<lambda>k. case ?cl k of None \<Rightarrow> [] | Some x \<Rightarrow> [x]"
  have k: "?cl ?k = Some c"
    using settledD(2) [OF orderly_settled [OF assms(1)] assms(3)] orderly_same_room [OF assms(1-3)]
      assms(5) by (simp add: filed_def)
  have m: "members_ok s" using orderly_inv [OF assms(1)] by (simp add: ws_inv_def)
  have other: "c \<notin> set (?at x)" if "x \<noteq> ?k" for x
    using members_okD(2) [OF m, of r x c] that by (auto split: option.splits)
  have count: "count_list (concat (map ?at xs)) c = count_list xs ?k" for xs
    by (induction xs) (use k other in \<open>auto simp: count_list_0_iff split: option.splits\<close>)
  have "count_list ks ?k = 1"
    using assms(6) k by (intro count_list_distinct) (auto simp: enumerates_def)
  then show ?thesis
    using assms(4) count count_list_map_conv [of "\<lambda>t :: nat. (t, mt, data)"]
    by (simp add: fanout_def fanout_targets_def inj_on_def)
qed

theorem daemon_frame_reaches_every_client_witness:
  "\<exists>tr s. orderly tr s \<and> count_list (fanout (ws_hub s) 0 2 MessageText [7] [''m'']) (3, MessageText, [7]) = 1"
proof -
  obtain tr s where s: "orderly tr s" "phases s = [2 \<mapsto> Joined ''b1'' 0, 3 \<mapsto> Joined ''b1'' 0]"
    and r: "c_role (conn_at (ws_hub s) 2) = ''daemon''" "c_role (conn_at (ws_hub s) 3) = ''client''"
    and h: "rm_clients (room_at (ws_hub s) 0) = [''m'' \<mapsto> 3]"
    using daemon_and_client by blast
  have "count_list (fanout (ws_hub s) 0 2 MessageText [7] [''m'']) (3, MessageText, [7]) = 1"
    by (rule daemon_frame_reaches_every_client [OF s(1)])
      (use s(2) r h in \<open>simp_all add: enumerates_def\<close>)
  with s(1) show ?thesis by blast
qed

section \<open>When an identity is used twice\<close>

text \<open>
  C34: A client that reconnects under its id before its old connection has left loses its place:
  the leave of the old connection takes the new one's entry out (\<open>delete(room.clients,
  c.clientID)\<close> does not compare the pointer, as the daemon's case does). If the daemon then
  reconnects too, both sit in the same bastion, connected, in different rooms, and no frame of
  either reaches the other.
\<close>

theorem reconnecting_client_is_stranded:
  "\<exists>tr s b c d r r' cid. ws_reach tr s \<and>
     phases s c = Some (Joined b r) \<and> phases s d = Some (Joined b r') \<and>
     conn_at (ws_hub s) c = \<lparr>c_role = ''client'', c_clientID = cid\<rparr> \<and>
     c_role (conn_at (ws_hub s) d) = ''daemon'' \<and>
     fanout (ws_hub s) r c mt data ks = [] \<and> fanout (ws_hub s) r' d mt data ks' = []"
proof -
  let ?cmds = "[Conn 2 ''daemon'' ''b1'' [], Conn 3 ''client'' ''b1'' ''m'', Conn 4 ''client'' ''b1'' ''m'',
    Leave 3, Leave 3, Leave 2, Leave 2, Leave 2, Conn 5 ''daemon'' ''b1'' []]"
  obtain tr s where s: "ws_run ?cmds init_ws = Some (tr, s)"
    and p: "phases s 4 = Some (Joined ''b1'' 0)" "phases s 5 = Some (Joined ''b1'' (Suc 0))"
    and c: "conn_at (ws_hub s) 4 = \<lparr>c_role = ''client'', c_clientID = ''m''\<rparr>"
      "c_role (conn_at (ws_hub s) 5) = ''daemon''"
    and f: "fanout (ws_hub s) 0 4 mt data ks = []" "fanout (ws_hub s) (Suc 0) 5 mt data ks' = []"
    by (simp add: ws_eval fanout_def fanout_targets_def concat_eq_Nil_conv)
  from ws_run_reach0 [OF s] p c f show ?thesis by blast
qed

text \<open>
  A daemon that connects while another is connected takes over the frames of the clients,
  but the one it replaced is not disconnected: what that one sends still goes to every client.
\<close>

theorem replaced_daemon_still_broadcasts:
  "\<exists>tr s b r old new c k. ws_reach tr s \<and> old \<noteq> new \<and>
     phases s old = Some (Joined b r) \<and> phases s new = Some (Joined b r) \<and>
     fanout (ws_hub s) r c mt data ks = [(new, mt, data)] \<and>
     fanout (ws_hub s) r old mt data [k] = [(c, mt, data)] \<and>
     enumerates [k] (rm_clients (room_at (ws_hub s) r))"
proof -
  let ?cmds = "[Conn 2 ''daemon'' ''b1'' [], Conn 3 ''client'' ''b1'' ''m'', Conn 4 ''daemon'' ''b1'' []]"
  obtain tr s where s: "ws_run ?cmds init_ws = Some (tr, s)"
    and p: "phases s 2 = Some (Joined ''b1'' 0)" "phases s 4 = Some (Joined ''b1'' 0)"
    and f: "fanout (ws_hub s) 0 3 mt data ks = [(4, mt, data)]"
      "fanout (ws_hub s) 0 2 mt data [''m''] = [(3, mt, data)]"
      "enumerates [''m''] (rm_clients (room_at (ws_hub s) 0))"
    by (simp add: ws_eval fanout_def fanout_targets_def enumerates_def)
  have "(2::nat) \<noteq> 4" by simp
  with ws_run_reach0 [OF s] p f show ?thesis by blast
qed

section \<open>Statistics\<close>

lemma ws_Stats_fold:
  "set ks \<subseteq> dom (rooms h) \<Longrightarrow> distinct ks \<Longrightarrow>
   fold (stats_round h) ks out =
     \<lparr>OpenRooms = OpenRooms out + length ks,
      RoomsWithDaemon = RoomsWithDaemon out +
        card {b \<in> set ks. rm_daemon (room_at h (the (rooms h b))) \<noteq> None},
      OpenClientWs = OpenClientWs out +
        (\<Sum>b \<in> set ks. card (dom (rm_clients (room_at h (the (rooms h b))))))\<rparr>"
proof (induction ks arbitrary: out)
  case (Cons k ks)
  then obtain r where r: "rooms h k = Some r" by auto
  have set: "{b \<in> set (k # ks). rm_daemon (room_at h (the (rooms h b))) \<noteq> None} =
      (if rm_daemon (room_at h r) \<noteq> None
       then insert k {b \<in> set ks. rm_daemon (room_at h (the (rooms h b))) \<noteq> None}
       else {b \<in> set ks. rm_daemon (room_at h (the (rooms h b))) \<noteq> None})"
    using r by auto
  have "fold (stats_round h) ks (stats_round h k out) =
      \<lparr>OpenRooms = OpenRooms (stats_round h k out) + length ks,
      RoomsWithDaemon = RoomsWithDaemon (stats_round h k out) +
        card {b \<in> set ks. rm_daemon (room_at h (the (rooms h b))) \<noteq> None},
      OpenClientWs = OpenClientWs (stats_round h k out) +
        (\<Sum>b \<in> set ks. card (dom (rm_clients (room_at h (the (rooms h b))))))\<rparr>"
    using Cons by simp
  moreover have "stats_round h k out = \<lparr>OpenRooms = Suc (OpenRooms out),
      RoomsWithDaemon = RoomsWithDaemon out + (if rm_daemon (room_at h r) \<noteq> None then 1 else 0),
      OpenClientWs = OpenClientWs out + card (dom (rm_clients (room_at h r)))\<rparr>"
    using r by (simp add: stats_round_def)
  ultimately show ?case using Cons.prems r unfolding set by simp
qed simp

text \<open>
  The statistics count the rooms, the rooms with a daemon, and all client entries, in
  whatever order the loop over the rooms runs.
\<close>

theorem ws_Stats_counts:
  assumes "enumerates ks (rooms h)"
  shows "ws_Stats h ks =
    \<lparr>OpenRooms = card (dom (rooms h)),
     RoomsWithDaemon = card {b \<in> dom (rooms h). rm_daemon (room_at h (the (rooms h b))) \<noteq> None},
     OpenClientWs = (\<Sum>b \<in> dom (rooms h). card (dom (rm_clients (room_at h (the (rooms h b))))))\<rparr>"
proof -
  have "set ks = dom (rooms h)" "distinct ks" "length ks = card (dom (rooms h))"
    using assms distinct_card [of ks] by (auto simp: enumerates_def)
  then show ?thesis using ws_Stats_fold [of ks h] by (simp add: ws_Stats_def)
qed

theorem ws_Stats_counts_witness:
  "ws_Stats (new_hub\<lparr>rooms := [''b'' \<mapsto> 0]\<rparr>) [''b''] = \<lparr>OpenRooms = 1, RoomsWithDaemon = 0, OpenClientWs = 0\<rparr>"
  by (subst ws_Stats_counts) (simp_all add: enumerates_def new_hub_def new_room_def)

section \<open>The connection request\<close>

lemma ws_parse_single:
  assumes "header_values rq ''Sec-WebSocket-Protocol'' = [p]" and "split_on (CHR '','') p = [p]"
    and "trim_space p = p" and "p \<noteq> []"
  shows "parseSecWSProtocol rq = [p]"
  using assms by (simp add: parseSecWSProtocol_def)

text \<open>
  What a browser offers, \<open>chepherd-rc-v1.<bastion>.<token>\<close> with no query, connects it as a
  client of that bastion and is echoed as the negotiated protocol, whatever the token.
\<close>

theorem browser_offer_is_accepted:
  assumes "header_values rq ''Sec-WebSocket-Protocol'' = [''chepherd-rc-v1.'' @ b @ ''.'' @ tok]"
    and "CHR ''.'' \<notin> set b" and "CHR '','' \<notin> set b \<union> set tok" and "b \<noteq> []"
    and "trim_space (''chepherd-rc-v1.'' @ b @ ''.'' @ tok) = ''chepherd-rc-v1.'' @ b @ ''.'' @ tok"
    and "query_get rq ''role'' = []" and "query_get rq ''bastion_id'' = []"
  shows "HandleHTTP_start rq =
    Upgrade ''client'' b (query_get rq ''client_id'') [''chepherd-rc-v1.'' @ b @ ''.'' @ tok]"
proof -
  let ?p = "''chepherd-rc-v1.'' @ b @ ''.'' @ tok"
  have "parseSecWSProtocol rq = [?p]"
    using assms(1,3,5) by (intro ws_parse_single split_on_no_sep) auto
  moreover have "split2 (CHR ''.'') (b @ ''.'' @ tok) = [b, tok]"
    using split2_sep [OF assms(2), of tok] by simp
  moreover have "has_prefix ''chepherd-rc-v1.'' ?p" "trim_prefix ''chepherd-rc-v1.'' ?p = b @ ''.'' @ tok"
    by (rule has_prefix_append, rule trim_prefix_append)
  ultimately have "ws_parse rq = \<lparr>wp_role = ''client'', wp_bastionID = b, wp_negotiated = ?p\<rparr>"
    using assms(6,7) by (simp add: ws_parse_def ws_protocol_def Let_def del: append.simps)
  with assms(4) show ?thesis by (simp add: HandleHTTP_start_def Let_def)
qed

definition browser_rq :: "unit request" where
  "browser_rq =
     \<lparr>rq_method = ''GET'', rq_path = ''/v1/signaling/ws'', rq_query = [],
      rq_headers = [(''Sec-WebSocket-Protocol'', ''chepherd-rc-v1.'' @ ''b1'' @ ''.'' @ ''h.p.s'')],
      rq_body = [], rq_claims = None\<rparr>"

theorem browser_offer_is_accepted_witness:
  "HandleHTTP_start browser_rq = Upgrade ''client'' ''b1'' [] [''chepherd-rc-v1.b1.h.p.s'']"
proof -
  have "trim_space (''chepherd-rc-v1.'' @ ''b1'' @ ''.'' @ ''h.p.s'') = ''chepherd-rc-v1.'' @ ''b1'' @ ''.'' @ ''h.p.s''"
    by (rule trim_space_visible) (simp add: visible_def)
  with browser_offer_is_accepted [of browser_rq "''b1''" "''h.p.s''"] show ?thesis
    by (simp add: browser_rq_def header_values_def query_get_def first_value_def)
qed

lemma ws_protocol_keeps_bastion:
  "wp_bastionID w \<noteq> [] \<Longrightarrow> wp_bastionID (ws_protocol p w) = wp_bastionID w"
  by (auto simp: ws_protocol_def Let_def split: list.splits)

lemma ws_fold_keeps_bastion:
  "wp_bastionID w \<noteq> [] \<Longrightarrow> wp_bastionID (fold ws_protocol ps w) = wp_bastionID w"
  by (induction ps arbitrary: w) (auto simp: ws_protocol_keeps_bastion)

text \<open>
  The bastion of the query decides: no offered subprotocol replaces it.
\<close>

theorem query_bastion_wins:
  assumes "query_get rq ''bastion_id'' \<noteq> []" and "HandleHTTP_start rq = Upgrade role b cid subs"
  shows "b = query_get rq ''bastion_id''"
  using assms(2) ws_fold_keeps_bastion [of "\<lparr>wp_role = query_get rq ''role'',
      wp_bastionID = query_get rq ''bastion_id'', wp_negotiated = []\<rparr>"] assms(1)
  by (auto simp: HandleHTTP_start_def ws_parse_def Let_def split: if_splits)

theorem query_bastion_wins_witness:
  "\<exists>rq :: unit request. query_get rq ''bastion_id'' = ''b2'' \<and>
     parseSecWSProtocol rq = [''chepherd-rc-v1.b1.h.p.s''] \<and>
     (\<exists>role cid subs. HandleHTTP_start rq = Upgrade role ''b2'' cid subs)"
proof -
  let ?rq = "browser_rq\<lparr>rq_query := [(''bastion_id'', ''b2'')]\<rparr>" and ?p = "''chepherd-rc-v1.b1.h.p.s''"
  have q: "query_get ?rq ''bastion_id'' = ''b2''" and role: "query_get ?rq ''role'' = []"
    by (simp_all add: query_get_def first_value_def)
  have "trim_space ?p = ?p" by (rule trim_space_visible) (simp add: visible_def)
  then have p: "parseSecWSProtocol ?rq = [?p]"
    by (intro ws_parse_single) (simp_all add: browser_rq_def header_values_def)
  have "HandleHTTP_start ?rq = Upgrade ''client'' ''b2'' (query_get ?rq ''client_id'') [?p]"
    by (simp add: HandleHTTP_start_def ws_parse_def p q role ws_protocol_def has_prefix_def
        trim_prefix_def Let_def)
  with query_bastion_wins [OF _ this] p q show ?thesis by auto
qed

end
