(* ===== verification/Base64_Url.thy ===== *)
theory Base64_Url
  imports Relay_Prelude
begin

text \<open>
  \<open>base64URLDecode\<close> of \<open>internal/auth/auth.go\<close>, with the decoder it calls,
  \<open>base64.URLEncoding.DecodeString\<close>: the URL alphabet, padding required, carriage returns and
  line feeds skipped, unused low bits of the last symbol ignored. An error is the byte offset
  that the decoder reports. The unpadded encoding that tokens use is the reference.
\<close>

section \<open>The alphabet\<close>

definition b64_symbol :: "nat \<Rightarrow> char" where
  "b64_symbol n =
     char_of (if n < 26 then 65 + n else if n < 52 then 97 + (n - 26)
       else if n < 62 then 48 + (n - 52) else if n = 62 then 45 else 95)"

definition b64_value :: "char \<Rightarrow> nat option" where
  "b64_value c =
     (let n = of_char c :: nat in
      if 65 \<le> n \<and> n \<le> 90 then Some (n - 65)
      else if 97 \<le> n \<and> n \<le> 122 then Some (n - 97 + 26)
      else if 48 \<le> n \<and> n \<le> 57 then Some (n - 48 + 52)
      else if n = 45 then Some 62
      else if n = 95 then Some 63
      else None)"

definition is_newline :: "char \<Rightarrow> bool" where
  "is_newline c \<longleftrightarrow> of_char c = (10 :: nat) \<or> of_char c = (13 :: nat)"

abbreviation pad_char :: char where
  "pad_char \<equiv> CHR ''=''"

lemma of_char_of_small: "n < 256 \<Longrightarrow> of_char (char_of n :: char) = (n :: nat)"
  by (simp add: of_char_of)

lemma b64_value_symbol [simp]: "n < 64 \<Longrightarrow> b64_value (b64_symbol n) = Some n"
  by (auto simp: b64_value_def b64_symbol_def Let_def of_char_of_small)

lemma b64_symbol_other: "n < 64 \<Longrightarrow> \<not> is_newline (b64_symbol n) \<and> b64_symbol n \<noteq> pad_char"
proof -
  assume "n < 64"
  then have "b64_value (b64_symbol n) = Some n" by simp
  moreover have "is_newline c \<Longrightarrow> b64_value c = None" for c
    by (auto simp: is_newline_def b64_value_def)
  moreover have "b64_value pad_char = None" by (simp add: b64_value_def)
  ultimately show ?thesis by auto
qed

lemma b64_value_less: "b64_value c = Some n \<Longrightarrow> n < 64"
  by (auto simp: b64_value_def Let_def split: if_splits)

section \<open>Quanta\<close>

text \<open>
  Up to four 6-bit values make up to three bytes; the missing values count as zero
  (\<open>val := dbuf[0]<<18 | dbuf[1]<<12 | dbuf[2]<<6 | dbuf[3]\<close>).
\<close>

definition b64_bytes :: "nat list \<Rightarrow> bytes" where
  "b64_bytes d =
     (let a = d ! 0; b = (if 1 < length d then d ! 1 else 0);
          c = (if 2 < length d then d ! 2 else 0); e = (if 3 < length d then d ! 3 else 0);
          v = a * 262144 + b * 4096 + c * 64 + e
      in take (length d - 1) [word_of_nat (v div 65536), word_of_nat (v div 256), word_of_nat v])"

fun skip_newlines :: "nat \<Rightarrow> string \<Rightarrow> nat \<times> string" where
  "skip_newlines si [] = (si, [])"
| "skip_newlines si (c # cs) = (if is_newline c then skip_newlines (Suc si) cs else (si, c # cs))"

text \<open>After the padding only line breaks may follow.\<close>

definition b64_finish :: "nat list \<Rightarrow> nat \<Rightarrow> string \<Rightarrow> nat + bytes" where
  "b64_finish d si cs =
     (case skip_newlines si cs of
        (si', []) \<Rightarrow> Inr (b64_bytes d)
      | (si', _ # _) \<Rightarrow> Inl si')"

text \<open>\<open>si\<close> is the offset of the rest of the input, \<open>d\<close> the values of the quantum so far.\<close>

fun b64_decode :: "nat \<Rightarrow> nat list \<Rightarrow> string \<Rightarrow> nat + bytes" where
  "b64_decode si d [] = (if d = [] then Inr [] else Inl (si - length d))"
| "b64_decode si d (c # cs) =
     (case b64_value c of
        Some v \<Rightarrow>
          (if length d = 3 then
             (case b64_decode (Suc si) [] cs of
                Inl e \<Rightarrow> Inl e
              | Inr bs \<Rightarrow> Inr (b64_bytes (d @ [v]) @ bs))
           else b64_decode (Suc si) (d @ [v]) cs)
      | None \<Rightarrow>
          if is_newline c then b64_decode (Suc si) d cs
          else if c \<noteq> pad_char then Inl si
          else if length d < 2 then Inl si
          else if length d = 2 then
            (case skip_newlines (Suc si) cs of
               (si', []) \<Rightarrow> Inl si'
             | (si', x # xs) \<Rightarrow> if x \<noteq> pad_char then Inl (si' - 1) else b64_finish d (Suc si') xs)
          else b64_finish d (Suc si) cs)"

definition base64URLDecode :: "string \<Rightarrow> nat + bytes" where
  "base64URLDecode s =
     b64_decode 0 []
       (if length s mod 4 = 2 then s @ [pad_char, pad_char]
        else if length s mod 4 = 3 then s @ [pad_char]
        else s)"

section \<open>The unpadded encoding\<close>

fun b64_encode :: "bytes \<Rightarrow> string" where
  "b64_encode (a # b # c # rest) =
     (let v = unat a * 65536 + unat b * 256 + unat c in
      [b64_symbol (v div 262144), b64_symbol (v div 4096 mod 64), b64_symbol (v div 64 mod 64),
       b64_symbol (v mod 64)] @ b64_encode rest)"
| "b64_encode [a, b] =
     (let v = unat a * 65536 + unat b * 256 in
      [b64_symbol (v div 262144), b64_symbol (v div 4096 mod 64), b64_symbol (v div 64 mod 64)])"
| "b64_encode [a] =
     (let v = unat a * 65536 in [b64_symbol (v div 262144), b64_symbol (v div 4096 mod 64)])"
| "b64_encode [] = []"

lemma value_6: "unat (a :: byte) * 65536 + unat (b :: byte) * 256 + unat (c :: byte) < 16777216"
  using unat_byte_less [of a] unat_byte_less [of b] unat_byte_less [of c] by linarith

lemma digits_6:
  assumes "v < (16777216 :: nat)"
  shows "v div 262144 * 262144 + v div 4096 mod 64 * 4096 + v div 64 mod 64 * 64 + v mod 64 = v"
    and "v div 262144 < 64"
proof -
  have "v div 64 = v div 4096 * 64 + v div 64 mod 64"
    using div_mult_mod_eq [of "v div 64" 64] by (simp add: div_mult2_eq [symmetric])
  moreover have "v div 4096 = v div 262144 * 64 + v div 4096 mod 64"
    using div_mult_mod_eq [of "v div 4096" 64] by (simp add: div_mult2_eq [symmetric])
  moreover have "v = v div 64 * 64 + v mod 64" by simp
  ultimately show "v div 262144 * 262144 + v div 4096 mod 64 * 4096 + v div 64 mod 64 * 64 + v mod 64 = v"
    by linarith
  show "v div 262144 < 64" using assms by (simp add: less_mult_imp_div_less)
qed

lemma word_byte_div:
  "word_of_nat ((unat (a :: byte) * 65536 + unat (b :: byte) * 256 + unat (c :: byte)) div 65536) = a"
  "word_of_nat ((unat a * 65536 + unat b * 256 + unat c) div 256) = b"
  "word_of_nat (unat a * 65536 + unat b * 256 + unat c) = c"
proof -
  have a: "unat a < 256" "unat b < 256" "unat c < 256" by (rule unat_byte_less)+
  then have "(unat a * 65536 + unat b * 256 + unat c) div 65536 = unat a" by linarith
  then show "word_of_nat ((unat a * 65536 + unat b * 256 + unat c) div 65536) = a" by simp
  have byte_mod: "word_of_nat (n * 256 + unat w) = w" for n and w :: byte
  proof -
    have "word_of_nat n * (256 :: byte) = 0"
      using word_of_nat_eq_0_iff [where 'a = 8, of "n * 256"] by simp
    then show ?thesis by simp
  qed
  have "(unat a * 65536 + unat b * 256 + unat c) div 256 = unat a * 256 + unat b" using a by linarith
  then show "word_of_nat ((unat a * 65536 + unat b * 256 + unat c) div 256) = b"
    by (simp only: byte_mod)
  have "unat a * 65536 + unat b * 256 + unat c = (unat a * 256 + unat b) * 256 + unat c" by simp
  then show "word_of_nat (unat a * 65536 + unat b * 256 + unat c) = c" by (simp only: byte_mod)
qed

text \<open>The quantum of one group of three, two or one bytes.\<close>

lemma b64_bytes_3:
  fixes a b c :: byte
  defines "v \<equiv> unat a * 65536 + unat b * 256 + unat c"
  shows "b64_bytes [v div 262144, v div 4096 mod 64, v div 64 mod 64, v mod 64] = [a, b, c]"
proof -
  have "v div 262144 * 262144 + v div 4096 mod 64 * 4096 + v div 64 mod 64 * 64 + v mod 64 = v"
    using digits_6(1) value_6 [of a b c] by (simp only: v_def)
  then have "b64_bytes [v div 262144, v div 4096 mod 64, v div 64 mod 64, v mod 64] =
      [word_of_nat (v div 65536), word_of_nat (v div 256), word_of_nat v]"
    by (simp only: b64_bytes_def Let_def) simp
  then show ?thesis unfolding v_def using word_byte_div [of a b c] by simp
qed

lemma b64_bytes_2:
  fixes a b :: byte
  defines "v \<equiv> unat a * 65536 + unat b * 256"
  shows "b64_bytes [v div 262144, v div 4096 mod 64, v div 64 mod 64] = [a, b]"
proof -
  have "v < 16777216" using value_6 [of a b 0] by (simp add: v_def)
  moreover have "v mod 64 = 0" by (simp add: v_def)
  ultimately have "v div 262144 * 262144 + v div 4096 mod 64 * 4096 + v div 64 mod 64 * 64 = v"
    using digits_6(1) [of v] by simp
  then have "b64_bytes [v div 262144, v div 4096 mod 64, v div 64 mod 64] =
      [word_of_nat (v div 65536), word_of_nat (v div 256)]"
    by (simp only: b64_bytes_def Let_def) simp
  then show ?thesis unfolding v_def using word_byte_div(1,2) [of a b 0] by simp
qed

lemma b64_bytes_1:
  fixes a :: byte
  defines "v \<equiv> unat a * 65536"
  shows "b64_bytes [v div 262144, v div 4096 mod 64] = [a]"
proof -
  have "v < 16777216" using value_6 [of a 0 0] by (simp add: v_def)
  moreover have "v mod 64 = 0" "v div 64 mod 64 = 0" by (simp_all add: v_def)
  ultimately have "v div 262144 * 262144 + v div 4096 mod 64 * 4096 = v"
    using digits_6(1) [of v] by simp
  then have "b64_bytes [v div 262144, v div 4096 mod 64] = [word_of_nat (v div 65536)]"
    by (simp only: b64_bytes_def Let_def) simp
  then show ?thesis unfolding v_def using word_byte_div(1) [of a 0 0] by simp
qed

section \<open>Round trip\<close>

fun b64_padding :: "bytes \<Rightarrow> string" where
  "b64_padding (a # b # c # rest) = b64_padding rest"
| "b64_padding [a, b] = [pad_char]"
| "b64_padding [a] = [pad_char, pad_char]"
| "b64_padding [] = []"

lemma b64_encode_length:
  "b64_padding bs =
     (if length (b64_encode bs) mod 4 = 2 then [pad_char, pad_char]
      else if length (b64_encode bs) mod 4 = 3 then [pad_char] else [])"
  by (induction bs rule: b64_padding.induct) (simp_all add: Let_def)

lemma b64_value_pad: "b64_value pad_char = None" "\<not> is_newline pad_char"
  by (simp_all add: b64_value_def is_newline_def)

lemma b64_decode_encode: "b64_decode si [] (b64_encode bs @ b64_padding bs) = Inr bs"
proof (induction bs arbitrary: si rule: b64_encode.induct)
  case (1 a b c rest)
  define v where "v = unat a * 65536 + unat b * 256 + unat c"
  have "v div 262144 < 64" using digits_6(2) value_6 [of a b c] by (simp only: v_def)
  then show ?case
    using 1 b64_bytes_3 [of a b c] by (simp add: Let_def v_def [symmetric])
next
  case (2 a b)
  define v where "v = unat a * 65536 + unat b * 256"
  have "v div 262144 < 64" using digits_6(2) value_6 [of a b 0] by (simp add: v_def)
  then show ?case
    using b64_bytes_2 [of a b] by (simp add: Let_def v_def [symmetric] b64_value_pad b64_finish_def)
next
  case (3 a)
  define v where "v = unat a * 65536"
  have "v div 262144 < 64" using digits_6(2) value_6 [of a 0 0] by (simp add: v_def)
  then show ?case
    using b64_bytes_1 [of a] by (simp add: Let_def v_def [symmetric] b64_value_pad b64_finish_def)
qed simp

lemma b64_roundtrip: "base64URLDecode (b64_encode bs) = Inr bs"
  using b64_decode_encode [of 0 bs] b64_encode_length [of bs]
  by (simp add: base64URLDecode_def split: if_splits)

text \<open>
  C32: A segment of a token decodes to the bytes it encodes: decoding undoes the unpadded URL
  encoding, for every length.
\<close>

theorem base64URLDecode_encode: "base64URLDecode (b64_encode bs) = Inr bs"
  by (rule b64_roundtrip)

end
