(* ===== verification/Auth.thy ===== *)
theory Auth
  imports Base64_Url Http_Model
begin

text \<open>
  Bearer-token verification (\<open>internal/auth/auth.go\<close> and \<open>rs256.go\<close>): the claims and their
  two permission checks, the verifier with its key cache, the refresh of the key set, the
  verification of a token, and the middleware.

  \<open>Verify\<close>, \<open>keyFor\<close> and \<open>refresh\<close> are composed of the parts that lie between two sections under
  the verifier's mutex, so that \<open>Auth_Concurrent\<close> can interleave them.

  Collected in the record \<open>auth_lib\<close> are the functions the package calls and does not define:
  the JSON parser on bytes (its tree is decoded by \<open>Json_Data\<close>), the wording of decoding errors
  and of quoted strings, SHA-256, the RSA check of \<open>crypto/rsa\<close>, and the HTTP client, which acts
  on the world \<open>'w\<close> outside the process.
\<close>

section \<open>Claims\<close>

record claims =
  Subject :: string
  UserID :: string
  PermittedBastions :: "string list"
  Expiry :: int64
  IssuedAt :: int64
  Issuer :: string
  Audience :: string
  ClientID :: string
  IsDaemon :: bool

definition zero_claims :: claims where
  "zero_claims =
     \<lparr>Subject = [], UserID = [], PermittedBastions = [], Expiry = 0, IssuedAt = 0, Issuer = [],
      Audience = [], ClientID = [], IsDaemon = False\<rparr>"

definition claims_fields :: "claims field_spec list" where
  "claims_fields =
     [fld ''sub'' Subject Subject_update dec_string,
      fld ''chepherd:user_id'' UserID UserID_update dec_string,
      fld ''chepherd:permitted_bastions'' PermittedBastions PermittedBastions_update (dec_slice dec_string []),
      fld ''exp'' Expiry Expiry_update dec_int,
      fld ''iat'' IssuedAt IssuedAt_update dec_int,
      fld ''iss'' Issuer Issuer_update dec_string,
      fld ''aud'' Audience Audience_update dec_string,
      fld ''client_id'' ClientID ClientID_update dec_string,
      fld ''chepherd:is_daemon'' IsDaemon IsDaemon_update dec_bool]"

fun any_bastion :: "(string \<Rightarrow> bool) \<Rightarrow> string list \<Rightarrow> bool" where
  "any_bastion P [] = False"
| "any_bastion P (b # bs) = (if P b then True else any_bastion P bs)"

definition PermitsAnyBastion :: "claims \<Rightarrow> string \<Rightarrow> bool" where
  "PermitsAnyBastion c bastionID = any_bastion (\<lambda>b. b = bastionID) (PermittedBastions c)"

definition PermitsBastion :: "claims \<Rightarrow> string \<Rightarrow> bool" where
  "PermitsBastion c bastionID =
     (if IsDaemon c then PermitsAnyBastion c bastionID
      else any_bastion (\<lambda>b. b = bastionID \<or> b = ''*'') (PermittedBastions c))"

section \<open>The libraries\<close>

record pubkey =
  key_N :: nat
  key_E :: int64

text \<open>A fetch: no request could be built, no answer came, or a status with its body.\<close>

datatype fetch = NoRequest string | NoAnswer string | Answer int bytes

record 'w auth_lib =
  json_error :: "string \<Rightarrow> bytes \<Rightarrow> string" \<comment> \<open>decoding into the named struct\<close>
  quote :: "string \<Rightarrow> string"
  Sum256 :: "bytes \<Rightarrow> bytes"
  VerifyPKCS1v15 :: "pubkey \<Rightarrow> bytes \<Rightarrow> bytes \<Rightarrow> string option"
  http_Do :: "string \<Rightarrow> 'w \<Rightarrow> 'w \<times> fetch"

section \<open>Errors\<close>

datatype key_error =
    NotConfigured
  | RequestError string
  | FetchError string
  | BadStatus int
  | ParseJwks string
  | UnknownKid string

datatype auth_error =
    EmptyToken
  | MalformedToken
  | DecodeHeader nat
  | ParseHeader string
  | UnsupportedAlg string
  | KeyLookup key_error
  | DecodeSignature nat
  | BadSignature string
  | DecodePayload nat
  | ParseClaims string
  | TokenExpired
  | BadIssuer string string
  | BadAudience string string

fun key_error_text :: "(string \<Rightarrow> string) \<Rightarrow> key_error \<Rightarrow> string" where
  "key_error_text q NotConfigured = ''auth: JWKSEndpoint not configured''"
| "key_error_text q (RequestError e) = e"
| "key_error_text q (FetchError e) = ''fetch jwks: '' @ e"
| "key_error_text q (BadStatus n) = ''jwks endpoint returned '' @ show_int n"
| "key_error_text q (ParseJwks e) = ''parse jwks: '' @ e"
| "key_error_text q (UnknownKid k) = ''auth: kid '' @ q k @ '' not in JWKS''"

definition base64_error_text :: "nat \<Rightarrow> string" where
  "base64_error_text n = ''illegal base64 data at input byte '' @ show_nat n"

fun auth_error_text :: "(string \<Rightarrow> string) \<Rightarrow> auth_error \<Rightarrow> string" where
  "auth_error_text q EmptyToken = ''auth: empty token''"
| "auth_error_text q MalformedToken = ''auth: malformed JWT (want 3 segments)''"
| "auth_error_text q (DecodeHeader n) = ''auth: decode header: '' @ base64_error_text n"
| "auth_error_text q (ParseHeader e) = ''auth: parse header: '' @ e"
| "auth_error_text q (UnsupportedAlg a) = ''auth: unsupported alg '' @ q a @ '' (want RS256)''"
| "auth_error_text q (KeyLookup e) = ''auth: key lookup: '' @ key_error_text q e"
| "auth_error_text q (DecodeSignature n) = ''auth: decode signature: '' @ base64_error_text n"
| "auth_error_text q (BadSignature e) = ''auth: signature: '' @ e"
| "auth_error_text q (DecodePayload n) = ''auth: decode payload: '' @ base64_error_text n"
| "auth_error_text q (ParseClaims e) = ''auth: parse claims: '' @ e"
| "auth_error_text q TokenExpired = ''auth: token expired''"
| "auth_error_text q (BadIssuer got want) = ''auth: bad issuer '' @ q got @ '' (want '' @ q want @ '')''"
| "auth_error_text q (BadAudience got want) = ''auth: bad audience '' @ q got @ '' (want '' @ q want @ '')''"

section \<open>The verifier\<close>

record verifier =
  JWKSEndpoint :: string
  ExpectedIssuer :: string
  ExpectedAudience :: string
  RefreshInterval :: int
  v_keys :: "string \<rightharpoonup> pubkey"
  keysAt :: time

definition one_hour :: int where
  "one_hour = 3600000000000"

definition NewVerifier :: "string \<Rightarrow> string \<Rightarrow> string \<Rightarrow> verifier" where
  "NewVerifier jwksEndpoint issuer audience =
     \<lparr>JWKSEndpoint = jwksEndpoint, ExpectedIssuer = issuer, ExpectedAudience = audience,
      RefreshInterval = one_hour, v_keys = Map.empty, keysAt = zero_time\<rparr>"

subsection \<open>The key set document\<close>

record jwk =
  k_Kid :: string
  k_Kty :: string
  k_Alg :: string
  k_Use :: string
  k_N :: string
  k_E :: string

definition zero_jwk :: jwk where
  "zero_jwk = \<lparr>k_Kid = [], k_Kty = [], k_Alg = [], k_Use = [], k_N = [], k_E = []\<rparr>"

definition jwk_fields :: "jwk field_spec list" where
  "jwk_fields =
     [fld ''kid'' k_Kid k_Kid_update dec_string, fld ''kty'' k_Kty k_Kty_update dec_string,
      fld ''alg'' k_Alg k_Alg_update dec_string, fld ''use'' k_Use k_Use_update dec_string,
      fld ''n'' k_N k_N_update dec_string, fld ''e'' k_E k_E_update dec_string]"

record jwks_doc =
  Keys :: "jwk list"

definition jwks_fields :: "jwks_doc field_spec list" where
  "jwks_fields = [fld ''keys'' Keys Keys_update (dec_slice (dec_struct jwk_fields) zero_jwk)]"

text \<open>\<open>big.Int.SetBytes\<close>, and the exponent, an \<open>int\<close> of 64 bits shifted byte by byte.\<close>

definition be_value :: "bytes \<Rightarrow> nat" where
  "be_value bs = foldl (\<lambda>v b. v * 256 + unat b) 0 bs"

definition exponent :: "bytes \<Rightarrow> int64" where
  "exponent bs = foldl (\<lambda>eInt b. or (push_bit 8 eInt) (ucast b)) 0 bs"

text \<open>One round of the loop over the document's keys: all but well-formed RSA keys are skipped.\<close>

definition add_key :: "jwk \<Rightarrow> (string \<rightharpoonup> pubkey) \<Rightarrow> (string \<rightharpoonup> pubkey)" where
  "add_key k keys =
     (if k_Kty k \<noteq> ''RSA'' then keys
      else case base64URLDecode (k_N k) of
        Inl _ \<Rightarrow> keys
      | Inr nBytes \<Rightarrow>
          (case base64URLDecode (k_E k) of
             Inl _ \<Rightarrow> keys
           | Inr eBytes \<Rightarrow> keys(k_Kid k \<mapsto> \<lparr>key_N = be_value nBytes, key_E = exponent eBytes\<rparr>)))"

definition jwks_keys :: "jwks_doc \<Rightarrow> string \<rightharpoonup> pubkey" where
  "jwks_keys doc = fold add_key (Keys doc) Map.empty"

text \<open>The clock at the three places a verification reads it.\<close>

record clocks =
  at_lookup :: time
  at_fetched :: time
  at_check :: time

text \<open>
  A refresh is a fetch, during which the mutex is not held, and the installation of the new key
  set under the mutex.
\<close>

definition fetch_keys ::
    "'w auth_lib \<Rightarrow> string \<Rightarrow> 'w \<Rightarrow> 'w \<times> (key_error + (string \<rightharpoonup> pubkey))" where
  "fetch_keys lib endpoint w =
     (if endpoint = [] then (w, Inl NotConfigured)
      else case http_Do lib endpoint w of
        (w', NoRequest e) \<Rightarrow> (w', Inl (RequestError e))
      | (w', NoAnswer e) \<Rightarrow> (w', Inl (FetchError e))
      | (w', Answer st body) \<Rightarrow>
          (if st \<noteq> int StatusOK then (w', Inl (BadStatus st))
           else case json_Decode (string_of_bytes body) of
             None \<Rightarrow> (w', Inl (ParseJwks (json_error lib ''jwks'' body)))
           | Some j \<Rightarrow>
               (case dec_struct jwks_fields \<lparr>Keys = []\<rparr> j of
                  None \<Rightarrow> (w', Inl (ParseJwks (json_error lib ''jwks'' body)))
                | Some doc \<Rightarrow> (w', Inr (jwks_keys doc)))))"

definition install_keys :: "(string \<rightharpoonup> pubkey) \<Rightarrow> time \<Rightarrow> verifier \<Rightarrow> verifier" where
  "install_keys ks now v = v\<lparr>v_keys := ks, keysAt := now\<rparr>"

definition refresh ::
    "'w auth_lib \<Rightarrow> clocks \<Rightarrow> verifier \<Rightarrow> 'w \<Rightarrow> verifier \<times> 'w \<times> key_error option" where
  "refresh lib t v w =
     (case fetch_keys lib (JWKSEndpoint v) w of
        (w', Inl e) \<Rightarrow> (v, w', Some e)
      | (w', Inr ks) \<Rightarrow> (install_keys ks (at_fetched t) v, w', None))"

text \<open>
  The look-up of a key reads the cache under the mutex, refreshes it on a miss, and reads it
  again, whatever its age is then.
\<close>

definition cached_key :: "verifier \<Rightarrow> time \<Rightarrow> string \<Rightarrow> pubkey option" where
  "cached_key v now kid =
     (if time_sub now (keysAt v) < RefreshInterval v then v_keys v kid else None)"

definition reread_key :: "verifier \<Rightarrow> string \<Rightarrow> key_error + pubkey" where
  "reread_key v kid = (case v_keys v kid of Some k \<Rightarrow> Inr k | None \<Rightarrow> Inl (UnknownKid kid))"

definition keyFor ::
    "'w auth_lib \<Rightarrow> clocks \<Rightarrow> string \<Rightarrow> verifier \<Rightarrow> 'w \<Rightarrow> verifier \<times> 'w \<times> (key_error + pubkey)" where
  "keyFor lib t kid v w =
     (case cached_key v (at_lookup t) kid of
        Some k \<Rightarrow> (v, w, Inr k)
      | None \<Rightarrow>
          (case refresh lib t v w of
             (v', w', Some e) \<Rightarrow> (v', w', Inl e)
           | (v', w', None) \<Rightarrow> (v', w', reread_key v' kid)))"

subsection \<open>Verifying a token\<close>

record jwt_header =
  h_Alg :: string
  h_Kid :: string
  h_Typ :: string

definition header_fields :: "jwt_header field_spec list" where
  "header_fields =
     [fld ''alg'' h_Alg h_Alg_update dec_string, fld ''kid'' h_Kid h_Kid_update dec_string,
      fld ''typ'' h_Typ h_Typ_update dec_string]"

definition parse_header :: "bytes \<Rightarrow> jwt_header option" where
  "parse_header hb =
     Option.bind (json_Unmarshal (string_of_bytes hb)) (dec_struct header_fields \<lparr>h_Alg = [], h_Kid = [], h_Typ = []\<rparr>)"

definition parse_claims :: "bytes \<Rightarrow> claims option" where
  "parse_claims pb = Option.bind (json_Unmarshal (string_of_bytes pb)) (dec_struct claims_fields zero_claims)"

definition verifyRS256 :: "'w auth_lib \<Rightarrow> pubkey \<Rightarrow> bytes \<Rightarrow> bytes \<Rightarrow> string option" where
  "verifyRS256 lib pub data sig = (let h = Sum256 lib data in VerifyPKCS1v15 lib pub h sig)"

definition verifyRSASignature :: "'w auth_lib \<Rightarrow> pubkey \<Rightarrow> bytes \<Rightarrow> bytes \<Rightarrow> string option" where
  "verifyRSASignature lib pub data sig = verifyRS256 lib pub data sig"

text \<open>
  The steps of a verification that look at the token only: its segments and its header. What is
  kept is the key ID, the text that was signed, and the two segments still encoded.
\<close>

record parsed_token =
  pt_kid :: string
  pt_signed :: string
  pt_payload :: string
  pt_signature :: string

definition verify_header :: "'w auth_lib \<Rightarrow> string \<Rightarrow> auth_error + parsed_token" where
  "verify_header lib token =
     (if token = [] then Inl EmptyToken
      else case split_on (CHR ''.'') token of
        [p0, p1, p2] \<Rightarrow>
          (case base64URLDecode p0 of
             Inl n \<Rightarrow> Inl (DecodeHeader n)
           | Inr hb \<Rightarrow>
               (case parse_header hb of
                  None \<Rightarrow> Inl (ParseHeader (json_error lib ''header'' hb))
                | Some hdr \<Rightarrow>
                    if h_Alg hdr \<noteq> ''RS256'' then Inl (UnsupportedAlg (h_Alg hdr))
                    else Inr \<lparr>pt_kid = h_Kid hdr, pt_signed = p0 @ ''.'' @ p1,
                               pt_payload = p1, pt_signature = p2\<rparr>))
      | _ \<Rightarrow> Inl MalformedToken)"

text \<open>The claims of a token whose signature is good; \<open>now\<close> is the clock at the check.\<close>

definition check_claims :: "'w auth_lib \<Rightarrow> verifier \<Rightarrow> time \<Rightarrow> string \<Rightarrow> auth_error + claims" where
  "check_claims lib v now payload =
     (case base64URLDecode payload of
        Inl n \<Rightarrow> Inl (DecodePayload n)
      | Inr pb \<Rightarrow>
          (case parse_claims pb of
             None \<Rightarrow> Inl (ParseClaims (json_error lib ''claims'' pb))
           | Some c \<Rightarrow>
               let unix = now div 1000000000 in
               if sint (Expiry c) > 0 \<and> unix \<ge> sint (Expiry c) then Inl TokenExpired
               else if ExpectedIssuer v \<noteq> [] \<and> Issuer c \<noteq> ExpectedIssuer v then
                 Inl (BadIssuer (Issuer c) (ExpectedIssuer v))
               else if ExpectedAudience v \<noteq> [] \<and> Audience c \<noteq> ExpectedAudience v then
                 Inl (BadAudience (Audience c) (ExpectedAudience v))
               else Inr c))"

text \<open>The steps after the key is known: the signature, then the claims.\<close>

definition verify_signed ::
    "'w auth_lib \<Rightarrow> verifier \<Rightarrow> time \<Rightarrow> parsed_token \<Rightarrow> pubkey \<Rightarrow> auth_error + claims" where
  "verify_signed lib v now p key =
     (case base64URLDecode (pt_signature p) of
        Inl n \<Rightarrow> Inl (DecodeSignature n)
      | Inr sig \<Rightarrow>
          (case verifyRSASignature lib key (bytes_of_string (pt_signed p)) sig of
             Some e \<Rightarrow> Inl (BadSignature e)
           | None \<Rightarrow> check_claims lib v now (pt_payload p)))"

definition Verify ::
    "'w auth_lib \<Rightarrow> clocks \<Rightarrow> string \<Rightarrow> verifier \<Rightarrow> 'w \<Rightarrow> verifier \<times> 'w \<times> (auth_error + claims)" where
  "Verify lib t token v w =
     (case verify_header lib token of
        Inl e \<Rightarrow> (v, w, Inl e)
      | Inr p \<Rightarrow>
          (case keyFor lib t (pt_kid p) v w of
             (v', w', Inl e) \<Rightarrow> (v', w', Inl (KeyLookup e))
           | (v', w', Inr key) \<Rightarrow> (v', w', verify_signed lib v' (at_check t) p key)))"

section \<open>The middleware\<close>

definition authError :: "string \<Rightarrow> string \<Rightarrow> response" where
  "authError code message =
     writeJSON StatusUnauthorized (JObj [(''code'', jstr code), (''message'', jstr message)])"

text \<open>
  What the middleware decides for a request: answer it with a 401, or pass it on with the claims
  attached.
\<close>

datatype gate = Refused response | Passed "claims request"

definition auth_Middleware ::
    "'w auth_lib \<Rightarrow> clocks \<Rightarrow> claims request \<Rightarrow> verifier \<Rightarrow> 'w \<Rightarrow> verifier \<times> 'w \<times> gate" where
  "auth_Middleware lib t rq v w =
     (let raw = header_get rq ''Authorization'' in
      if \<not> has_prefix ''Bearer '' raw then
        (v, w, Refused (authError ''AUTH_REVOKED'' ''Authorization: Bearer <token> required''))
      else
        let token = trim_prefix ''Bearer '' raw in
        (case Verify lib t token v w of
           (v', w', Inl err) \<Rightarrow>
             (v', w', Refused (authError ''AUTH_REVOKED'' (auth_error_text (quote lib) err)))
         | (v', w', Inr c) \<Rightarrow> (v', w', Passed (rq\<lparr>rq_claims := Some c\<rparr>))))"

text \<open>\<open>ClaimsFromContext\<close> and \<open>WithClaims\<close>: reading and attaching the context value.\<close>

definition ClaimsFromContext :: "claims request \<Rightarrow> claims option" where
  "ClaimsFromContext rq = rq_claims rq"

definition WithClaims :: "claims request \<Rightarrow> claims \<Rightarrow> claims request" where
  "WithClaims rq c = rq\<lparr>rq_claims := Some c\<rparr>"

end
