(* ===== verification/Auth_Theorems.thy ===== *)
theory Auth_Theorems
  imports Auth Bastion_Registry
begin

text \<open>
  The properties of token verification (\<open>internal/auth/auth.go\<close>): what an accepted token
  proves, where its key came from and how old it can be, the key cache, failure of the key
  endpoint, expiry, the middleware, the RSA exponent and the permission checks.
\<close>

section \<open>Anatomy of a verification\<close>

lemma split_on_three:
  assumes "split_on c s = [p0, p1, p2]"
  shows "s = p0 @ [c] @ p1 @ [c] @ p2" and "c \<notin> set p0" and "c \<notin> set p1" and "c \<notin> set p2"
proof -
  from split_on_concat [of c s] assms show "s = p0 @ [c] @ p1 @ [c] @ p2" by simp
  show "c \<notin> set p0" "c \<notin> set p1" "c \<notin> set p2"
    using split_on_parts_no_sep [of _ c s] assms by auto
qed

lemma split_on_three_parts:
  "c \<notin> set p0 \<Longrightarrow> c \<notin> set p1 \<Longrightarrow> c \<notin> set p2 \<Longrightarrow> split_on c (p0 @ [c] @ p1 @ [c] @ p2) = [p0, p1, p2]"
  by (simp add: split_on_sep split_on_no_sep)

text \<open>The part of a token that does not depend on the key: its segments and header.\<close>

definition token_shape ::
    "string \<Rightarrow> string \<Rightarrow> string \<Rightarrow> string \<Rightarrow> jwt_header \<Rightarrow> bool" where
  "token_shape token p0 p1 p2 hdr \<longleftrightarrow>
     split_on (CHR ''.'') token = [p0, p1, p2] \<and> token \<noteq> [] \<and>
     (\<exists>hb. base64URLDecode p0 = Inr hb \<and> parse_header hb = Some hdr) \<and> h_Alg hdr = ''RS256''"

lemma verify_headerI:
  assumes "token_shape token p0 p1 p2 hdr"
  shows "verify_header lib token =
    Inr \<lparr>pt_kid = h_Kid hdr, pt_signed = p0 @ ''.'' @ p1, pt_payload = p1, pt_signature = p2\<rparr>"
  using assms by (auto simp: verify_header_def token_shape_def)

lemma verify_header_no_shape:
  assumes "\<And>p0 p1 p2 hdr. \<not> token_shape token p0 p1 p2 hdr"
  shows "\<exists>e. verify_header lib token = Inl e"
proof (cases "token \<noteq> [] \<and> (\<exists>p0 p1 p2. split_on (CHR ''.'') token = [p0, p1, p2])")
  case True
  then obtain p0 p1 p2 where sp: "split_on (CHR ''.'') token = [p0, p1, p2]" "token \<noteq> []" by blast
  with assms [of p0 p1 p2] show ?thesis
    by (auto simp: verify_header_def token_shape_def split: sum.splits option.splits)
next
  case False
  then show ?thesis by (auto simp: verify_header_def split: list.split)
qed

lemma verify_headerD:
  assumes "verify_header lib token = Inr p"
  obtains p0 p1 p2 hdr where "token_shape token p0 p1 p2 hdr"
    and "p = \<lparr>pt_kid = h_Kid hdr, pt_signed = p0 @ ''.'' @ p1, pt_payload = p1, pt_signature = p2\<rparr>"
proof -
  obtain p0 p1 p2 hdr where sh: "token_shape token p0 p1 p2 hdr"
    using verify_header_no_shape [of token lib] assms by fastforce
  with verify_headerI [OF sh, of lib] assms show ?thesis by (intro that) simp_all
qed

lemma Verify_shape:
  assumes "token_shape token p0 p1 p2 hdr"
  shows "Verify lib t token v w =
    (case keyFor lib t (h_Kid hdr) v w of
       (v', w', Inl e) \<Rightarrow> (v', w', Inl (KeyLookup e))
     | (v', w', Inr key) \<Rightarrow>
         (case base64URLDecode p2 of
            Inl n \<Rightarrow> (v', w', Inl (DecodeSignature n))
          | Inr sig \<Rightarrow>
              (case VerifyPKCS1v15 lib key (Sum256 lib (bytes_of_string (p0 @ ''.'' @ p1))) sig of
                 Some e \<Rightarrow> (v', w', Inl (BadSignature e))
               | None \<Rightarrow> (v', w', check_claims lib v' (at_check t) p1))))"
  using verify_headerI [OF assms, of lib]
  by (simp add: Verify_def verify_signed_def verifyRSASignature_def verifyRS256_def Let_def
      split: prod.split sum.split option.split)

lemma Verify_no_shape:
  assumes "\<And>p0 p1 p2 hdr. \<not> token_shape token p0 p1 p2 hdr"
  shows "\<exists>e. Verify lib t token v w = (v, w, Inl e)"
  using verify_header_no_shape [OF assms, of lib] by (auto simp: Verify_def)

lemma Verify_accepted:
  assumes "Verify lib t token v w = (v', w', Inr c)"
  obtains p0 p1 p2 hdr key sig where "token_shape token p0 p1 p2 hdr"
    and "keyFor lib t (h_Kid hdr) v w = (v', w', Inr key)" and "base64URLDecode p2 = Inr sig"
    and "VerifyPKCS1v15 lib key (Sum256 lib (bytes_of_string (p0 @ ''.'' @ p1))) sig = None"
    and "check_claims lib v' (at_check t) p1 = Inr c"
proof -
  obtain p0 p1 p2 hdr where sh: "token_shape token p0 p1 p2 hdr"
    using Verify_no_shape [of token lib t v w] assms by auto
  show ?thesis
    using assms that [OF sh] unfolding Verify_shape [OF sh]
    by (auto split: prod.splits sum.splits option.splits)
qed

section \<open>The key cache\<close>

text \<open>A document that the endpoint has served, in some state of the world.\<close>

definition served :: "'w auth_lib \<Rightarrow> string \<Rightarrow> jwks_doc \<Rightarrow> bool" where
  "served lib url doc \<longleftrightarrow>
     (\<exists>w w' body j. http_Do lib url w = (w', Answer 200 body) \<and> json_Decode (string_of_bytes body) = Some j \<and>
        dec_struct jwks_fields \<lparr>Keys = []\<rparr> j = Some doc)"

lemma fetch_keys_served:
  assumes "fetch_keys lib url w = (w', Inr ks)"
  shows "\<exists>doc. served lib url doc \<and> ks = jwks_keys doc"
proof -
  from assms obtain st body where f: "http_Do lib url w = (w', Answer st body)"
    by (auto simp: fetch_keys_def split: if_splits prod.splits fetch.splits option.splits)
  with assms obtain j doc where "st = 200" "json_Decode (string_of_bytes body) = Some j"
    "dec_struct jwks_fields \<lparr>Keys = []\<rparr> j = Some doc" "ks = jwks_keys doc"
    by (auto simp: fetch_keys_def split: if_splits option.splits)
  with f show ?thesis unfolding served_def by blast
qed

lemma refresh_cases:
  obtains (failed) e w' where "refresh lib t v w = (v, w', Some e)"
  | (fetched) doc w' where "refresh lib t v w = (v\<lparr>v_keys := jwks_keys doc, keysAt := at_fetched t\<rparr>, w', None)"
      "served lib (JWKSEndpoint v) doc"
proof -
  obtain w' r where f: "fetch_keys lib (JWKSEndpoint v) w = (w', r)"
    by (cases "fetch_keys lib (JWKSEndpoint v) w")
  show ?thesis
  proof (cases r)
    case (Inl e)
    with f failed show ?thesis by (simp add: refresh_def)
  next
    case (Inr ks)
    with fetch_keys_served [of lib "JWKSEndpoint v" w w' ks] f
    obtain doc where "served lib (JWKSEndpoint v) doc" "ks = jwks_keys doc" by auto
    with f Inr fetched show ?thesis by (simp add: refresh_def install_keys_def)
  qed
qed

text \<open>After a look-up that finds a key, the key is in the cache, and the cache is fresh.\<close>

lemma keyFor_found:
  assumes "keyFor lib t kid v w = (v', w', Inr k)"
  shows "v_keys v' kid = Some k"
    and "v' = v \<and> w' = w \<and> time_sub (at_lookup t) (keysAt v) < RefreshInterval v \<or>
      (\<exists>doc. v' = v\<lparr>v_keys := jwks_keys doc, keysAt := at_fetched t\<rparr> \<and> served lib (JWKSEndpoint v) doc)"
proof -
  let ?hit = "if time_sub (at_lookup t) (keysAt v) < RefreshInterval v then v_keys v kid else None"
  have "v_keys v' kid = Some k \<and> (v' = v \<and> w' = w \<and> time_sub (at_lookup t) (keysAt v) < RefreshInterval v \<or>
      (\<exists>doc. v' = v\<lparr>v_keys := jwks_keys doc, keysAt := at_fetched t\<rparr> \<and> served lib (JWKSEndpoint v) doc))"
  proof (cases ?hit)
    case (Some k')
    with assms show ?thesis by (auto simp: keyFor_def cached_key_def reread_key_def split: if_splits)
  next
    case None
    show ?thesis
    proof (cases rule: refresh_cases [of lib t v w])
      case (failed e w1)
      with assms None show ?thesis by (simp add: keyFor_def cached_key_def reread_key_def)
    next
      case (fetched doc w1)
      with assms None show ?thesis by (auto simp: keyFor_def cached_key_def reread_key_def split: option.splits)
    qed
  qed
  then show "v_keys v' kid = Some k"
    and "v' = v \<and> w' = w \<and> time_sub (at_lookup t) (keysAt v) < RefreshInterval v \<or>
      (\<exists>doc. v' = v\<lparr>v_keys := jwks_keys doc, keysAt := at_fetched t\<rparr> \<and> served lib (JWKSEndpoint v) doc)"
    by blast+
qed

lemma keyFor_state:
  "keyFor lib t kid v w = (v', w', r) \<Longrightarrow>
     v' = v \<or> (\<exists>doc. v' = v\<lparr>v_keys := jwks_keys doc, keysAt := at_fetched t\<rparr> \<and> served lib (JWKSEndpoint v) doc)"
  by (cases rule: refresh_cases [of lib t v w])
    (auto simp: keyFor_def cached_key_def reread_key_def split: option.splits if_splits)

lemma Verify_state:
  assumes "Verify lib t token v w = (v', w', r)"
  shows "v' = v \<or> (\<exists>doc. v' = v\<lparr>v_keys := jwks_keys doc, keysAt := at_fetched t\<rparr> \<and> served lib (JWKSEndpoint v) doc)"
proof (cases "\<exists>p0 p1 p2 hdr. token_shape token p0 p1 p2 hdr")
  case True
  then obtain p0 p1 p2 hdr where sh: "token_shape token p0 p1 p2 hdr" by blast
  obtain v1 w1 r1 where k: "keyFor lib t (h_Kid hdr) v w = (v1, w1, r1)" by (metis prod_cases3)
  have "v' = v1"
    using assms unfolding Verify_shape [OF sh] k by (auto split: sum.splits option.splits)
  with keyFor_state [OF k] show ?thesis by simp
next
  case False
  with Verify_no_shape [of token lib t v w] assms show ?thesis by auto
qed

text \<open>All that a verification can do besides its verdict: one refresh of the key set.\<close>

lemma Verify_effect:
  assumes "Verify lib t token v w = (v', w', r)"
  shows "v' = v \<and> w' = w \<or>
    (\<exists>p e. verify_header lib token = Inr p \<and> cached_key v (at_lookup t) (pt_kid p) = None \<and>
       refresh lib t v w = (v', w', e))"
proof (cases "verify_header lib token")
  case (Inr p)
  show ?thesis
  proof (cases "cached_key v (at_lookup t) (pt_kid p)")
    case None
    obtain v1 w1 e where re: "refresh lib t v w = (v1, w1, e)" by (metis prod_cases3)
    with assms Inr None have "v' = v1 \<and> w' = w1"
      by (auto simp: Verify_def keyFor_def split: option.splits sum.splits)
    with re Inr None show ?thesis by auto
  qed (use assms Inr in \<open>auto simp: Verify_def keyFor_def\<close>)
qed (use assms in \<open>simp add: Verify_def\<close>)

lemma jwks_keys_listed:
  "jwks_keys doc kid = Some key \<Longrightarrow>
     \<exists>k \<in> set (Keys doc). k_Kid k = kid \<and> k_Kty k = ''RSA'' \<and>
       (\<exists>n e. base64URLDecode (k_N k) = Inr n \<and> base64URLDecode (k_E k) = Inr e \<and>
          key = \<lparr>key_N = be_value n, key_E = exponent e\<rparr>)"
proof -
  have "fold add_key ks m kid = Some key \<Longrightarrow> m kid = Some key \<or>
     (\<exists>k \<in> set ks. k_Kid k = kid \<and> k_Kty k = ''RSA'' \<and>
       (\<exists>n e. base64URLDecode (k_N k) = Inr n \<and> base64URLDecode (k_E k) = Inr e \<and>
          key = \<lparr>key_N = be_value n, key_E = exponent e\<rparr>))" for ks m
  proof (induction ks arbitrary: m)
    case (Cons k ks)
    from Cons.IH [of "add_key k m"] Cons.prems
    consider "add_key k m kid = Some key" | "\<exists>k' \<in> set ks. k_Kid k' = kid \<and> k_Kty k' = ''RSA'' \<and>
       (\<exists>n e. base64URLDecode (k_N k') = Inr n \<and> base64URLDecode (k_E k') = Inr e \<and>
          key = \<lparr>key_N = be_value n, key_E = exponent e\<rparr>)" by auto
    then show ?case
    proof cases
      case 1
      then show ?thesis by (auto simp: add_key_def split: if_splits sum.splits)
    next
      case 2
      then show ?thesis by auto
    qed
  qed simp
  then show "jwks_keys doc kid = Some key \<Longrightarrow> ?thesis" by (fastforce simp: jwks_keys_def)
qed

section \<open>What an accepted token proves\<close>

text \<open>
  C4: An accepted token has three segments; its header decodes and names RS256; its signature
  decodes and passes the RSA check over the first two segments under the key that the cache now
  holds for the header's key ID; its payload decodes to exactly the claims returned; these are
  not expired (when they carry a positive expiry) and match the configured issuer and audience.
\<close>

theorem Verify_sound:
  assumes "Verify lib t token v w = (v', w', Inr c)"
  shows "\<exists>p0 p1 p2 hb hdr key sig pb.
    token = p0 @ ''.'' @ p1 @ ''.'' @ p2 \<and>
    base64URLDecode p0 = Inr hb \<and> parse_header hb = Some hdr \<and> h_Alg hdr = ''RS256'' \<and>
    v_keys v' (h_Kid hdr) = Some key \<and>
    base64URLDecode p2 = Inr sig \<and>
    VerifyPKCS1v15 lib key (Sum256 lib (bytes_of_string (p0 @ ''.'' @ p1))) sig = None \<and>
    base64URLDecode p1 = Inr pb \<and> parse_claims pb = Some c \<and>
    (sint (Expiry c) \<le> 0 \<or> at_check t div 1000000000 < sint (Expiry c)) \<and>
    (ExpectedIssuer v' = [] \<or> Issuer c = ExpectedIssuer v') \<and>
    (ExpectedAudience v' = [] \<or> Audience c = ExpectedAudience v')"
proof -
  obtain p0 p1 p2 hdr key sig where sh: "token_shape token p0 p1 p2 hdr"
    and k: "keyFor lib t (h_Kid hdr) v w = (v', w', Inr key)"
    and sig: "base64URLDecode p2 = Inr sig"
      "VerifyPKCS1v15 lib key (Sum256 lib (bytes_of_string (p0 @ ''.'' @ p1))) sig = None"
    and c: "check_claims lib v' (at_check t) p1 = Inr c"
    by (rule Verify_accepted [OF assms])
  obtain hb where hb: "base64URLDecode p0 = Inr hb" "parse_header hb = Some hdr" "h_Alg hdr = ''RS256''"
    and tok: "token = p0 @ ''.'' @ p1 @ ''.'' @ p2"
    using sh split_on_three(1) [of "CHR ''.''" token p0 p1 p2] by (auto simp: token_shape_def)
  obtain pb where pb: "base64URLDecode p1 = Inr pb" "parse_claims pb = Some c"
    "sint (Expiry c) \<le> 0 \<or> at_check t div 1000000000 < sint (Expiry c)"
    "ExpectedIssuer v' = [] \<or> Issuer c = ExpectedIssuer v'"
    "ExpectedAudience v' = [] \<or> Audience c = ExpectedAudience v'"
    using c by (auto simp: check_claims_def Let_def not_less not_le split: sum.splits option.splits if_splits)
  show ?thesis using tok hb keyFor_found(1) [OF k] sig pb by blast
qed

text \<open>The verifiers that a process can get to: a new one, after any sequence of verifications.\<close>

inductive verifier_reach :: "'w auth_lib \<Rightarrow> verifier \<Rightarrow> bool" for lib where
  reach_new: "verifier_reach lib (NewVerifier url iss aud)"
| reach_verify: "verifier_reach lib v \<Longrightarrow> Verify lib t token v w = (v', w', r) \<Longrightarrow> verifier_reach lib v'"

definition keys_published :: "'w auth_lib \<Rightarrow> verifier \<Rightarrow> bool" where
  "keys_published lib v \<longleftrightarrow>
     v_keys v = Map.empty \<or> (\<exists>doc. served lib (JWKSEndpoint v) doc \<and> v_keys v = jwks_keys doc)"

lemma reach_published: "verifier_reach lib v \<Longrightarrow> keys_published lib v"
proof (induction rule: verifier_reach.induct)
  case (reach_verify v t token w v' w' r)
  from Verify_state [OF reach_verify(2)] reach_verify(3) show ?case by (auto simp: keys_published_def)
qed (simp add: keys_published_def NewVerifier_def)

text \<open>
  Whatever was verified before, the key that accepts a token is one that the configured
  endpoint published, under the token's key ID and with type RSA, in a document fetched less
  than the refresh interval before the look-up or during it; so a key withdrawn from the
  document is refused once the interval has passed.
\<close>

theorem accepted_key_was_published:
  assumes "verifier_reach lib v" and "Verify lib t token v w = (v', w', Inr c)"
  shows "\<exists>p0 p1 p2 hdr key doc. token_shape token p0 p1 p2 hdr \<and> v_keys v' (h_Kid hdr) = Some key \<and>
    served lib (JWKSEndpoint v) doc \<and> v_keys v' = jwks_keys doc \<and>
    (\<exists>k \<in> set (Keys doc). k_Kid k = h_Kid hdr \<and> k_Kty k = ''RSA'') \<and>
    (time_sub (at_lookup t) (keysAt v') < RefreshInterval v \<or> keysAt v' = at_fetched t)"
proof -
  obtain p0 p1 p2 hdr key sig where sh: "token_shape token p0 p1 p2 hdr"
    and k: "keyFor lib t (h_Kid hdr) v w = (v', w', Inr key)"
    by (rule Verify_accepted [OF assms(2)])
  note f = keyFor_found [OF k]
  obtain doc where doc: "served lib (JWKSEndpoint v) doc" "v_keys v' = jwks_keys doc"
    using f reach_published [OF assms(1)] by (auto simp: keys_published_def)
  have "time_sub (at_lookup t) (keysAt v') < RefreshInterval v \<or> keysAt v' = at_fetched t"
    using f(2) by auto
  moreover have "\<exists>k \<in> set (Keys doc). k_Kid k = h_Kid hdr \<and> k_Kty k = ''RSA''"
    using jwks_keys_listed [of doc "h_Kid hdr" key] f(1) doc(2) by auto
  ultimately show ?thesis using sh f(1) doc by blast
qed

lemma check_claims_again:
  assumes "check_claims lib v now p1 = Inr c"
    and "ExpectedIssuer v2 = ExpectedIssuer v" and "ExpectedAudience v2 = ExpectedAudience v"
  shows "check_claims lib v2 now2 p1 =
    (if 0 < sint (Expiry c) \<and> sint (Expiry c) \<le> now2 div 1000000000 then Inl TokenExpired else Inr c)"
  using assms by (auto simp: check_claims_def Let_def split: sum.splits option.splits if_splits)

text \<open>
  C29: What becomes of an accepted token when the same verifier meets it again. Within the refresh
  interval of the keys in the cache it is accepted again without any request to the endpoint,
  with the same claims, until it expires (a token without a positive expiry never does). After
  the interval the endpoint decides: without an answer, or without the token's key in the new
  key set, the token is refused, expired or not; if its key is still there, it is accepted until
  it expires.
\<close>

theorem accepted_until_expiry:
  assumes "Verify lib t token v w = (v', w', Inr c)"
    and "verdict = (if 0 < sint (Expiry c) \<and> sint (Expiry c) \<le> at_check t2 div 1000000000
                    then Inl TokenExpired else Inr c)"
  shows "(time_sub (at_lookup t2) (keysAt v') < RefreshInterval v' \<longrightarrow> Verify lib t2 token v' w2 = (v', w2, verdict)) \<and>
    (RefreshInterval v' \<le> time_sub (at_lookup t2) (keysAt v') \<longrightarrow>
      (\<exists>p key. verify_header lib token = Inr p \<and> v_keys v' (pt_kid p) = Some key \<and>
        (case refresh lib t2 v' w2 of
           (v3, w3, Some e) \<Rightarrow> v3 = v' \<and> Verify lib t2 token v' w2 = (v3, w3, Inl (KeyLookup e))
         | (v3, w3, None) \<Rightarrow>
             (v_keys v3 (pt_kid p) = None \<longrightarrow>
                Verify lib t2 token v' w2 = (v3, w3, Inl (KeyLookup (UnknownKid (pt_kid p))))) \<and>
             (v_keys v3 (pt_kid p) = Some key \<longrightarrow> Verify lib t2 token v' w2 = (v3, w3, verdict)))))"
proof -
  obtain p0 p1 p2 hdr key sig where sh: "token_shape token p0 p1 p2 hdr"
    and k: "keyFor lib t (h_Kid hdr) v w = (v', w', Inr key)"
    and sig: "base64URLDecode p2 = Inr sig"
      "VerifyPKCS1v15 lib key (Sum256 lib (bytes_of_string (p0 @ ''.'' @ p1))) sig = None"
    and c: "check_claims lib v' (at_check t) p1 = Inr c"
    by (rule Verify_accepted [OF assms(1)])
  obtain p where p: "verify_header lib token = Inr p" "pt_kid p = h_Kid hdr"
    using verify_headerI [OF sh, of lib] by simp
  note same = check_claims_again [OF c, of _ "at_check t2"]
  have key: "v_keys v' (h_Kid hdr) = Some key" by (rule keyFor_found(1) [OF k])
  have fresh: "Verify lib t2 token v' w2 = (v', w2, verdict)"
    if "time_sub (at_lookup t2) (keysAt v') < RefreshInterval v'"
  proof -
    have "keyFor lib t2 (h_Kid hdr) v' w2 = (v', w2, Inr key)"
      using key that by (simp add: keyFor_def cached_key_def)
    with sig same [of v'] assms(2) show ?thesis by (simp add: Verify_shape [OF sh])
  qed
  have stale: "case refresh lib t2 v' w2 of
           (v3, w3, Some e) \<Rightarrow> v3 = v' \<and> Verify lib t2 token v' w2 = (v3, w3, Inl (KeyLookup e))
         | (v3, w3, None) \<Rightarrow>
             (v_keys v3 (h_Kid hdr) = None \<longrightarrow>
                Verify lib t2 token v' w2 = (v3, w3, Inl (KeyLookup (UnknownKid (h_Kid hdr))))) \<and>
             (v_keys v3 (h_Kid hdr) = Some key \<longrightarrow> Verify lib t2 token v' w2 = (v3, w3, verdict))"
    if "RefreshInterval v' \<le> time_sub (at_lookup t2) (keysAt v')"
  proof (cases rule: refresh_cases [of lib t2 v' w2])
    case (failed e w3)
    then have "keyFor lib t2 (h_Kid hdr) v' w2 = (v', w3, Inl e)"
      using that by (simp add: keyFor_def cached_key_def)
    with failed show ?thesis by (simp add: Verify_shape [OF sh])
  next
    case (fetched doc w3)
    let ?v3 = "v'\<lparr>v_keys := jwks_keys doc, keysAt := at_fetched t2\<rparr>"
    have "keyFor lib t2 (h_Kid hdr) v' w2 = (?v3, w3, reread_key ?v3 (h_Kid hdr))"
      using that fetched(1) by (simp add: keyFor_def cached_key_def)
    with fetched(1) sig same [of ?v3] assms(2) show ?thesis by (auto simp: Verify_shape [OF sh] reread_key_def)
  qed
  show ?thesis
    using fresh stale by (intro conjI impI exI [of _ p] exI [of _ key]) (simp_all add: p key)
qed

text \<open>
  With a stale cache and an endpoint that gives no usable document, no token is accepted, and
  the verifier keeps its old keys and the time it got them.
\<close>

theorem stale_cache_fails_closed:
  assumes "RefreshInterval v \<le> time_sub (at_lookup t) (keysAt v)"
    and "refresh lib t v w = (v1, w1, Some e)"
  shows "fst (Verify lib t token v w) = v \<and> (\<forall>c. snd (snd (Verify lib t token v w)) \<noteq> Inr c)"
proof (cases "\<exists>p0 p1 p2 hdr. token_shape token p0 p1 p2 hdr")
  case True
  then obtain p0 p1 p2 hdr where sh: "token_shape token p0 p1 p2 hdr" by blast
  have "v1 = v" using assms(2) by (cases rule: refresh_cases [of lib t v w]) auto
  then have "keyFor lib t (h_Kid hdr) v w = (v, w1, Inl e)" using assms by (simp add: keyFor_def cached_key_def reread_key_def)
  then show ?thesis by (simp add: Verify_shape [OF sh])
next
  case False
  with Verify_no_shape [of token lib t v w] show ?thesis by auto
qed

text \<open>
  A token whose header names a key ID that the fresh cache does not hold makes the relay ask
  the endpoint again, before its signature is looked at: each such request costs one fetch.
\<close>

theorem unknown_kid_fetches:
  assumes "token_shape token p0 p1 p2 hdr" and "v_keys v (h_Kid hdr) = None"
    and "JWKSEndpoint v \<noteq> []"
  shows "fst (snd (Verify lib t token v w)) = fst (http_Do lib (JWKSEndpoint v) w)"
proof -
  have r: "fst (snd (refresh lib t v w)) = fst (http_Do lib (JWKSEndpoint v) w)"
    using assms(3) by (auto simp: refresh_def fetch_keys_def split: prod.split fetch.split option.split sum.split)
  obtain v1 w1 e where e: "refresh lib t v w = (v1, w1, e)" by (metis prod_cases3)
  have "\<exists>x. keyFor lib t (h_Kid hdr) v w = (v1, w1, x)"
    using assms(2) e by (auto simp: keyFor_def cached_key_def reread_key_def split: option.split)
  then have "fst (snd (Verify lib t token v w)) = w1"
    by (auto simp: Verify_shape [OF assms(1)] split: sum.split option.split)
  with r e show ?thesis by simp
qed

section \<open>Daemon tokens\<close>

lemma minted_no_dot: "mint_token e = Inr tok \<Longrightarrow> CHR ''.'' \<notin> set tok \<and> tok \<noteq> []"
  using hex_encode_chars by (fastforce simp: mint_token_def split: sum.splits)

lemma daemon_token_rejected: "mint_token e = Inr tok \<Longrightarrow> Verify lib t tok v w = (v, w, Inl MalformedToken)"
  using minted_no_dot [of e tok] by (simp add: Verify_def verify_header_def split_on_no_sep)

text \<open>
  A daemon token, as the bastion registry mints it, is never accepted as a bearer token: it
  has one segment, so every endpoint behind the middleware answers a daemon that presents it with
  the same error, without any change of state and without looking at the registry.
\<close>

theorem daemon_token_is_no_bearer_token:
  assumes "mint_token e = Inr tok"
  shows "Verify lib t tok v w = (v, w, Inl MalformedToken)"
  by (rule daemon_token_rejected [OF assms])

section \<open>The middleware\<close>

lemma middleware_passes:
  "auth_Middleware lib t rq v w = (v', w', Passed rq') \<longleftrightarrow>
     (\<exists>token c. header_get rq ''Authorization'' = ''Bearer '' @ token \<and>
        Verify lib t token v w = (v', w', Inr c) \<and> rq' = WithClaims rq c)"
proof (cases "has_prefix ''Bearer '' (header_get rq ''Authorization'')")
  case True
  then obtain token where tok: "header_get rq ''Authorization'' = ''Bearer '' @ token"
    unfolding has_prefix_iff by blast
  then have trim: "trim_prefix ''Bearer '' (header_get rq ''Authorization'') = token"
    by (simp only: trim_prefix_append)
  show ?thesis
    using True unfolding auth_Middleware_def Let_def trim WithClaims_def
    by (auto simp: tok split: prod.split sum.split)
next
  case False
  then have "header_get rq ''Authorization'' \<noteq> ''Bearer '' @ token" for token
    unfolding has_prefix_iff by blast
  with False show ?thesis by (auto simp: auth_Middleware_def)
qed

text \<open>
  A request gets past the middleware exactly when its Authorization header is \<open>Bearer \<close>
  and a token that is verified, and then with the claims of that token attached in place of
  whatever was attached before.
\<close>

theorem middleware_passes_iff:
  "auth_Middleware lib t rq v w = (v', w', Passed rq') \<longleftrightarrow>
     (\<exists>token c. header_get rq ''Authorization'' = ''Bearer '' @ token \<and>
        Verify lib t token v w = (v', w', Inr c) \<and> rq' = WithClaims rq c)"
  by (rule middleware_passes)

section \<open>The public exponent\<close>

lemma or_shift8: "or (push_bit 8 x) (ucast (b :: byte)) = x * 256 + ucast b" for x :: int64
proof -
  have "and (push_bit 8 x) (ucast b) = 0"
    by (rule bit_eqI) (auto simp: bit_and_iff bit_push_bit_iff bit_ucast_iff dest: bit_imp_le_length)
  then have "push_bit 8 x + ucast b = or (push_bit 8 x) (ucast b)"
    by (simp add: disjunctive_add_eq_or)
  then show ?thesis by (simp add: push_bit_eq_mult)
qed

text \<open>
  The exponent is the big-endian value of its bytes modulo 2 to the 64: bytes beyond the last
  eight have no effect.
\<close>

theorem exponent_mod: "exponent bs = word_of_nat (be_value bs)"
proof -
  have "foldl (\<lambda>eInt b. or (push_bit 8 eInt) (ucast b)) (word_of_nat v) bs =
      (word_of_nat (foldl (\<lambda>v b. v * 256 + unat b) v bs) :: int64)" for v
  proof (induction bs arbitrary: v)
    case (Cons b bs)
    have "or (push_bit 8 (word_of_nat v)) (ucast b) = (word_of_nat (v * 256 + unat b) :: int64)"
      by (simp add: or_shift8 unsigned_ucast_eq)
    then show ?case using Cons [of "v * 256 + unat b"] by (simp only: foldl_Cons)
  qed simp
  from this [of 0] show ?thesis by (simp add: exponent_def be_value_def)
qed

section \<open>Permissions\<close>

lemma any_bastion_iff: "any_bastion P bs \<longleftrightarrow> (\<exists>b \<in> set bs. P b)"
  by (induction bs) auto

text \<open>
  A claim permits the bastions it lists; the wildcard counts for users and not for daemons.
\<close>

theorem PermitsBastion_iff:
  "PermitsBastion c b \<longleftrightarrow>
     b \<in> set (PermittedBastions c) \<or> \<not> IsDaemon c \<and> ''*'' \<in> set (PermittedBastions c)"
  by (auto simp: PermitsBastion_def PermitsAnyBastion_def any_bastion_iff)

end
