(* ===== verification/Auth_Demo.thy ===== *)
theory Auth_Demo
  imports Auth_Theorems
begin

text \<open>
  A concrete verification: an identity service that publishes one RSA key and signs one token,
  as witness of the properties of \<open>internal/auth/auth.go\<close>. The texts of the header, the claims
  and the key document are JSON; the hash is the identity, and the one good signature is the
  byte 3. The world counts the fetches.
\<close>

section \<open>Texts as bytes\<close>

definition json_bytes :: "json \<Rightarrow> bytes" where
  "json_bytes j = bytes_of_string (json_print j)"

lemma json_bytes_read:
  assumes "literal_json j"
  shows "json_Unmarshal (string_of_bytes (json_bytes j)) = Some j"
    "json_Decode (string_of_bytes (json_bytes j)) = Some j"
  using literal_json_read [OF assms] by (simp_all add: json_bytes_def)

section \<open>The stand-in libraries\<close>

definition demo_header_json :: json where
  "demo_header_json = JObj [(''alg'', JStr ''RS256''), (''kid'', JStr ''k1'')]"

definition demo_claims_json :: json where
  "demo_claims_json = JObj [(''sub'', JStr ''alice''), (''exp'', JNum ''2000''), (''iss'', JStr ''idp'')]"

definition demo_jwks_json :: json where
  "demo_jwks_json = JObj [(''keys'', JArr [JObj [(''kid'', JStr ''k1''), (''kty'', JStr ''RSA''),
     (''n'', JStr ''Bw''), (''e'', JStr ''AQAB'')]])]"

lemma demo_jsons: "literal_json demo_header_json" "literal_json demo_claims_json" "literal_json demo_jwks_json"
  unfolding demo_header_json_def demo_claims_json_def demo_jwks_json_def by code_simp+

definition demo_key :: pubkey where
  "demo_key = \<lparr>key_N = 7, key_E = 65537\<rparr>"

text \<open>The endpoint answers while \<open>up\<close>.\<close>

definition demo_lib :: "bool \<Rightarrow> nat auth_lib" where
  "demo_lib up =
     \<lparr>json_error = (\<lambda>_ _. ''bad json''),
      quote = (\<lambda>s. s), Sum256 = (\<lambda>bs. bs),
      VerifyPKCS1v15 = (\<lambda>k h sig. if k = demo_key \<and> sig = [3] then None else Some ''verification error''),
      http_Do = (\<lambda>url n. (Suc n, if up then Answer 200 (json_bytes demo_jwks_json) else NoAnswer ''refused''))\<rparr>"

definition demo_head :: string where
  "demo_head = b64_encode (json_bytes demo_header_json)"

definition demo_body :: string where
  "demo_body = b64_encode (json_bytes demo_claims_json)"

definition jwt_of :: "string \<Rightarrow> string" where
  "jwt_of payload = demo_head @ ''.'' @ payload @ ''.Aw''"

definition demo_jwt :: string where
  "demo_jwt = jwt_of demo_body"

definition demo_verifier :: verifier where
  "demo_verifier = NewVerifier ''https://idp/certs'' ''idp'' []"

definition demo_clocks :: "int \<Rightarrow> clocks" where
  "demo_clocks secs = \<lparr>at_lookup = secs * 1000000000, at_fetched = secs * 1000000000, at_check = secs * 1000000000\<rparr>"

definition demo_claims :: claims where
  "demo_claims = zero_claims\<lparr>Subject := ''alice'', Expiry := 2000, Issuer := ''idp''\<rparr>"

definition demo_cached :: verifier where
  "demo_cached = demo_verifier\<lparr>v_keys := [''k1'' \<mapsto> demo_key], keysAt := 1000000000000\<rparr>"

lemma demo_segments: "b64_encode [3] = ''Aw''" "b64_encode [7] = ''Bw''" "b64_encode [1, 0, 1] = ''AQAB''"
  by (simp_all add: b64_symbol_def char_of_def bit_0)

lemma demo_decode:
  "base64URLDecode ''Aw'' = Inr [3]" "base64URLDecode ''Bw'' = Inr [7]" "base64URLDecode ''AQAB'' = Inr [1, 0, 1]"
  "base64URLDecode demo_head = Inr (json_bytes demo_header_json)"
  "base64URLDecode demo_body = Inr (json_bytes demo_claims_json)"
  unfolding demo_segments [symmetric] demo_head_def demo_body_def by (rule b64_roundtrip)+

lemma b64_symbol_dot: "b64_symbol n \<noteq> CHR ''.''"
proof
  assume "b64_symbol n = CHR ''.''"
  then have "(of_char (b64_symbol n) :: nat) = 46" by simp
  then show False by (simp add: b64_symbol_def of_char_of_small split: if_splits)
qed

lemma b64_no_dot: "CHR ''.'' \<notin> set (b64_encode bs)"
  using b64_symbol_dot [THEN not_sym]
  by (induction bs rule: b64_encode.induct) (simp_all add: Let_def)

lemma jwt_of_parts: "CHR ''.'' \<notin> set p \<Longrightarrow> split_on (CHR ''.'') (jwt_of p) = [demo_head, p, ''Aw'']"
  using split_on_three_parts [of "CHR ''.''" demo_head p "''Aw''"] b64_no_dot
  by (simp add: jwt_of_def demo_head_def)

lemma demo_fields:
  "find_field header_fields ''alg'' = Some (\<lambda>r j. map_option (\<lambda>x. r\<lparr>h_Alg := x\<rparr>) (dec_string (h_Alg r) j))"
  "find_field header_fields ''kid'' = Some (\<lambda>r j. map_option (\<lambda>x. r\<lparr>h_Kid := x\<rparr>) (dec_string (h_Kid r) j))"
  "find_field claims_fields ''chepherd:user_id'' = Some (\<lambda>r j. map_option (\<lambda>x. r\<lparr>UserID := x\<rparr>) (dec_string (UserID r) j))"
  "find_field claims_fields ''sub'' = Some (\<lambda>r j. map_option (\<lambda>x. r\<lparr>Subject := x\<rparr>) (dec_string (Subject r) j))"
  "find_field claims_fields ''exp'' = Some (\<lambda>r j. map_option (\<lambda>x. r\<lparr>Expiry := x\<rparr>) (dec_int (Expiry r) j))"
  "find_field claims_fields ''iss'' = Some (\<lambda>r j. map_option (\<lambda>x. r\<lparr>Issuer := x\<rparr>) (dec_string (Issuer r) j))"
  "find_field jwks_fields ''keys'' = Some (\<lambda>r j. map_option (\<lambda>x. r\<lparr>Keys := x\<rparr>)
     (dec_slice (dec_struct jwk_fields) zero_jwk (Keys r) j))"
  "find_field jwk_fields ''kid'' = Some (\<lambda>r j. map_option (\<lambda>x. r\<lparr>k_Kid := x\<rparr>) (dec_string (k_Kid r) j))"
  "find_field jwk_fields ''kty'' = Some (\<lambda>r j. map_option (\<lambda>x. r\<lparr>k_Kty := x\<rparr>) (dec_string (k_Kty r) j))"
  "find_field jwk_fields ''n'' = Some (\<lambda>r j. map_option (\<lambda>x. r\<lparr>k_N := x\<rparr>) (dec_string (k_N r) j))"
  "find_field jwk_fields ''e'' = Some (\<lambda>r j. map_option (\<lambda>x. r\<lparr>k_E := x\<rparr>) (dec_string (k_E r) j))"
  by (simp_all add: find_field_def header_fields_def claims_fields_def jwks_fields_def jwk_fields_def fld_def)

lemma demo_exp: "parse_int64 ''2000'' = Some 2000"
  by (simp add: parse_int64_def digit_val_def)

definition demo_doc :: jwks_doc where
  "demo_doc = \<lparr>Keys = [\<lparr>k_Kid = ''k1'', k_Kty = ''RSA'', k_Alg = [], k_Use = [], k_N = ''Bw'', k_E = ''AQAB''\<rparr>]\<rparr>"

lemma demo_parsed:
  "parse_header (json_bytes demo_header_json) = Some \<lparr>h_Alg = ''RS256'', h_Kid = ''k1'', h_Typ = []\<rparr>"
  "parse_claims (json_bytes demo_claims_json) = Some demo_claims"
  "dec_struct jwks_fields \<lparr>Keys = []\<rparr> demo_jwks_json = Some demo_doc"
proof -
  show "parse_header (json_bytes demo_header_json) = Some \<lparr>h_Alg = ''RS256'', h_Kid = ''k1'', h_Typ = []\<rparr>"
    unfolding parse_header_def json_bytes_read(1) [OF demo_jsons(1)]
    by (simp add: demo_header_json_def demo_fields plain_reading)
  show "parse_claims (json_bytes demo_claims_json) = Some demo_claims"
    unfolding parse_claims_def json_bytes_read(1) [OF demo_jsons(2)]
    by (simp add: demo_claims_json_def demo_fields demo_exp demo_claims_def zero_claims_def plain_reading)
  show "dec_struct jwks_fields \<lparr>Keys = []\<rparr> demo_jwks_json = Some demo_doc"
    by (simp add: demo_jwks_json_def demo_fields zero_jwk_def demo_doc_def plain_reading)
qed

lemma demo_doc_keys: "jwks_keys demo_doc = [''k1'' \<mapsto> demo_key]"
proof -
  have "exponent [1, 0, 1] = 65537" "be_value [7] = 7" by (simp_all add: exponent_mod be_value_def)
  then show ?thesis by (simp add: jwks_keys_def demo_doc_def add_key_def demo_key_def demo_decode)
qed

lemma demo_shape:
  "token_shape demo_jwt demo_head demo_body ''Aw'' \<lparr>h_Alg = ''RS256'', h_Kid = ''k1'', h_Typ = []\<rparr>"
proof -
  have "split_on (CHR ''.'') demo_jwt = [demo_head, demo_body, ''Aw'']"
    using jwt_of_parts b64_no_dot by (simp add: demo_jwt_def demo_body_def)
  then show ?thesis by (auto simp: token_shape_def demo_decode demo_parsed)
qed

lemma demo_refresh: "refresh (demo_lib True) (demo_clocks 1000) demo_verifier 0 = (demo_cached, 1, None)"
  by (simp add: refresh_def fetch_keys_def install_keys_def demo_lib_def demo_verifier_def NewVerifier_def
      json_bytes_read(2) [OF demo_jsons(3)] demo_parsed demo_doc_keys demo_cached_def demo_clocks_def)

lemma demo_cache:
  "cached_key demo_verifier now kid = None" "reread_key demo_cached ''k1'' = Inr demo_key"
  by (simp_all add: cached_key_def reread_key_def demo_verifier_def NewVerifier_def demo_cached_def)

lemma demo_verify:
  "Verify (demo_lib True) (demo_clocks 1000) demo_jwt demo_verifier 0 = (demo_cached, 1, Inr demo_claims)"
proof -
  have "keyFor (demo_lib True) (demo_clocks 1000) ''k1'' demo_verifier 0 = (demo_cached, 1, Inr demo_key)"
    by (simp add: keyFor_def demo_cache demo_refresh)
  moreover have "check_claims (demo_lib True) demo_cached (at_check (demo_clocks 1000)) demo_body = Inr demo_claims"
    by (simp add: check_claims_def demo_decode demo_parsed demo_clocks_def demo_cached_def
        demo_verifier_def NewVerifier_def) (simp add: demo_claims_def zero_claims_def)
  ultimately show ?thesis
    by (simp add: Verify_shape [OF demo_shape] demo_decode) (simp add: demo_lib_def demo_key_def)
qed

section \<open>Witnesses\<close>

theorem Verify_sound_witness:
  "v_keys demo_cached ''k1'' = Some demo_key \<and>
   (\<exists>p0 p1 p2 sig. demo_jwt = p0 @ ''.'' @ p1 @ ''.'' @ p2 \<and> base64URLDecode p2 = Inr sig)"
  using Verify_sound [OF demo_verify] by (auto simp: demo_cached_def)

theorem accepted_key_was_published_witness:
  "\<exists>doc. served (demo_lib True) ''https://idp/certs'' doc \<and> v_keys demo_cached = jwks_keys doc"
proof -
  have "verifier_reach (demo_lib True) demo_verifier"
    unfolding demo_verifier_def by (rule verifier_reach.reach_new)
  from accepted_key_was_published [OF this demo_verify]
  show ?thesis by (auto simp: demo_verifier_def NewVerifier_def)
qed

theorem accepted_until_expiry_witness:
  "Verify (demo_lib True) (demo_clocks 1999) demo_jwt demo_cached 1 = (demo_cached, 1, Inr demo_claims) \<and>
   Verify (demo_lib True) (demo_clocks 2000) demo_jwt demo_cached 1 = (demo_cached, 1, Inl TokenExpired)"
proof -
  have fresh: "time_sub (at_lookup (demo_clocks s)) (keysAt demo_cached) < RefreshInterval demo_cached"
    if "s \<in> {1999, 2000}" for s
    using that by (auto simp: demo_clocks_def demo_cached_def demo_verifier_def NewVerifier_def
        time_sub_def min_duration_def max_duration_def one_hour_def)
  show ?thesis
    using accepted_until_expiry [OF demo_verify refl, of "demo_clocks 1999" 1]
      accepted_until_expiry [OF demo_verify refl, of "demo_clocks 2000" 1] fresh [of 1999] fresh [of 2000]
    by (simp add: demo_claims_def demo_clocks_def)
qed

theorem stale_cache_fails_closed_witness:
  "fst (Verify (demo_lib False) (demo_clocks 4600) demo_jwt demo_cached 1) = demo_cached \<and>
   snd (snd (Verify (demo_lib False) (demo_clocks 4600) demo_jwt demo_cached 1)) \<noteq> Inr demo_claims"
proof -
  have "RefreshInterval demo_cached \<le> time_sub (at_lookup (demo_clocks 4600)) (keysAt demo_cached)"
    by (simp add: demo_clocks_def demo_cached_def demo_verifier_def NewVerifier_def time_sub_def
        min_duration_def max_duration_def one_hour_def)
  moreover have "refresh (demo_lib False) (demo_clocks 4600) demo_cached 1 = (demo_cached, 2, Some (FetchError ''refused''))"
    by (simp add: refresh_def fetch_keys_def install_keys_def demo_lib_def demo_cached_def demo_verifier_def NewVerifier_def)
  ultimately show ?thesis
    using stale_cache_fails_closed [of demo_cached "demo_clocks 4600" "demo_lib False" 1 demo_cached 2] by simp
qed

theorem unknown_kid_fetches_witness:
  "fst (snd (Verify (demo_lib True) (demo_clocks 1000) demo_jwt (demo_cached\<lparr>v_keys := Map.empty\<rparr>) 5)) = 6"
  using unknown_kid_fetches [OF demo_shape, of "demo_cached\<lparr>v_keys := Map.empty\<rparr>" "demo_lib True" "demo_clocks 1000" 5]
  by (simp add: demo_cached_def demo_verifier_def NewVerifier_def demo_lib_def)

theorem daemon_token_is_no_bearer_token_witness:
  "Verify (demo_lib True) (demo_clocks 1000) ''chep_ab'' demo_verifier 0 = (demo_verifier, 0, Inl MalformedToken)"
proof -
  have "mint_token (Inr [171]) = Inr ''chep_ab''" by code_simp
  from daemon_token_is_no_bearer_token [OF this] show ?thesis .
qed

end
