(* ===== verification/Auth_Concurrent.thy ===== *)
theory Auth_Concurrent
  imports Auth_Demo
begin

text \<open>
  Verifications running side by side on one verifier (\<open>internal/auth/auth.go\<close>). Each runs in the
  goroutine of its request; it is cut at the sections of \<open>keyFor\<close> and \<open>refresh\<close> under
  \<open>v.mu\<close>, so that others can intervene between the two look-ups, during the fetch, and between
  the fetch and the installation of the keys. The parts that do not touch the cache
  (\<open>verify_header\<close>, \<open>verify_signed\<close>) are those of \<open>Verify\<close>.
\<close>

section \<open>The steps of a verification\<close>

datatype verification =
    Looking parsed_token
  | Fetching parsed_token
  | Installing parsed_token "string \<rightharpoonup> pubkey"
  | Rereading parsed_token
  | Checking parsed_token pubkey
  | Verdict "auth_error + claims"

datatype vevent =
    Arrived string
  | CacheHit time
  | CacheMiss
  | KeysFetched "string \<rightharpoonup> pubkey"
  | KeysInstalled "string \<rightharpoonup> pubkey" time
  | RereadHit
  | Checked time
  | LookupFailed
  | Outside

definition start_verification :: "'w auth_lib \<Rightarrow> string \<Rightarrow> verification" where
  "start_verification lib token =
     (case verify_header lib token of Inl e \<Rightarrow> Verdict (Inl e) | Inr p \<Rightarrow> Looking p)"

inductive verify_step ::
    "'w auth_lib \<Rightarrow> verifier \<Rightarrow> 'w \<Rightarrow> verification \<Rightarrow> vevent \<Rightarrow> verifier \<Rightarrow> 'w \<Rightarrow> verification \<Rightarrow> bool"
  for lib where
  hit: "cached_key v now (pt_kid p) = Some k \<Longrightarrow>
    verify_step lib v w (Looking p) (CacheHit now) v w (Checking p k)"
| miss: "cached_key v now (pt_kid p) = None \<Longrightarrow>
    verify_step lib v w (Looking p) CacheMiss v w (Fetching p)"
| fetched: "fetch_keys lib (JWKSEndpoint v) w = (w', Inr ks) \<Longrightarrow>
    verify_step lib v w (Fetching p) (KeysFetched ks) v w' (Installing p ks)"
| fetch_failed: "fetch_keys lib (JWKSEndpoint v) w = (w', Inl e) \<Longrightarrow>
    verify_step lib v w (Fetching p) LookupFailed v w' (Verdict (Inl (KeyLookup e)))"
| install:
    "verify_step lib v w (Installing p ks) (KeysInstalled ks now) (install_keys ks now v) w (Rereading p)"
| reread_hit: "reread_key v (pt_kid p) = Inr k \<Longrightarrow>
    verify_step lib v w (Rereading p) RereadHit v w (Checking p k)"
| reread_miss: "reread_key v (pt_kid p) = Inl e \<Longrightarrow>
    verify_step lib v w (Rereading p) LookupFailed v w (Verdict (Inl (KeyLookup e)))"
| check:
    "verify_step lib v w (Checking p k) (Checked now) v w (Verdict (verify_signed lib v now p k))"

inductive_simps Looking_step: "verify_step lib v w (Looking p) e v' w' h'"
inductive_simps Fetching_step: "verify_step lib v w (Fetching p) e v' w' h'"
inductive_simps Installing_step: "verify_step lib v w (Installing p ks) e v' w' h'"
inductive_simps Rereading_step: "verify_step lib v w (Rereading p) e v' w' h'"
inductive_simps Checking_step: "verify_step lib v w (Checking p k) e v' w' h'"
inductive_simps Verdict_step [simp]: "verify_step lib v w (Verdict r) e v' w' h'"

lemmas verification_steps =
  Looking_step Fetching_step Installing_step Rereading_step Checking_step

section \<open>A verification that runs alone\<close>

inductive alone ::
    "'w auth_lib \<Rightarrow> verifier \<Rightarrow> 'w \<Rightarrow> verification \<Rightarrow> verifier \<Rightarrow> 'w \<Rightarrow> (auth_error + claims) \<Rightarrow> bool"
  for lib where
  over: "alone lib v w (Verdict r) v w r"
| turn: "verify_step lib v w h e v1 w1 h1 \<Longrightarrow> alone lib v1 w1 h1 v2 w2 r \<Longrightarrow> alone lib v w h v2 w2 r"

inductive_simps alone_Verdict [simp]: "alone lib v w (Verdict r) v' w' r'"
inductive_cases alone_LookingE: "alone lib v w (Looking p) v' w' r"
inductive_cases alone_FetchingE: "alone lib v w (Fetching p) v' w' r"
inductive_cases alone_InstallingE: "alone lib v w (Installing p ks) v' w' r"
inductive_cases alone_RereadingE: "alone lib v w (Rereading p) v' w' r"
inductive_cases alone_CheckingE: "alone lib v w (Checking p k) v' w' r"

lemma alone_check: "alone lib v w (Checking p k) v w (verify_signed lib v now p k)"
  by (rule alone.turn [OF verify_step.check alone.over])

lemma alone_Checking:
  "alone lib v w (Checking p k) v' w' r \<longleftrightarrow> v' = v \<and> w' = w \<and> (\<exists>now. r = verify_signed lib v now p k)"
  by (auto simp: Checking_step elim!: alone_CheckingE intro: alone_check) (rule exI, rule refl)

lemma alone_Rereading:
  "alone lib v w (Rereading p) v' w' r \<longleftrightarrow> v' = v \<and> w' = w \<and>
     (\<exists>now. r = (case reread_key v (pt_kid p) of
        Inl e \<Rightarrow> Inl (KeyLookup e)
      | Inr k \<Rightarrow> verify_signed lib v now p k))"
  by (cases "reread_key v (pt_kid p)")
    (auto simp: Rereading_step alone_Checking elim!: alone_RereadingE
      intro: alone.turn [OF verify_step.reread_miss alone.over] alone.turn [OF verify_step.reread_hit alone_check])

lemma alone_Installing:
  "alone lib v w (Installing p ks) v' w' r \<longleftrightarrow>
     (\<exists>t. alone lib (install_keys ks t v) w (Rereading p) v' w' r)"
  by (auto simp: Installing_step elim!: alone_InstallingE intro: alone.turn [OF verify_step.install])

lemma alone_Fetching:
  "alone lib v w (Fetching p) v' w' r \<longleftrightarrow>
     (case fetch_keys lib (JWKSEndpoint v) w of
        (w1, Inl e) \<Rightarrow> v' = v \<and> w' = w1 \<and> r = Inl (KeyLookup e)
      | (w1, Inr ks) \<Rightarrow> alone lib v w1 (Installing p ks) v' w' r)"
  by (auto simp: Fetching_step elim!: alone_FetchingE split: prod.splits sum.splits
      intro: alone.turn [OF verify_step.fetch_failed alone.over] alone.turn [OF verify_step.fetched])

lemma alone_Looking:
  "alone lib v w (Looking p) v' w' r \<longleftrightarrow>
     (\<exists>now. case cached_key v now (pt_kid p) of
        Some k \<Rightarrow> alone lib v w (Checking p k) v' w' r
      | None \<Rightarrow> alone lib v w (Fetching p) v' w' r)"
proof
  assume "alone lib v w (Looking p) v' w' r"
  then obtain e v1 w1 h1 where st: "verify_step lib v w (Looking p) e v1 w1 h1"
    and rest: "alone lib v1 w1 h1 v' w' r" by (rule alone_LookingE)
  from st show "\<exists>now. case cached_key v now (pt_kid p) of
        Some k \<Rightarrow> alone lib v w (Checking p k) v' w' r
      | None \<Rightarrow> alone lib v w (Fetching p) v' w' r"
  proof cases
    case (hit now k)
    with rest show ?thesis by (intro exI [of _ now]) simp
  next
    case (miss now)
    with rest show ?thesis by (intro exI [of _ now]) simp
  qed
next
  assume "\<exists>now. case cached_key v now (pt_kid p) of
        Some k \<Rightarrow> alone lib v w (Checking p k) v' w' r
      | None \<Rightarrow> alone lib v w (Fetching p) v' w' r"
  then obtain now where "case cached_key v now (pt_kid p) of
        Some k \<Rightarrow> alone lib v w (Checking p k) v' w' r
      | None \<Rightarrow> alone lib v w (Fetching p) v' w' r" ..
  then show "alone lib v w (Looking p) v' w' r"
    by (auto split: option.splits
        intro: alone.turn [OF verify_step.hit] alone.turn [OF verify_step.miss])
qed

lemma Verify_rejected:
  "verify_header lib token = Inl e \<Longrightarrow> Verify lib t token v w = (v, w, Inl e)"
  by (simp add: Verify_def)

lemma Verify_hit:
  "verify_header lib token = Inr p \<Longrightarrow> cached_key v (at_lookup t) (pt_kid p) = Some k \<Longrightarrow>
     Verify lib t token v w = (v, w, verify_signed lib v (at_check t) p k)"
  by (simp add: Verify_def keyFor_def)

lemma Verify_miss:
  assumes "verify_header lib token = Inr p" and "cached_key v (at_lookup t) (pt_kid p) = None"
  shows "Verify lib t token v w =
    (case fetch_keys lib (JWKSEndpoint v) w of
       (w1, Inl e) \<Rightarrow> (v, w1, Inl (KeyLookup e))
     | (w1, Inr ks) \<Rightarrow>
         (let v1 = install_keys ks (at_fetched t) v in
          case reread_key v1 (pt_kid p) of
            Inl e \<Rightarrow> (v1, w1, Inl (KeyLookup e))
          | Inr k \<Rightarrow> (v1, w1, verify_signed lib v1 (at_check t) p k)))"
  using assms by (simp add: Verify_def keyFor_def refresh_def Let_def split: prod.split sum.split)

text \<open>
  The sequential \<open>Verify\<close> is the verification that nobody interferes with: the runs of the
  steps from a token to a verdict, with no other step between, are exactly the results of
  \<open>Verify\<close>, for some reading of the clock.
\<close>

theorem Verify_is_solo_run:
  "alone lib v w (start_verification lib token) v' w' r \<longleftrightarrow>
     (\<exists>t. Verify lib t token v w = (v', w', r))"
proof (cases "verify_header lib token")
  case (Inl e)
  then show ?thesis by (auto simp: start_verification_def Verify_rejected)
next
  case (Inr p)
  have seq: "Verify lib \<lparr>at_lookup = t0, at_fetched = t1, at_check = t2\<rparr> token v w = (v', w', r) \<longleftrightarrow>
      (case cached_key v t0 (pt_kid p) of
         Some k \<Rightarrow> v' = v \<and> w' = w \<and> r = verify_signed lib v t2 p k
       | None \<Rightarrow>
           (case fetch_keys lib (JWKSEndpoint v) w of
              (w1, Inl e) \<Rightarrow> v' = v \<and> w' = w1 \<and> r = Inl (KeyLookup e)
            | (w1, Inr ks) \<Rightarrow>
                v' = install_keys ks t1 v \<and> w' = w1 \<and>
                r = (case reread_key v' (pt_kid p) of
                       Inl e \<Rightarrow> Inl (KeyLookup e)
                     | Inr k \<Rightarrow> verify_signed lib v' t2 p k)))" for t0 t1 t2
    by (cases "cached_key v t0 (pt_kid p)")
      (auto simp: Verify_hit [OF Inr] Verify_miss [OF Inr] Let_def split: prod.splits sum.splits)
  have par: "alone lib v w (Looking p) v' w' r \<longleftrightarrow>
      (\<exists>t0 t1 t2. case cached_key v t0 (pt_kid p) of
         Some k \<Rightarrow> v' = v \<and> w' = w \<and> r = verify_signed lib v t2 p k
       | None \<Rightarrow>
           (case fetch_keys lib (JWKSEndpoint v) w of
              (w1, Inl e) \<Rightarrow> v' = v \<and> w' = w1 \<and> r = Inl (KeyLookup e)
            | (w1, Inr ks) \<Rightarrow>
                v' = install_keys ks t1 v \<and> w' = w1 \<and>
                r = (case reread_key v' (pt_kid p) of
                       Inl e \<Rightarrow> Inl (KeyLookup e)
                     | Inr k \<Rightarrow> verify_signed lib v' t2 p k)))"
    unfolding alone_Looking
    by (intro iff_exI)
      (cases "fetch_keys lib (JWKSEndpoint v) w"; cases "snd (fetch_keys lib (JWKSEndpoint v) w)";
        auto simp: alone_Checking alone_Fetching alone_Installing alone_Rereading split: option.split)
  have "(\<exists>t. Verify lib t token v w = (v', w', r)) \<longleftrightarrow>
      (\<exists>t0 t1 t2. Verify lib \<lparr>at_lookup = t0, at_fetched = t1, at_check = t2\<rparr> token v w = (v', w', r))"
    by (metis clocks.cases)
  with Inr show ?thesis by (simp only: start_verification_def sum.case par seq)
qed

end
