(* ===== verification/Auth_Interleaved.thy ===== *)
theory Auth_Interleaved
  imports Auth_Concurrent
begin

text \<open>
  The system of all verifications on one verifier: any number of them, started at any time, with
  their steps in any order, while the world outside (the identity service included) changes
  as it likes. The lemmas describe the key cache and what each verification has learned in
  terms of the trace; the theorems are the concurrent counterparts of those of
  \<open>Auth_Theorems\<close>.
\<close>

section \<open>Executions\<close>

record 'w vsys =
  vs_verifier :: verifier
  vs_world :: 'w
  vs_live :: "nat \<rightharpoonup> verification"

type_synonym vtrace = "(nat \<times> vevent) list"

inductive vsys_step :: "'w auth_lib \<Rightarrow> 'w vsys \<Rightarrow> nat \<times> vevent \<Rightarrow> 'w vsys \<Rightarrow> bool" for lib where
  arrives: "vs_live s r = None \<Longrightarrow>
    vsys_step lib s (r, Arrived token) (s\<lparr>vs_live := (vs_live s)(r \<mapsto> start_verification lib token)\<rparr>)"
| moves: "vs_live s r = Some h \<Longrightarrow> verify_step lib (vs_verifier s) (vs_world s) h e v' w' h' \<Longrightarrow>
    vsys_step lib s (r, e) \<lparr>vs_verifier = v', vs_world = w', vs_live = (vs_live s)(r \<mapsto> h')\<rparr>"
| outside: "vsys_step lib s (r, Outside) (s\<lparr>vs_world := w\<rparr>)"

inductive vreach :: "'w auth_lib \<Rightarrow> string \<Rightarrow> string \<Rightarrow> string \<Rightarrow> vtrace \<Rightarrow> 'w vsys \<Rightarrow> bool"
  for lib url iss aud where
  vstart: "vreach lib url iss aud []
    \<lparr>vs_verifier = NewVerifier url iss aud, vs_world = w, vs_live = Map.empty\<rparr>"
| vstep: "vreach lib url iss aud tr s \<Longrightarrow> vsys_step lib s e s' \<Longrightarrow> vreach lib url iss aud (tr @ [e]) s'"

section \<open>The cache\<close>

text \<open>The key sets installed so far, and the verifier they leave.\<close>

fun installed_in :: "vevent \<Rightarrow> ((string \<rightharpoonup> pubkey) \<times> time) list" where
  "installed_in (KeysInstalled ks t) = [(ks, t)]"
| "installed_in _ = []"

definition installs :: "vtrace \<Rightarrow> ((string \<rightharpoonup> pubkey) \<times> time) list" where
  "installs tr = concat (map (\<lambda>x. installed_in (snd x)) tr)"

definition last_cache :: "verifier \<Rightarrow> ((string \<rightharpoonup> pubkey) \<times> time) list \<Rightarrow> verifier" where
  "last_cache v ins = (if ins = [] then v else install_keys (fst (last ins)) (snd (last ins)) v)"

lemma installs_append [simp]: "installs (tr @ tr') = installs tr @ installs tr'"
  by (simp add: installs_def)

lemma installs_snoc [simp]: "installs [x] = installed_in (snd x)"
  by (simp add: installs_def)

lemma installs_set: "(ks, t) \<in> set (installs tr) \<longleftrightarrow> (\<exists>r. (r, KeysInstalled ks t) \<in> set tr)"
proof -
  have "(ks, t) \<in> set (installed_in e) \<longleftrightarrow> e = KeysInstalled ks t" for e by (cases e) auto
  then show ?thesis unfolding installs_def by force
qed

lemma install_keys_simps [simp]:
  "v_keys (install_keys ks t v) = ks" "keysAt (install_keys ks t v) = t"
  "JWKSEndpoint (install_keys ks t v) = JWKSEndpoint v"
  "ExpectedIssuer (install_keys ks t v) = ExpectedIssuer v"
  "ExpectedAudience (install_keys ks t v) = ExpectedAudience v"
  "RefreshInterval (install_keys ks t v) = RefreshInterval v"
  "install_keys ks t (install_keys ks' t' v) = install_keys ks t v"
  by (simp_all add: install_keys_def)

lemma last_cache_simps [simp]:
  "JWKSEndpoint (last_cache v ins) = JWKSEndpoint v"
  "ExpectedIssuer (last_cache v ins) = ExpectedIssuer v"
  "ExpectedAudience (last_cache v ins) = ExpectedAudience v"
  "RefreshInterval (last_cache v ins) = RefreshInterval v"
  "last_cache v [] = v"
  "install_keys ks t (last_cache v ins) = last_cache v (ins @ [(ks, t)])"
  by (simp_all add: last_cache_def)

lemma verify_step_cache:
  assumes "verify_step lib v w h e v' w' h'" and "v = last_cache v0 ins"
  shows "v' = last_cache v0 (ins @ installed_in e)"
  using assms by cases auto

text \<open>The cache holds exactly the key set installed last, with the time of that installation.\<close>

lemma reach_cache:
  "vreach lib url iss aud tr s \<Longrightarrow> vs_verifier s = last_cache (NewVerifier url iss aud) (installs tr)"
proof (induction rule: vreach.induct)
  case (vstep tr s e s')
  from vstep.hyps(2) show ?case
  proof cases
    case (moves r h e' v' w' h')
    with verify_step_cache [OF moves(4) vstep.IH] show ?thesis by simp
  qed (use vstep.IH in simp_all)
qed (simp add: installs_def)

lemma cached_key_installed:
  assumes "cached_key (last_cache (NewVerifier url iss aud) ins) now kid = Some k"
  obtains ks t where "(ks, t) \<in> set ins" and "ks kid = Some k" and "time_sub now t < one_hour"
proof (cases "ins = []")
  case True
  with assms show ?thesis by (simp add: cached_key_def NewVerifier_def split: if_splits)
next
  case False
  then have "(fst (last ins), snd (last ins)) \<in> set ins" by simp
  with False assms that show ?thesis
    by (fastforce simp: cached_key_def last_cache_def NewVerifier_def split: if_splits)
qed

lemma reread_key_installed:
  assumes "reread_key (last_cache v ins) kid = Inr k" and "ins \<noteq> []"
  shows "fst (last ins) kid = Some k"
  using assms by (simp add: reread_key_def last_cache_def split: option.splits)

section \<open>What a verification has learned\<close>

definition parsed_from :: "'w auth_lib \<Rightarrow> vtrace \<Rightarrow> nat \<Rightarrow> parsed_token \<Rightarrow> bool" where
  "parsed_from lib tr r p \<longleftrightarrow> (\<exists>token. (r, Arrived token) \<in> set tr \<and> verify_header lib token = Inr p)"

text \<open>A key set was installed after the verification \<open>r\<close> had missed the cache.\<close>

definition installed_during :: "vtrace \<Rightarrow> nat \<Rightarrow> (string \<rightharpoonup> pubkey) \<times> time \<Rightarrow> bool" where
  "installed_during tr r x \<longleftrightarrow>
     (\<exists>tr1 tr2. tr = tr1 @ tr2 \<and> (r, CacheMiss) \<in> set tr1 \<and> x \<in> set (installs tr2))"

text \<open>
  Where the key of a verification comes from: a key set that was fresh when the verification
  looked it up, or one installed while the verification was running.
\<close>

definition key_known :: "vtrace \<Rightarrow> nat \<Rightarrow> string \<Rightarrow> pubkey \<Rightarrow> bool" where
  "key_known tr r kid k \<longleftrightarrow>
     (\<exists>ks t. (ks, t) \<in> set (installs tr) \<and> ks kid = Some k \<and>
        ((\<exists>now. (r, CacheHit now) \<in> set tr \<and> time_sub now t < one_hour) \<or> installed_during tr r (ks, t)))"

text \<open>Keys were installed after the verification \<open>r\<close> had missed the cache.\<close>

definition keys_since_miss :: "vtrace \<Rightarrow> nat \<Rightarrow> bool" where
  "keys_since_miss tr r \<longleftrightarrow>
     (\<exists>tr1 tr2. tr = tr1 @ tr2 \<and> (r, CacheMiss) \<in> set tr1 \<and> installs tr2 \<noteq> [])"

definition verdict_ok :: "'w auth_lib \<Rightarrow> verifier \<Rightarrow> vtrace \<Rightarrow> nat \<Rightarrow> claims \<Rightarrow> bool" where
  "verdict_ok lib v0 tr r c \<longleftrightarrow>
     (\<exists>p k now. parsed_from lib tr r p \<and> key_known tr r (pt_kid p) k \<and> (r, Checked now) \<in> set tr \<and>
        verify_signed lib v0 now p k = Inr c)"

fun vok :: "'w auth_lib \<Rightarrow> verifier \<Rightarrow> vtrace \<Rightarrow> nat \<Rightarrow> verification \<Rightarrow> bool" where
  "vok lib v0 tr r (Looking p) \<longleftrightarrow> parsed_from lib tr r p"
| "vok lib v0 tr r (Fetching p) \<longleftrightarrow> parsed_from lib tr r p \<and> (r, CacheMiss) \<in> set tr"
| "vok lib v0 tr r (Installing p ks) \<longleftrightarrow>
     parsed_from lib tr r p \<and> (r, CacheMiss) \<in> set tr \<and> (r, KeysFetched ks) \<in> set tr"
| "vok lib v0 tr r (Rereading p) \<longleftrightarrow> parsed_from lib tr r p \<and> keys_since_miss tr r"
| "vok lib v0 tr r (Checking p k) \<longleftrightarrow> parsed_from lib tr r p \<and> key_known tr r (pt_kid p) k"
| "vok lib v0 tr r (Verdict res) \<longleftrightarrow> (\<forall>c. res = Inr c \<longrightarrow> verdict_ok lib v0 tr r c)"

lemma parsed_from_mono: "parsed_from lib tr r p \<Longrightarrow> parsed_from lib (tr @ tr') r p"
  by (auto simp: parsed_from_def)

lemma installed_during_mono: "installed_during tr r x \<Longrightarrow> installed_during (tr @ tr') r x"
  unfolding installed_during_def by (metis UnCI append.assoc installs_append set_append)

lemma key_known_mono: "key_known tr r kid k \<Longrightarrow> key_known (tr @ tr') r kid k"
  unfolding key_known_def using installed_during_mono by (metis UnCI installs_append set_append)

lemma verdict_ok_mono: "verdict_ok lib v0 tr r c \<Longrightarrow> verdict_ok lib v0 (tr @ tr') r c"
  unfolding verdict_ok_def using parsed_from_mono key_known_mono by (metis UnCI set_append)

lemma keys_since_miss_mono: "keys_since_miss tr r \<Longrightarrow> keys_since_miss (tr @ tr') r"
  unfolding keys_since_miss_def by (metis append.assoc append_is_Nil_conv installs_append)

lemma vok_mono: "vok lib v0 tr r h \<Longrightarrow> vok lib v0 (tr @ tr') r h"
  by (cases h) (auto intro: parsed_from_mono key_known_mono verdict_ok_mono keys_since_miss_mono)

lemma verify_signed_cache [simp]:
  "verify_signed lib (last_cache v ins) now p k = verify_signed lib v now p k"
  unfolding verify_signed_def check_claims_def last_cache_simps by (rule refl)

lemma vok_step:
  assumes "verify_step lib (last_cache (NewVerifier url iss aud) (installs tr)) w h e v' w' h'"
    and "vok lib (NewVerifier url iss aud) tr r h"
  shows "vok lib (NewVerifier url iss aud) (tr @ [(r, e)]) r h'"
  using assms(1)
proof cases
  case (hit now p k)
  obtain ks t where "(ks, t) \<in> set (installs tr)" "ks (pt_kid p) = Some k" "time_sub now t < one_hour"
    using hit cached_key_installed [of url iss aud "installs tr" now "pt_kid p" k] by metis
  then have "key_known (tr @ [(r, CacheHit now)]) r (pt_kid p) k" unfolding key_known_def by fastforce
  with hit assms(2) show ?thesis by (simp add: parsed_from_mono)
next
  case (install p ks now)
  with assms(2) have "(r, CacheMiss) \<in> set tr" by simp
  then have "keys_since_miss (tr @ [(r, e)]) r"
    unfolding keys_since_miss_def using install by (intro exI [of _ tr] exI [of _ "[(r, e)]"]) simp
  with install assms(2) show ?thesis by (simp add: parsed_from_mono)
next
  case (reread_hit p k)
  from reread_hit assms(2) obtain tr1 tr2 where tr: "tr = tr1 @ tr2" "(r, CacheMiss) \<in> set tr1" "installs tr2 \<noteq> []"
    by (auto simp: keys_since_miss_def)
  let ?x = "last (installs tr2)"
  have "last (installs tr) = ?x" "installs tr \<noteq> []" using tr by simp_all
  with reread_hit reread_key_installed [of "NewVerifier url iss aud" "installs tr" "pt_kid p" k] have "fst ?x (pt_kid p) = Some k" by simp
  moreover have "installed_during tr r ?x"
    unfolding installed_during_def using tr by (intro exI [of _ tr1] exI [of _ tr2]) simp
  moreover have "?x \<in> set (installs tr)" using tr by simp
  ultimately have "key_known tr r (pt_kid p) k" unfolding key_known_def by (metis prod.collapse)
  with reread_hit assms(2) show ?thesis by (simp add: parsed_from_mono key_known_mono)
next
  case (check p k now)
  with assms(2) show ?thesis
    by (auto simp: verdict_ok_def intro!: exI [of _ p] exI [of _ k] exI [of _ now]
        intro: parsed_from_mono key_known_mono)
qed (use assms(2) in \<open>simp_all add: parsed_from_mono\<close>)

section \<open>The invariant\<close>

definition vinv :: "'w auth_lib \<Rightarrow> string \<Rightarrow> verifier \<Rightarrow> vtrace \<Rightarrow> 'w vsys \<Rightarrow> bool" where
  "vinv lib url v0 tr s \<longleftrightarrow>
     (\<forall>r h. vs_live s r = Some h \<longrightarrow> vok lib v0 tr r h) \<and>
     (\<forall>r ks. (r, KeysFetched ks) \<in> set tr \<longrightarrow> (\<exists>doc. served lib url doc \<and> ks = jwks_keys doc)) \<and>
     (\<forall>r ks t. (r, KeysInstalled ks t) \<in> set tr \<longrightarrow> (r, KeysFetched ks) \<in> set tr)"

lemma vinv_live: "vinv lib url v0 tr s \<Longrightarrow> vs_live s r = Some h \<Longrightarrow> vok lib v0 tr r h"
  by (simp add: vinv_def)

lemma vinv_append:
  assumes "vinv lib url v0 tr s"
    and "\<And>r h. vs_live s' r = Some h \<Longrightarrow> vs_live s r = Some h \<or> vok lib v0 (tr @ [e]) r h"
    and "\<And>ks. snd e = KeysFetched ks \<Longrightarrow> \<exists>doc. served lib url doc \<and> ks = jwks_keys doc"
    and "\<And>ks t. snd e = KeysInstalled ks t \<Longrightarrow> (fst e, KeysFetched ks) \<in> set tr"
  shows "vinv lib url v0 (tr @ [e]) s'"
proof -
  have "vok lib v0 (tr @ [e]) r h" if "vs_live s' r = Some h" for r h
    using assms(2) [OF that] assms(1) by (auto simp: vinv_def intro: vok_mono)
  with assms(1,3,4) show ?thesis by (fastforce simp: vinv_def)
qed

lemma reach_vinv:
  "vreach lib url iss aud tr s \<Longrightarrow> vinv lib url (NewVerifier url iss aud) tr s"
proof (induction rule: vreach.induct)
  case (vstep tr s e s')
  let ?v0 = "NewVerifier url iss aud"
  note cache = reach_cache [OF vstep.hyps(1)]
  from vstep.hyps(2) show ?case
  proof cases
    case (arrives r token)
    have "vok lib ?v0 (tr @ [e]) r (start_verification lib token)"
      using arrives by (auto simp: start_verification_def parsed_from_def split: sum.split)
    with arrives show ?thesis
      by (intro vinv_append [OF vstep.IH]) (auto split: if_splits)
  next
    case (moves r h e' v' w' h')
    have ok: "vok lib ?v0 tr r h" by (rule vinv_live [OF vstep.IH moves(3)])
    note st = moves(4) [unfolded cache]
    have "vok lib ?v0 (tr @ [e]) r h'" using vok_step [OF st ok] moves(1) by simp
    moreover have "\<exists>doc. served lib url doc \<and> ks = jwks_keys doc" if "e' = KeysFetched ks" for ks
      using st that by cases (auto dest: fetch_keys_served simp: NewVerifier_def)
    moreover have "(r, KeysFetched ks) \<in> set tr" if "e' = KeysInstalled ks t" for ks t
      using st that ok by cases auto
    ultimately show ?thesis using moves(1,2)
      by (intro vinv_append [OF vstep.IH]) (auto split: if_splits)
  next
    case (outside r w)
    then show ?thesis by (intro vinv_append [OF vstep.IH]) auto
  qed
qed (simp add: vinv_def)

end
