(* ===== verification/Auth_Interleaved_Theorems.thy ===== *)
theory Auth_Interleaved_Theorems
  imports Auth_Interleaved
begin

text \<open>
  The properties of verifications that run side by side (\<open>internal/auth/auth.go\<close>): what an
  accepted token proves in every interleaving, that every verification ends, and the race of two
  refreshes.
\<close>

section \<open>Soundness in every interleaving\<close>

lemma check_claims_accepts:
  assumes "check_claims lib v now payload = Inr c"
  obtains pb where "base64URLDecode payload = Inr pb" and "parse_claims pb = Some c"
    and "sint (Expiry c) \<le> 0 \<or> now div 1000000000 < sint (Expiry c)"
    and "ExpectedIssuer v = [] \<or> Issuer c = ExpectedIssuer v"
    and "ExpectedAudience v = [] \<or> Audience c = ExpectedAudience v"
  using assms that
  by (auto simp: check_claims_def Let_def not_less not_le split: sum.splits option.splits if_splits)

lemma verify_signed_accepts:
  assumes "verify_signed lib v now p k = Inr c"
  obtains sig where "base64URLDecode (pt_signature p) = Inr sig"
    and "VerifyPKCS1v15 lib k (Sum256 lib (bytes_of_string (pt_signed p))) sig = None"
    and "check_claims lib v now (pt_payload p) = Inr c"
  using assms that
  by (auto simp: verify_signed_def verifyRSASignature_def verifyRS256_def Let_def
      split: sum.splits option.splits)

text \<open>
  The verification \<open>r\<close> of a trace has accepted a token with the claims \<open>c\<close>, and rightly: header,
  signature under a published RSA key, time, issuer, audience, and the age of the key.
\<close>

definition token_proved ::
    "'w auth_lib \<Rightarrow> string \<Rightarrow> string \<Rightarrow> string \<Rightarrow> vtrace \<Rightarrow> nat \<Rightarrow> claims \<Rightarrow> bool" where
  "token_proved lib url iss aud tr r c \<longleftrightarrow>
     (\<exists>token p0 p1 p2 hdr key sig pb now doc t.
        (r, Arrived token) \<in> set tr \<and> token_shape token p0 p1 p2 hdr \<and>
        base64URLDecode p2 = Inr sig \<and>
        VerifyPKCS1v15 lib key (Sum256 lib (bytes_of_string (p0 @ ''.'' @ p1))) sig = None \<and>
        base64URLDecode p1 = Inr pb \<and> parse_claims pb = Some c \<and>
        (r, Checked now) \<in> set tr \<and>
        (sint (Expiry c) \<le> 0 \<or> now div 1000000000 < sint (Expiry c)) \<and>
        (iss = [] \<or> Issuer c = iss) \<and> (aud = [] \<or> Audience c = aud) \<and>
        served lib url doc \<and> jwks_keys doc (h_Kid hdr) = Some key \<and>
        (\<exists>k \<in> set (Keys doc). k_Kid k = h_Kid hdr \<and> k_Kty k = ''RSA'') \<and>
        ((\<exists>look. (r, CacheHit look) \<in> set tr \<and> (jwks_keys doc, t) \<in> set (installs tr) \<and>
            time_sub look t < one_hour) \<or>
         installed_during tr r (jwks_keys doc, t)))"

lemma verdict_proved:
  assumes "vreach lib url iss aud tr s" and "vs_live s r = Some (Verdict (Inr c))"
  shows "token_proved lib url iss aud tr r c"
proof -
  let ?v0 = "NewVerifier url iss aud"
  note inv = reach_vinv [OF assms(1)]
  have "verdict_ok lib ?v0 tr r c" using vinv_live [OF inv assms(2)] by simp
  then obtain p k now where p: "parsed_from lib tr r p" and k: "key_known tr r (pt_kid p) k"
    and now: "(r, Checked now) \<in> set tr" and vs: "verify_signed lib ?v0 now p k = Inr c"
    by (auto simp: verdict_ok_def)
  obtain token where tok: "(r, Arrived token) \<in> set tr" "verify_header lib token = Inr p"
    using p by (auto simp: parsed_from_def)
  obtain p0 p1 p2 hdr where sh: "token_shape token p0 p1 p2 hdr"
    and peq: "p = \<lparr>pt_kid = h_Kid hdr, pt_signed = p0 @ ''.'' @ p1, pt_payload = p1, pt_signature = p2\<rparr>"
    by (rule verify_headerD [OF tok(2)])
  obtain sig where sig: "base64URLDecode p2 = Inr sig"
    "VerifyPKCS1v15 lib k (Sum256 lib (bytes_of_string (p0 @ ''.'' @ p1))) sig = None"
    "check_claims lib ?v0 now p1 = Inr c"
    using verify_signed_accepts [OF vs] by (auto simp: peq)
  obtain pb where pb: "base64URLDecode p1 = Inr pb" "parse_claims pb = Some c"
    "sint (Expiry c) \<le> 0 \<or> now div 1000000000 < sint (Expiry c)"
    "iss = [] \<or> Issuer c = iss" "aud = [] \<or> Audience c = aud"
    using check_claims_accepts [OF sig(3)] by (auto simp: NewVerifier_def)
  obtain ks t where ks: "(ks, t) \<in> set (installs tr)" "ks (pt_kid p) = Some k"
    "(\<exists>look. (r, CacheHit look) \<in> set tr \<and> time_sub look t < one_hour) \<or> installed_during tr r (ks, t)"
    using k by (auto simp: key_known_def)
  obtain doc where doc: "served lib url doc" "ks = jwks_keys doc"
    using ks(1) inv unfolding installs_set vinv_def by blast
  have "\<exists>j \<in> set (Keys doc). k_Kid j = h_Kid hdr \<and> k_Kty j = ''RSA''"
    using jwks_keys_listed [of doc "h_Kid hdr" k] ks(2) doc(2) by (auto simp: peq)
  moreover have "jwks_keys doc (h_Kid hdr) = Some k" using ks(2) doc(2) by (simp add: peq)
  ultimately show ?thesis using tok(1) sh sig(1,2) pb now doc(1) ks(1,3) unfolding doc(2) token_proved_def by blast
qed

lemma token_proved_mono:
  assumes "token_proved lib url iss aud tr r c"
  shows "token_proved lib url iss aud (tr @ tr') r c"
proof -
  have "(r, e) \<in> set (tr @ tr')" if "(r, e) \<in> set tr" for e using that by simp
  moreover have "x \<in> set (installs (tr @ tr'))" if "x \<in> set (installs tr)" for x using that by simp
  ultimately show ?thesis using assms installed_during_mono unfolding token_proved_def by meson
qed

text \<open>
  C3: Whatever the other verifications do between its steps, a token that is accepted has a
  well-formed header naming RS256, a signature that is good under a key which the configured
  endpoint published as an RSA key with that key ID, and claims that are current, for the
  configured issuer and audience. The key set was less than an hour old when it was looked up,
  or it was installed while the verification was running.
\<close>

theorem concurrent_accept_sound:
  assumes "vreach lib url iss aud tr s" and "vs_live s r = Some (Verdict (Inr c))"
  shows "\<exists>token p0 p1 p2 hdr key sig pb now doc t.
    (r, Arrived token) \<in> set tr \<and> token_shape token p0 p1 p2 hdr \<and>
    base64URLDecode p2 = Inr sig \<and>
    VerifyPKCS1v15 lib key (Sum256 lib (bytes_of_string (p0 @ ''.'' @ p1))) sig = None \<and>
    base64URLDecode p1 = Inr pb \<and> parse_claims pb = Some c \<and>
    (r, Checked now) \<in> set tr \<and>
    (sint (Expiry c) \<le> 0 \<or> now div 1000000000 < sint (Expiry c)) \<and>
    (iss = [] \<or> Issuer c = iss) \<and> (aud = [] \<or> Audience c = aud) \<and>
    served lib url doc \<and> jwks_keys doc (h_Kid hdr) = Some key \<and>
    (\<exists>k \<in> set (Keys doc). k_Kid k = h_Kid hdr \<and> k_Kty k = ''RSA'') \<and>
    ((\<exists>look. (r, CacheHit look) \<in> set tr \<and> (jwks_keys doc, t) \<in> set (installs tr) \<and>
        time_sub look t < one_hour) \<or>
     installed_during tr r (jwks_keys doc, t))"
  using verdict_proved [OF assms] unfolding token_proved_def .

section \<open>Every verification ends\<close>

fun vrank :: "verification \<Rightarrow> nat" where
  "vrank (Looking p) = 5"
| "vrank (Fetching p) = 4"
| "vrank (Installing p ks) = 3"
| "vrank (Rereading p) = 2"
| "vrank (Checking p k) = 1"
| "vrank (Verdict r) = 0"

definition vevents_of :: "nat \<Rightarrow> vtrace \<Rightarrow> vevent list" where
  "vevents_of r tr = filter (\<lambda>e. e \<noteq> Outside) (map snd (filter (\<lambda>x. fst x = r) tr))"

lemma vevents_of_snoc [simp]:
  "vevents_of r (tr @ [(r', e)]) = vevents_of r tr @ (if r' = r \<and> e \<noteq> Outside then [e] else [])"
  by (simp add: vevents_of_def)

lemma verify_step_rank: "verify_step lib v w h e v' w' h' \<Longrightarrow> e \<noteq> Outside \<and> vrank h' < vrank h"
  by (cases rule: verify_step.cases) auto

lemma verification_never_stuck:
  "(\<exists>res. h = Verdict res) \<or> (\<exists>e v' w' h'. verify_step lib v w h e v' w' h')"
proof (cases h)
  case (Looking p)
  then show ?thesis
    by (cases "cached_key v 0 (pt_kid p)") (blast intro: verify_step.hit verify_step.miss)+
next
  case (Fetching p)
  obtain w' x where "fetch_keys lib (JWKSEndpoint v) w = (w', x)"
    by (cases "fetch_keys lib (JWKSEndpoint v) w")
  with Fetching show ?thesis
    by (cases x) (blast intro: verify_step.fetched verify_step.fetch_failed)+
next
  case (Rereading p)
  then show ?thesis
    by (cases "reread_key v (pt_kid p)") (blast intro: verify_step.reread_hit verify_step.reread_miss)+
qed (blast intro: verify_step.install verify_step.check)+

text \<open>
  C30: Every verification ends: at every moment one without a verdict can make a step by itself,
  and from its arrival to its verdict it makes at most six.
\<close>

theorem every_verification_ends:
  assumes "vreach lib url iss aud tr s" and "vs_live s r = Some h"
  shows "(h \<in> range Verdict \<or> (\<exists>e v' w' h'. verify_step lib (vs_verifier s) (vs_world s) h e v' w' h')) \<and>
    length (vevents_of r tr) + vrank h \<le> 6"
proof
  show "h \<in> range Verdict \<or> (\<exists>e v' w' h'. verify_step lib (vs_verifier s) (vs_world s) h e v' w' h')"
    using verification_never_stuck [of h lib "vs_verifier s" "vs_world s"] by auto
  have "(\<forall>h. vs_live s r = Some h \<longrightarrow> length (vevents_of r tr) + vrank h \<le> 6) \<and>
      (vs_live s r = None \<longrightarrow> vevents_of r tr = [])"
    using assms(1)
  proof (induction rule: vreach.induct)
    case vstart
    show ?case by (simp add: vevents_of_def)
  next
    case (vstep tr s e s')
    from vstep.hyps(2) show ?case
    proof cases
      case (arrives r' token)
      have "vrank (start_verification lib token) \<le> 5"
        by (simp add: start_verification_def split: sum.split)
      with arrives vstep.IH show ?thesis by auto
    next
      case (moves r' h e' v' w' h')
      with verify_step_rank [OF moves(4)] vstep.IH show ?thesis by auto
    next
      case (outside r' w)
      with vstep.IH show ?thesis by auto
    qed
  qed
  with assms(2) show "length (vevents_of r tr) + vrank h \<le> 6" by blast
qed

section \<open>Two refreshes that race\<close>

text \<open>
  The identity service of \<open>Auth_Demo\<close> withdraws its key when the world changes from 0: then its
  document has no keys.
\<close>

definition rota_lib :: "nat auth_lib" where
  "rota_lib = (demo_lib True)\<lparr>
     http_Do := (\<lambda>url w. (w, Answer 200 (json_bytes (if w = 0 then demo_jwks_json else JObj []))))\<rparr>"

definition rota_keys :: "string \<rightharpoonup> pubkey" where
  "rota_keys = [''k1'' \<mapsto> demo_key]"

definition rota_token :: parsed_token where
  "rota_token = \<lparr>pt_kid = ''k1'', pt_signed = demo_head @ ''.'' @ demo_body, pt_payload = demo_body, pt_signature = ''Aw''\<rparr>"

definition rota_sys :: "verifier \<Rightarrow> nat \<Rightarrow> (nat \<times> verification) list \<Rightarrow> nat vsys" where
  "rota_sys v w hs = \<lparr>vs_verifier = v, vs_world = w, vs_live = map_of hs\<rparr>"

lemma rota_start: "start_verification rota_lib demo_jwt = Looking rota_token"
proof -
  from verify_headerI [OF demo_shape, of rota_lib] show ?thesis by (simp add: start_verification_def rota_token_def)
qed

lemma rota_fetch:
  "fetch_keys rota_lib ''idp'' 0 = (0, Inr rota_keys)"
  "fetch_keys rota_lib ''idp'' 2 = (2, Inr Map.empty)"
proof -
  have "jwks_keys \<lparr>Keys = []\<rparr> = Map.empty" by (simp add: jwks_keys_def)
  moreover have "literal_json (JObj [])" by code_simp
  ultimately show "fetch_keys rota_lib ''idp'' 0 = (0, Inr rota_keys)"
    "fetch_keys rota_lib ''idp'' 2 = (2, Inr Map.empty)"
    by (simp_all add: fetch_keys_def rota_lib_def json_bytes_read demo_jsons demo_parsed demo_doc_keys
        rota_keys_def)
qed

abbreviation rota_new :: verifier where
  "rota_new \<equiv> NewVerifier ''idp'' [] []"

lemma rota_miss: "cached_key rota_new now kid = None"
  by (simp add: cached_key_def NewVerifier_def)

lemma rota_arrives:
  assumes "vreach rota_lib ''idp'' [] [] tr (rota_sys v w hs)" and "map_of hs r = None"
  shows "vreach rota_lib ''idp'' [] [] (tr @ [(r, Arrived demo_jwt)]) (rota_sys v w ((r, Looking rota_token) # hs))"
  using vreach.vstep [OF assms(1) vsys_step.arrives [of _ r rota_lib demo_jwt]] assms(2)
  by (simp add: rota_sys_def rota_start)

lemma rota_moves:
  assumes "vreach rota_lib ''idp'' [] [] tr (rota_sys v w hs)" and "map_of hs r = Some h"
    and "verify_step rota_lib v w h e v' w' h'"
  shows "vreach rota_lib ''idp'' [] [] (tr @ [(r, e)]) (rota_sys v' w' ((r, h') # hs))"
  using vreach.vstep [OF assms(1) vsys_step.moves [of _ r h rota_lib e v' w' h']] assms(2,3)
  by (simp add: rota_sys_def)

lemma rota_old:
  "verify_step rota_lib rota_new 0 (Fetching p) (KeysFetched rota_keys) rota_new 0 (Installing p rota_keys)"
  using rota_fetch(1) by (intro verify_step.fetched) (simp add: NewVerifier_def)

lemma rota_withdrawn:
  "verify_step rota_lib rota_new 2 (Fetching p) (KeysFetched Map.empty) rota_new 2 (Installing p Map.empty)"
  using rota_fetch(2) by (intro verify_step.fetched) (simp add: NewVerifier_def)

lemma rota_race:
  "vreach rota_lib ''idp'' [] []
     ([(0, Arrived demo_jwt), (0, CacheMiss), (0, KeysFetched rota_keys), (3, Outside),
       (2, Arrived demo_jwt), (2, CacheMiss), (2, KeysFetched Map.empty),
       (2, KeysInstalled Map.empty 10), (0, KeysInstalled rota_keys 20)])
     (rota_sys (install_keys rota_keys 20 rota_new) 2
        [(0, Rereading rota_token), (2, Rereading rota_token), (2, Installing rota_token Map.empty),
         (2, Fetching rota_token), (2, Looking rota_token), (0, Installing rota_token rota_keys),
         (0, Fetching rota_token), (0, Looking rota_token)])"
  (is "vreach _ _ _ _ ?tr _")
proof -
  have "vreach rota_lib ''idp'' [] [] [] (rota_sys rota_new 0 [])"
    using vreach.vstart [of rota_lib "''idp''" "[]" "[]" 0] by (simp add: rota_sys_def)
  note r1 = rota_arrives [OF this, of 0, simplified]
  note r2 = rota_moves [where r = 0, OF r1 _ verify_step.miss [where p = rota_token, OF rota_miss], simplified]
  note r3 = rota_moves [where r = 0, OF r2 _ rota_old, simplified]
  have r4: "vreach rota_lib ''idp'' [] []
      [(0, Arrived demo_jwt), (0, CacheMiss), (0, KeysFetched rota_keys), (3, Outside)]
      (rota_sys rota_new 2 [(0, Installing rota_token rota_keys), (0, Fetching rota_token), (0, Looking rota_token)])"
    using vreach.vstep [OF r3 vsys_step.outside [of rota_lib _ 3 2]] by (simp add: rota_sys_def)
  note r5 = rota_arrives [OF r4, of 2, simplified]
  note r6 = rota_moves [where r = 2, OF r5 _ verify_step.miss [where p = rota_token, OF rota_miss], simplified]
  note r7 = rota_moves [where r = 2, OF r6 _ rota_withdrawn, simplified]
  note r9 = rota_moves [where r = 2, OF r7 _ verify_step.install [where now = 10], simplified]
  note r10 = rota_moves [where r = 0, OF r9 _ verify_step.install [where now = 20], simplified]
  then show ?thesis by simp
qed

text \<open>
  C24: Refreshes are not ordered: there is an execution in which a key set that was fetched first is
  installed last, over a newer one in which the identity service had withdrawn its key; the
  withdrawn key is then served from the cache for another refresh interval.
\<close>

theorem older_keys_can_win:
  "\<exists>tr1 tr2 s old new t1 t2.
     vreach rota_lib ''idp'' [] [] (tr1 @ (0, KeysFetched old) # tr2 @
       [(2, KeysFetched new), (2, KeysInstalled new t1), (0, KeysInstalled old t2)]) s \<and>
     t1 < t2 \<and> new ''k1'' = None \<and> old ''k1'' = Some demo_key \<and>
     cached_key (vs_verifier s) (t2 + one_hour - 1) ''k1'' = Some demo_key"
proof -
  let ?s = "rota_sys (install_keys rota_keys 20 rota_new) 2
        [(0, Rereading rota_token), (2, Rereading rota_token), (2, Installing rota_token Map.empty),
         (2, Fetching rota_token), (2, Looking rota_token), (0, Installing rota_token rota_keys),
         (0, Fetching rota_token), (0, Looking rota_token)]"
  have "cached_key (vs_verifier ?s) (20 + one_hour - 1) ''k1'' = Some demo_key"
    by (simp add: rota_sys_def cached_key_def NewVerifier_def rota_keys_def one_hour_def time_sub_def
        min_duration_def max_duration_def)
  with rota_race show ?thesis
    by (intro exI [of _ "[(0, Arrived demo_jwt), (0, CacheMiss)]"]
        exI [of _ "[(3, Outside), (2, Arrived demo_jwt), (2, CacheMiss)]"] exI [of _ ?s]
        exI [of _ rota_keys] exI [of _ Map.empty] exI [of _ 10] exI [of _ 20])
      (simp add: rota_keys_def)
qed

section \<open>Witnesses\<close>

lemma rota_checked: "verify_signed rota_lib v 1000000000000 rota_token demo_key = Inr demo_claims"
  if "ExpectedIssuer v = []" "ExpectedAudience v = []"
proof -
  have "0 < sint (Expiry demo_claims)" "1000 < sint (Expiry demo_claims)"
    by (simp_all add: demo_claims_def)
  then have "check_claims rota_lib v 1000000000000 demo_body = Inr demo_claims"
    using that by (simp add: check_claims_def demo_decode demo_parsed)
  moreover have "verifyRSASignature rota_lib demo_key bs [3] = None" for bs
    by (simp add: verifyRSASignature_def verifyRS256_def rota_lib_def demo_lib_def)
  ultimately show ?thesis by (simp add: verify_signed_def rota_token_def demo_decode)
qed

lemma rota_accepts:
  "vreach rota_lib ''idp'' [] []
     [(0, Arrived demo_jwt), (0, CacheMiss), (0, KeysFetched rota_keys),
      (0, KeysInstalled rota_keys 20), (0, RereadHit), (0, Checked 1000000000000)]
     (rota_sys (install_keys rota_keys 20 rota_new) 0
        [(0, Verdict (Inr demo_claims)), (0, Checking rota_token demo_key), (0, Rereading rota_token),
         (0, Installing rota_token rota_keys), (0, Fetching rota_token), (0, Looking rota_token)])"
proof -
  have "vreach rota_lib ''idp'' [] [] [] (rota_sys rota_new 0 [])"
    using vreach.vstart [of rota_lib "''idp''" "[]" "[]" 0] by (simp add: rota_sys_def)
  note r1 = rota_arrives [OF this, of 0, simplified]
  note r2 = rota_moves [where r = 0, OF r1 _ verify_step.miss [where p = rota_token, OF rota_miss], simplified]
  note r3 = rota_moves [where r = 0, OF r2 _ rota_old, simplified]
  note r4 = rota_moves [where r = 0, OF r3 _ verify_step.install [where now = 20], simplified]
  have "reread_key (install_keys rota_keys 20 rota_new) (pt_kid rota_token) = Inr demo_key"
    by (simp add: reread_key_def rota_keys_def rota_token_def)
  note r5 = rota_moves [where r = 0, OF r4 _ verify_step.reread_hit [OF this], simplified]
  note r6 = rota_moves [where r = 0, OF r5 _ verify_step.check [where now = 1000000000000], simplified]
  then show ?thesis by (simp add: rota_checked NewVerifier_def)
qed

theorem concurrent_accept_sound_witness:
  "\<exists>doc kid. served rota_lib ''idp'' doc \<and> jwks_keys doc kid \<noteq> None"
proof -
  have "vs_live (rota_sys (install_keys rota_keys 20 rota_new) 0
        [(0, Verdict (Inr demo_claims)), (0, Checking rota_token demo_key), (0, Rereading rota_token),
         (0, Installing rota_token rota_keys), (0, Fetching rota_token), (0, Looking rota_token)]) 0 =
      Some (Verdict (Inr demo_claims))"
    by (simp add: rota_sys_def)
  from concurrent_accept_sound [OF rota_accepts this] show ?thesis by blast
qed

theorem every_verification_ends_witness:
  "\<exists>e v w h. verify_step rota_lib (install_keys rota_keys 20 rota_new) 2 (Rereading rota_token) e v w h"
proof -
  from every_verification_ends [OF rota_race, of 0 "Rereading rota_token"] show ?thesis
    by (auto simp: rota_sys_def)
qed

end
