(* ===== verification/Push_Registry.thy ===== *)
theory Push_Registry
  imports Relay_Prelude
begin

text \<open>
  The device-token registry (\<open>internal/push/registry.go\<close>) and the vocabulary of the package
  \<open>push\<close> it stores (\<open>Priority\<close>, \<open>Platform\<close> and \<open>Token\<close> of \<open>internal/push/push.go\<close>).
  The interface \<open>TokenRegistry\<close> is the locale \<open>token_registry\<close>, interpreted on \<open>Memory\<close>.
\<close>

section \<open>Data\<close>

datatype priority = PriorityNormal | PriorityHigh

datatype platform = PlatformiOS | PlatformAndroid | PlatformWebPush

text \<open>The integer an \<open>iota\<close> constant stands for, which is how \<open>%v\<close> prints it.\<close>

fun platform_int :: "platform \<Rightarrow> int" where
  "platform_int PlatformiOS = 0"
| "platform_int PlatformAndroid = 1"
| "platform_int PlatformWebPush = 2"

lemma platform_int_inj: "platform_int p = platform_int q \<longleftrightarrow> p = q"
  by (cases p; cases q) auto

text \<open>Platforms are ordered as the integers they are.\<close>

instantiation platform :: linorder
begin

definition less_eq_platform :: "platform \<Rightarrow> platform \<Rightarrow> bool" where
  "less_eq_platform p q \<longleftrightarrow> platform_int p \<le> platform_int q"

definition less_platform :: "platform \<Rightarrow> platform \<Rightarrow> bool" where
  "less_platform p q \<longleftrightarrow> platform_int p < platform_int q"

instance
  by standard (auto simp: less_eq_platform_def less_platform_def platform_int_inj)

end

record token =
  t_Platform :: platform
  t_Value :: string
  t_BundleID :: string

record registration =
  r_UserID :: string
  r_DeviceID :: string
  r_Token :: token
  r_UpdatedAt :: time
  r_LastFailureAt :: time

record push_memory =
  regs :: "string \<rightharpoonup> registration"

definition NewPushMemory :: push_memory where
  "NewPushMemory = \<lparr>regs = Map.empty\<rparr>"

section \<open>Operations\<close>

text \<open>None of them can fail: the error result of the interface is always nil.\<close>

definition Upsert :: "push_memory \<Rightarrow> registration \<Rightarrow> time \<Rightarrow> push_memory" where
  "Upsert m r now = m\<lparr>regs := (regs m)(r_DeviceID r \<mapsto> r\<lparr>r_UpdatedAt := now\<rparr>)\<rparr>"

text \<open>\<open>ks\<close> is the order in which the loop over the map meets the devices.\<close>

definition ListTokens :: "push_memory \<Rightarrow> string list \<Rightarrow> string \<Rightarrow> registration list" where
  "ListTokens m ks userID =
     concat (map (\<lambda>k. case regs m k of
               None \<Rightarrow> []
             | Some r \<Rightarrow> if r_UserID r = userID then [r] else []) ks)"

definition MarkFailure :: "push_memory \<Rightarrow> string \<Rightarrow> time \<Rightarrow> push_memory" where
  "MarkFailure m deviceID now =
     (case regs m deviceID of
        None \<Rightarrow> m
      | Some r \<Rightarrow> m\<lparr>regs := (regs m)(deviceID \<mapsto> r\<lparr>r_LastFailureAt := now\<rparr>)\<rparr>)"

definition DeleteToken :: "push_memory \<Rightarrow> string \<Rightarrow> push_memory" where
  "DeleteToken m deviceID = m\<lparr>regs := (regs m)(deviceID := None)\<rparr>"

section \<open>Well-formed registries\<close>

text \<open>Finitely many devices, each stored under its own ID.\<close>

definition push_inv :: "push_memory \<Rightarrow> bool" where
  "push_inv m \<longleftrightarrow> finite (dom (regs m)) \<and> (\<forall>d r. regs m d = Some r \<longrightarrow> r_DeviceID r = d)"

lemma push_inv_New [relay_inv]: "push_inv NewPushMemory"
  by (simp add: push_inv_def NewPushMemory_def)

lemma push_inv_Upsert [relay_inv]: "push_inv m \<Longrightarrow> push_inv (Upsert m r now)"
  by (auto simp: push_inv_def Upsert_def)

lemma push_inv_MarkFailure [relay_inv]: "push_inv m \<Longrightarrow> push_inv (MarkFailure m d now)"
  by (auto simp: push_inv_def MarkFailure_def split: option.splits)

lemma push_inv_Delete [relay_inv]: "push_inv m \<Longrightarrow> push_inv (DeleteToken m d)"
  by (auto simp: push_inv_def DeleteToken_def)

section \<open>The interface\<close>

text \<open>
  What the push handlers rely on, against a map \<open>view\<close> from devices to registrations.
\<close>

locale token_registry =
  fixes upsert :: "'s \<Rightarrow> registration \<Rightarrow> time \<Rightarrow> 's"
    and list_user :: "'s \<Rightarrow> string list \<Rightarrow> string \<Rightarrow> registration list"
    and mark :: "'s \<Rightarrow> string \<Rightarrow> time \<Rightarrow> 's"
    and del :: "'s \<Rightarrow> string \<Rightarrow> 's"
    and inv :: "'s \<Rightarrow> bool"
    and view :: "'s \<Rightarrow> string \<rightharpoonup> registration"
  assumes inv_upsert: "inv s \<Longrightarrow> inv (upsert s r now)"
    and inv_mark: "inv s \<Longrightarrow> inv (mark s d now)"
    and inv_del: "inv s \<Longrightarrow> inv (del s d)"
    and view_id: "inv s \<Longrightarrow> view s d = Some r \<Longrightarrow> r_DeviceID r = d"
    and view_upsert: "view (upsert s r now) = (view s)(r_DeviceID r \<mapsto> r\<lparr>r_UpdatedAt := now\<rparr>)"
    and view_mark: "view (mark s d now) =
      (case view s d of None \<Rightarrow> view s | Some r \<Rightarrow> (view s)(d \<mapsto> r\<lparr>r_LastFailureAt := now\<rparr>))"
    and view_del: "view (del s d) = (view s)(d := None)"
    and list_view: "list_user s ks u =
      filter (\<lambda>r. r_UserID r = u) (concat (map (\<lambda>k. case view s k of None \<Rightarrow> [] | Some r \<Rightarrow> [r]) ks))"
begin

lemma list_set:
  assumes "enumerates ks (view s)"
  shows "set (list_user s ks u) = {r. \<exists>d. view s d = Some r \<and> r_UserID r = u}"
  using enumerates_set [OF assms] by (auto simp: list_view split: option.splits) force

lemma list_devices:
  assumes "inv s" and "enumerates ks (view s)"
  shows "map r_DeviceID (list_user s ks u) =
    filter (\<lambda>d. \<exists>r. view s d = Some r \<and> r_UserID r = u) ks"
proof -
  have "set ks \<subseteq> dom (view s)" using assms(2) by (simp add: enumerates_def)
  then show ?thesis
    by (induction ks) (auto simp: list_view view_id [OF assms(1)])
qed

lemma list_distinct_devices:
  "inv s \<Longrightarrow> enumerates ks (view s) \<Longrightarrow> distinct (map r_DeviceID (list_user s ks u))"
  by (simp add: list_devices enumerates_distinct)

text \<open>A registration is listed for its user, and the device for nobody else.\<close>

lemma upsert_then_list:
  assumes "enumerates ks (view (upsert s r now))"
  shows "r\<lparr>r_UpdatedAt := now\<rparr> \<in> set (list_user (upsert s r now) ks (r_UserID r))"
    and "inv s \<Longrightarrow> u \<noteq> r_UserID r \<Longrightarrow>
      r_DeviceID r \<notin> r_DeviceID ` set (list_user (upsert s r now) ks u)"
proof -
  show "r\<lparr>r_UpdatedAt := now\<rparr> \<in> set (list_user (upsert s r now) ks (r_UserID r))"
    unfolding list_set [OF assms] by (auto simp: view_upsert)
  assume "inv s" and u: "u \<noteq> r_UserID r"
  show "r_DeviceID r \<notin> r_DeviceID ` set (list_user (upsert s r now) ks u)"
  proof
    assume "r_DeviceID r \<in> r_DeviceID ` set (list_user (upsert s r now) ks u)"
    then obtain x d where x: "r_DeviceID x = r_DeviceID r" "r_UserID x = u"
      and d: "view (upsert s r now) d = Some x"
      unfolding list_set [OF assms] by auto
    from view_id [OF inv_upsert [OF \<open>inv s\<close>] d] x(1) have "d = r_DeviceID r" by simp
    with d x(2) u show False by (auto simp: view_upsert)
  qed
qed

lemma del_then_list:
  assumes "inv s" and "enumerates ks (view (del s d))"
  shows "d \<notin> r_DeviceID ` set (list_user (del s d) ks u)"
proof
  assume "d \<in> r_DeviceID ` set (list_user (del s d) ks u)"
  then obtain x e where "r_DeviceID x = d" "view (del s d) e = Some x"
    unfolding list_set [OF assms(2)] by auto
  with view_id [OF inv_del [OF assms(1)]] show False by (auto simp: view_del split: if_splits)
qed

lemma mark_keeps_owner:
  "map_option r_UserID (view (mark s d now) e) = map_option r_UserID (view s e) \<and>
   map_option r_Token (view (mark s d now) e) = map_option r_Token (view s e)"
  by (auto simp: view_mark split: option.splits)

lemma dom_mark: "dom (view (mark s d now)) = dom (view s)"
  by (auto simp: view_mark split: option.splits)


end

lemma ListTokens_view:
  "ListTokens m ks u =
     filter (\<lambda>r. r_UserID r = u) (concat (map (\<lambda>k. case regs m k of None \<Rightarrow> [] | Some r \<Rightarrow> [r]) ks))"
  by (induction ks) (auto simp: ListTokens_def split: option.splits)

interpretation tokens: token_registry Upsert ListTokens MarkFailure DeleteToken push_inv regs
  by unfold_locales
    (auto simp: relay_inv ListTokens_view, auto simp: push_inv_def Upsert_def MarkFailure_def
      DeleteToken_def split: option.splits)

end
