(* ===== verification/Push_Dispatch.thy ===== *)
theory Push_Dispatch
  imports Push_Registry
begin

text \<open>
  Push dispatch (\<open>internal/push/push.go\<close>, \<open>apns.go\<close>, \<open>fcm.go\<close>): the notification, its two
  native envelopes, the two backends, the router over them and their construction from the
  environment.

  The client libraries of the two providers are arguments: a client is a function that takes
  the envelope and the state \<open>'w\<close> of the world outside the process and returns the provider's
  answer and the new state. The file system and the parsers of keys and certificates are
  arguments likewise, collected in the record \<open>outside\<close>.
\<close>

section \<open>Notifications and errors\<close>

text \<open>\<open>TTL\<close> is a \<open>time.Duration\<close>: a 64-bit count of nanoseconds.\<close>

record notification =
  n_Title :: string
  n_Body :: string
  n_Sound :: string
  n_Priority :: priority
  n_SessionUUID :: string
  n_CollapseKey :: string
  n_TTL :: int64

datatype push_error =
    ErrBackendDisabled
  | ErrNoDispatcher platform \<comment> \<open>wraps \<open>ErrBackendDisabled\<close>\<close>
  | ErrBundleID
  | ErrApnsRejected int string
  | ErrApnsClient string
  | ErrContext string
  | ErrFcmSend string

text \<open>\<open>errors.Is(err, ErrBackendDisabled)\<close>\<close>

fun is_disabled :: "push_error \<Rightarrow> bool" where
  "is_disabled ErrBackendDisabled = True"
| "is_disabled (ErrNoDispatcher _) = True"
| "is_disabled _ = False"

fun push_error_text :: "push_error \<Rightarrow> string" where
  "push_error_text ErrBackendDisabled = ''push: backend disabled''"
| "push_error_text (ErrNoDispatcher p) =
     ''push: no dispatcher for platform '' @ show_int (platform_int p) @ '': push: backend disabled''"
| "push_error_text ErrBundleID = ''apns: bundle id required''"
| "push_error_text (ErrApnsRejected st reason) =
     ''apns: rejected status='' @ show_int st @ '' reason='' @ reason"
| "push_error_text (ErrApnsClient e) = e"
| "push_error_text (ErrContext e) = e"
| "push_error_text (ErrFcmSend e) = ''fcm: send: '' @ e"

text \<open>
  The context of a send: the context's error if it ends before the provider has answered, and
  the clock. A send leaves the world after it, the lines logged, and its error if any.
\<close>

record send_ctx =
  ctx_done :: "string option"
  ctx_now :: time

type_synonym 'w sender = "send_ctx \<Rightarrow> token \<Rightarrow> notification \<Rightarrow> 'w \<Rightarrow> 'w \<times> string list \<times> push_error option"

record 'w dispatcher =
  d_Kind :: string
  d_Send :: "'w sender"

section \<open>APNs\<close>

text \<open>The calls made on a fresh payload of the client library, in order.\<close>

datatype payload_call = AlertTitle string | AlertBody string | Custom string string | PayloadSound string

datatype apns_priority = ApnsPriorityHigh | ApnsPriorityLow

record apns_notification =
  an_DeviceToken :: string
  an_Topic :: string
  an_Payload :: "payload_call list"
  an_CollapseID :: string
  an_Expiration :: "time option"
  an_Priority :: apns_priority

record apns_result =
  ar_Sent :: bool
  ar_StatusCode :: int
  ar_Reason :: string

type_synonym 'w apns_client = "apns_notification \<Rightarrow> 'w \<Rightarrow> 'w \<times> (string + apns_result)"

definition apns_envelope :: "time \<Rightarrow> token \<Rightarrow> notification \<Rightarrow> apns_notification" where
  "apns_envelope now tok n =
     \<lparr>an_DeviceToken = t_Value tok, an_Topic = t_BundleID tok,
      an_Payload = [AlertTitle (n_Title n), AlertBody (n_Body n),
          Custom ''session_uuid'' (n_SessionUUID n)] @
        (if n_Sound n \<noteq> [] then [PayloadSound (n_Sound n)] else []),
      an_CollapseID = n_CollapseKey n,
      an_Expiration = (if 0 <s n_TTL n then Some (now + sint (n_TTL n)) else None),
      an_Priority = (case n_Priority n of PriorityHigh \<Rightarrow> ApnsPriorityHigh | _ \<Rightarrow> ApnsPriorityLow)\<rparr>"

text \<open>
  When the context ends first, the final \<open>select\<close> returns its error; the goroutine has pushed
  the notification all the same.
\<close>

definition apns_Send ::
    "'w apns_client \<Rightarrow> 'w sender" where
  "apns_Send client ctx tok n w =
     (if t_BundleID tok = [] then (w, [], Some ErrBundleID)
      else
        let (w', res) = client (apns_envelope (ctx_now ctx) tok n) w;
            outcome = (case res of
              Inl e \<Rightarrow> Some (ErrApnsClient e)
            | Inr r \<Rightarrow> if \<not> ar_Sent r then Some (ErrApnsRejected (ar_StatusCode r) (ar_Reason r)) else None)
        in (w', [], case ctx_done ctx of Some e \<Rightarrow> Some (ErrContext e) | None \<Rightarrow> outcome))"

section \<open>FCM\<close>

record fcm_android =
  fa_Priority :: string
  fa_CollapseKey :: string
  fa_TTL :: "int64 option"
  fa_Sound :: string

record fcm_webpush =
  fw_Headers :: "(string \<times> string) list"
  fw_Title :: string
  fw_Body :: string

record fcm_message =
  fm_Token :: string
  fm_Title :: string
  fm_Body :: string
  fm_Data :: "(string \<times> string) list"
  fm_Android :: "fcm_android option"
  fm_Webpush :: "fcm_webpush option"

type_synonym 'w fcm_client = "fcm_message \<Rightarrow> 'w \<Rightarrow> 'w \<times> (string + string)"

definition androidPriority :: "priority \<Rightarrow> string" where
  "androidPriority p = (if p = PriorityHigh then ''high'' else ''normal'')"

definition webpushUrgency :: "priority \<Rightarrow> string" where
  "webpushUrgency p = (if p = PriorityHigh then ''high'' else ''normal'')"

text \<open>The three bytes in the middle are the UTF-8 encoding of the ellipsis.\<close>

definition redactToken :: "string \<Rightarrow> string" where
  "redactToken t =
     (if length t < 8 then ''***''
      else take 4 t @ map char_of [226, 128, 166 :: nat] @ drop (length t - 4) t)"

definition fcm_envelope :: "token \<Rightarrow> notification \<Rightarrow> fcm_message" where
  "fcm_envelope tok n =
     (let msg = \<lparr>fm_Token = t_Value tok, fm_Title = n_Title n, fm_Body = n_Body n,
            fm_Data = [(''session_uuid'', n_SessionUUID n)],
            fm_Android = Some \<lparr>fa_Priority = androidPriority (n_Priority n),
              fa_CollapseKey = n_CollapseKey n, fa_TTL = Some (n_TTL n), fa_Sound = n_Sound n\<rparr>,
            fm_Webpush = None\<rparr>
      in if t_Platform tok = PlatformWebPush then
           msg\<lparr>fm_Android := None,
               fm_Webpush := Some \<lparr>fw_Headers = [(''Urgency'', webpushUrgency (n_Priority n))],
                 fw_Title = n_Title n, fw_Body = n_Body n\<rparr>\<rparr>
         else msg)"

definition fcm_Send :: "'w fcm_client \<Rightarrow> 'w sender" where
  "fcm_Send client ctx tok n w =
     (case client (fcm_envelope tok n) w of
        (w', Inl e) \<Rightarrow> (w', [], Some (ErrFcmSend e))
      | (w', Inr msg_id) \<Rightarrow>
          (w', [''push fcm: sent '' @ msg_id @ '' to '' @ redactToken (t_Value tok)], None))"

section \<open>The router\<close>

record 'w multi =
  byPlatform :: "platform \<rightharpoonup> 'w dispatcher"

definition add_backend :: "'w dispatcher \<Rightarrow> 'w multi \<Rightarrow> 'w multi" where
  "add_backend b m =
     (if d_Kind b = ''apns'' then m\<lparr>byPlatform := (byPlatform m)(PlatformiOS \<mapsto> b)\<rparr>
      else if d_Kind b = ''fcm'' then
        m\<lparr>byPlatform := (byPlatform m)(PlatformAndroid \<mapsto> b, PlatformWebPush \<mapsto> b)\<rparr>
      else m)"

definition NewMulti :: "'w dispatcher list \<Rightarrow> 'w multi" where
  "NewMulti backends = fold add_backend backends \<lparr>byPlatform = Map.empty\<rparr>"

definition multi_Send :: "'w multi \<Rightarrow> 'w sender" where
  "multi_Send m ctx tok n w =
     (case byPlatform m (t_Platform tok) of
        None \<Rightarrow> (w, [], Some (ErrNoDispatcher (t_Platform tok)))
      | Some d \<Rightarrow> d_Send d ctx tok n w)"

definition multi_dispatcher :: "'w multi \<Rightarrow> 'w dispatcher" where
  "multi_dispatcher m = \<lparr>d_Kind = ''multi'', d_Send = multi_Send m\<rparr>"

section \<open>From the environment\<close>

text \<open>\<open>os.Getenv\<close> returns the empty string for an unset variable.\<close>

type_synonym environment = "string \<Rightarrow> string"

definition envDefault :: "environment \<Rightarrow> string \<Rightarrow> string \<Rightarrow> string" where
  "envDefault env k def = (if env k \<noteq> [] then env k else def)"

text \<open>\<open>strconv.ParseBool\<close>; the caller drops the error, which leaves false.\<close>

definition parse_bool :: "string \<Rightarrow> bool option" where
  "parse_bool s =
     (if s \<in> {''1'', ''t'', ''T'', ''TRUE'', ''true'', ''True''} then Some True
      else if s \<in> {''0'', ''f'', ''F'', ''FALSE'', ''false'', ''False''} then Some False
      else None)"

text \<open>
  Files, the parsers of \<open>encoding/pem\<close>, \<open>crypto/x509\<close> and \<open>crypto/tls\<close> (\<open>'k\<close> is the type of
  parsed private keys, \<open>'c\<close> of certificates, \<open>'a\<close> of Firebase apps), and the start of the Firebase client.
\<close>

record ('k, 'c, 'a, 'w) outside =
  ReadFile :: "string \<Rightarrow> string + bytes"
  pem_Decode :: "bytes \<Rightarrow> bytes option"
  ParsePKCS8PrivateKey :: "bytes \<Rightarrow> string + 'k"
  is_ecdsa :: "'k \<Rightarrow> bool"
  X509KeyPair :: "bytes \<Rightarrow> bytes \<Rightarrow> string + 'c"
  firebase_NewApp :: "string \<Rightarrow> string + 'a"
  app_Messaging :: "'a \<Rightarrow> string + 'w fcm_client"

text \<open>The configured APNs client: its credentials and the gateway.\<close>

datatype ('k, 'c) apns_auth = TokenAuth (auth_key: 'k) (auth_keyID: string) (auth_teamID: string) | CertAuth 'c

record ('k, 'c) apns_config =
  ac_auth :: "('k, 'c) apns_auth"
  ac_production :: bool

definition newAPNsFromEnv ::
    "environment \<Rightarrow> ('k, 'c, 'a, 'w) outside \<Rightarrow> ('k, 'c) apns_config option" where
  "newAPNsFromEnv env out =
     (let production = (case parse_bool (envDefault env ''CHEPHERD_RELAY_APNS_PRODUCTION'' ''false'') of
            None \<Rightarrow> False | Some b \<Rightarrow> b);
          teamID = env ''CHEPHERD_RELAY_APNS_TEAM_ID'';
          keyID = env ''CHEPHERD_RELAY_APNS_KEY_ID'';
          keyPath = env ''CHEPHERD_RELAY_APNS_KEY_PATH''
      in if teamID \<noteq> [] \<and> keyID \<noteq> [] \<and> keyPath \<noteq> [] then
           (case ReadFile out keyPath of
              Inl _ \<Rightarrow> None
            | Inr raw \<Rightarrow>
                (case pem_Decode out raw of
                   None \<Rightarrow> None
                 | Some block \<Rightarrow>
                     (case ParsePKCS8PrivateKey out block of
                        Inl _ \<Rightarrow> None
                      | Inr k \<Rightarrow>
                          if \<not> is_ecdsa out k then None
                          else Some \<lparr>ac_auth = TokenAuth k keyID teamID, ac_production = production\<rparr>)))
         else
           let certPath = env ''CHEPHERD_RELAY_APNS_CERT_PATH'' in
           if certPath \<noteq> [] then
             (case ReadFile out certPath of
                Inl _ \<Rightarrow> None
              | Inr raw \<Rightarrow>
                  (case X509KeyPair out raw raw of
                     Inl _ \<Rightarrow> None
                   | Inr cert \<Rightarrow> Some \<lparr>ac_auth = CertAuth cert, ac_production = production\<rparr>))
           else None)"

definition newFCMFromEnv :: "environment \<Rightarrow> ('k, 'c, 'a, 'w) outside \<Rightarrow> 'w fcm_client option" where
  "newFCMFromEnv env out =
     (let credPath = env ''CHEPHERD_RELAY_FCM_CRED_PATH'' in
      if credPath = [] then None
      else case firebase_NewApp out credPath of
        Inl _ \<Rightarrow> None
      | Inr app \<Rightarrow> (case app_Messaging out app of Inl _ \<Rightarrow> None | Inr c \<Rightarrow> Some c))"

text \<open>\<open>apns\<close> is the client library's constructor: credentials and gateway to client.\<close>

definition push_FromEnv ::
    "environment \<Rightarrow> ('k, 'c, 'a, 'w) outside \<Rightarrow> (('k, 'c) apns_config \<Rightarrow> 'w apns_client) \<Rightarrow> 'w multi" where
  "push_FromEnv env out apns =
     NewMulti
       ((case newAPNsFromEnv env out of
           None \<Rightarrow> []
         | Some cfg \<Rightarrow> [\<lparr>d_Kind = ''apns'', d_Send = apns_Send (apns cfg)\<rparr>]) @
        (case newFCMFromEnv env out of
           None \<Rightarrow> []
         | Some c \<Rightarrow> [\<lparr>d_Kind = ''fcm'', d_Send = fcm_Send c\<rparr>]))"

section \<open>The contract of a dispatcher\<close>

text \<open>
  What the relay relies on when it sends through the interface \<open>Dispatcher\<close>: a disabled backend
  reaches nobody, a send that fails logs nothing, and a log line shows the token redacted only.
\<close>

locale push_sender =
  fixes send :: "'w sender"
  assumes disabled_untouched: "send ctx tok n w = (w', ls, Some err) \<Longrightarrow> is_disabled err \<Longrightarrow> w' = w"
    and error_silent: "send ctx tok n w = (w', ls, Some err) \<Longrightarrow> ls = []"
    and log_redacted: "send ctx tok n w = (w', ls, res) \<Longrightarrow> l \<in> set ls \<Longrightarrow>
      \<exists>before. l = before @ redactToken (t_Value tok)"

interpretation apns: push_sender "apns_Send client" for client
  by unfold_locales
    (auto simp: apns_Send_def Let_def split: if_splits prod.splits option.splits sum.splits)

interpretation fcm: push_sender "fcm_Send client" for client
  by unfold_locales (force simp: fcm_Send_def split: prod.splits sum.splits)+

lemma multi_push_sender:
  assumes "\<And>p d. byPlatform m p = Some d \<Longrightarrow> push_sender (d_Send d)"
  shows "push_sender (multi_Send m)"
proof
  fix ctx tok n w w' ls err
  assume "multi_Send m ctx tok n w = (w', ls, Some err)" and "is_disabled err"
  then show "w' = w"
    using push_sender.disabled_untouched [OF assms] by (auto simp: multi_Send_def split: option.splits)
next
  fix ctx tok n w w' ls err
  assume "multi_Send m ctx tok n w = (w', ls, Some err)"
  then show "ls = []"
    using push_sender.error_silent [OF assms] by (auto simp: multi_Send_def split: option.splits)
next
  fix ctx tok n w w' ls res l
  assume "multi_Send m ctx tok n w = (w', ls, res)" and "l \<in> set ls"
  then show "\<exists>before. l = before @ redactToken (t_Value tok)"
    using push_sender.log_redacted [OF assms] by (auto simp: multi_Send_def split: option.splits)
qed

section \<open>Routing\<close>

text \<open>The kind of backend that serves a platform.\<close>

definition kind_of :: "platform \<Rightarrow> string" where
  "kind_of p = (if p = PlatformiOS then ''apns'' else ''fcm'')"

lemma kind_of_neq: "kind_of PlatformiOS = ''apns''" "kind_of PlatformAndroid = ''fcm''"
  "kind_of PlatformWebPush = ''fcm''"
  by (simp_all add: kind_of_def)

lemma add_backend_kind:
  "byPlatform (add_backend b m) p = (if d_Kind b = kind_of p then Some b else byPlatform m p)"
proof -
  consider "d_Kind b = ''apns''" | "d_Kind b = ''fcm''" | "d_Kind b \<noteq> ''apns''" "d_Kind b \<noteq> ''fcm''"
    by blast
  then show ?thesis
  proof cases
    case 1
    then show ?thesis by (cases p) (simp_all add: add_backend_def kind_of_neq)
  next
    case 2
    then show ?thesis by (cases p) (simp_all add: add_backend_def kind_of_neq)
  next
    case 3
    then show ?thesis by (cases p) (simp_all add: add_backend_def kind_of_neq)
  qed
qed

lemma fold_add_backend:
  "byPlatform (fold add_backend bs m) p =
     (case find (\<lambda>b. d_Kind b = kind_of p) (rev bs) of None \<Rightarrow> byPlatform m p | Some b \<Rightarrow> Some b)"
proof (induction bs arbitrary: m)
  case (Cons b bs)
  have "find P (xs @ [x]) = (case find P xs of None \<Rightarrow> if P x then Some x else None | Some y \<Rightarrow> Some y)"
    for P and xs :: "'a dispatcher list" and x by (induction xs) auto
  then show ?case by (auto simp: Cons add_backend_kind split: option.splits)
qed simp

text \<open>
  The router serves a platform by the last backend of the kind the platform needs: \<open>apns\<close> for
  iOS, \<open>fcm\<close> for Android and web push; a backend of any other kind, a router included, is
  never used.
\<close>

theorem NewMulti_routes:
  "byPlatform (NewMulti bs) p = find (\<lambda>b. d_Kind b = kind_of p) (rev bs)"
  by (simp add: NewMulti_def fold_add_backend split: option.split)

text \<open>The router that the relay builds from its environment keeps the contract.\<close>

lemma FromEnv_push_sender: "push_sender (multi_Send (push_FromEnv env out apns_lib))"
proof (rule multi_push_sender)
  fix p d
  assume "byPlatform (push_FromEnv env out apns_lib) p = Some d"
  then have "(\<exists>c. d_Send d = apns_Send c) \<or> (\<exists>c. d_Send d = fcm_Send c)"
    by (auto simp: push_FromEnv_def NewMulti_def fold_add_backend split: option.splits if_splits)
  then show "push_sender (d_Send d)" using apns.push_sender_axioms fcm.push_sender_axioms by auto
qed

interpretation env: push_sender "multi_Send (push_FromEnv env out apns_lib)" for env out apns_lib
  by (rule FromEnv_push_sender)

text \<open>
  A send to a platform without a backend reaches no provider and logs nothing; it returns an
  error that is \<open>ErrBackendDisabled\<close> to a caller who asks with \<open>errors.Is\<close>, and conversely the
  router itself returns that error only then.
\<close>

theorem multi_Send_disabled:
  "multi_Send (NewMulti bs) ctx tok n w =
     (if kind_of (t_Platform tok) \<notin> d_Kind ` set bs
      then (w, [], Some (ErrNoDispatcher (t_Platform tok)))
      else d_Send (the (find (\<lambda>b. d_Kind b = kind_of (t_Platform tok)) (rev bs))) ctx tok n w)"
proof (cases "find (\<lambda>b. d_Kind b = kind_of (t_Platform tok)) (rev bs)")
  case None
  then have "kind_of (t_Platform tok) \<notin> d_Kind ` set bs" by (auto simp: find_None_iff)
  with None show ?thesis by (simp add: multi_Send_def fold_add_backend NewMulti_def)
next
  case (Some b)
  then have "b \<in> set (rev bs)" "d_Kind b = kind_of (t_Platform tok)"
    by (auto simp: find_Some_iff simp del: set_rev)
  then have "kind_of (t_Platform tok) \<in> d_Kind ` set bs" by force
  with Some show ?thesis by (simp add: multi_Send_def fold_add_backend NewMulti_def)
qed

section \<open>What a log line shows of a token\<close>

lemma redactToken_long:
  "8 \<le> length t \<Longrightarrow> redactToken t = take 4 t @ map char_of [226, 128, 166 :: nat] @ drop (length t - 4) t"
  by (simp add: redactToken_def)

lemma redactToken_short: "length t < 8 \<Longrightarrow> redactToken t = ''***''"
  by (simp add: redactToken_def)

text \<open>
  The log line shows exactly the first and the last four characters of a token of at least
  eight, and nothing of a shorter one: two tokens look alike in the log in these cases and no
  other (so a token of exactly eight characters is shown in full).
\<close>

theorem redactToken_shows:
  "redactToken t = redactToken u \<longleftrightarrow>
     length t < 8 \<and> length u < 8 \<or>
     8 \<le> length t \<and> 8 \<le> length u \<and> take 4 t = take 4 u \<and>
     drop (length t - 4) t = drop (length u - 4) u"
proof -
  have len: "length (redactToken x) = (if length x < 8 then 3 else 11)" for x
    by (simp add: redactToken_def)
  consider "length t < 8" "length u < 8" | "8 \<le> length t" "8 \<le> length u"
    | "(length t < 8) \<noteq> (length u < 8)" by linarith
  then show ?thesis
  proof cases
    case 1
    then show ?thesis by (simp add: redactToken_short)
  next
    case 2
    then show ?thesis by (simp add: redactToken_long append_eq_append_conv)
  next
    case 3
    then have "length (redactToken t) \<noteq> length (redactToken u)" by (auto simp: len)
    then have "redactToken t \<noteq> redactToken u" by auto
    with 3 show ?thesis by auto
  qed
qed

section \<open>The environment\<close>

text \<open>
  With the three credential paths unset there is no backend: every send, whatever the
  platform, fails with the disabled error and touches no provider.
\<close>

theorem push_unconfigured:
  assumes "env ''CHEPHERD_RELAY_APNS_KEY_PATH'' = []" and "env ''CHEPHERD_RELAY_APNS_CERT_PATH'' = []"
    and "env ''CHEPHERD_RELAY_FCM_CRED_PATH'' = []"
  shows "multi_Send (push_FromEnv env out apns) ctx tok n w =
    (w, [], Some (ErrNoDispatcher (t_Platform tok)))"
proof -
  have "push_FromEnv env out apns = NewMulti []"
    using assms by (simp add: push_FromEnv_def newAPNsFromEnv_def newFCMFromEnv_def)
  then show ?thesis by (simp add: multi_Send_def NewMulti_def)
qed

definition no_outside :: "(nat, nat, nat, 'w) outside" where
  "no_outside =
     \<lparr>ReadFile = (\<lambda>p. if p = ''cert.pem'' then Inr [1] else Inl ''no such file''),
      pem_Decode = (\<lambda>bs. Some bs), ParsePKCS8PrivateKey = (\<lambda>bs. Inr 0), is_ecdsa = (\<lambda>_. True),
      X509KeyPair = (\<lambda>a b. Inr 0), firebase_NewApp = (\<lambda>p. Inl ''no credentials''),
      app_Messaging = (\<lambda>a. Inl ''none'')\<rparr>"

definition all_sent :: "(nat, nat) apns_config \<Rightarrow> unit apns_client" where
  "all_sent cfg n w = (w, Inr \<lparr>ar_Sent = True, ar_StatusCode = 200, ar_Reason = []\<rparr>)"

definition demo_token :: token where
  "demo_token = \<lparr>t_Platform = PlatformiOS, t_Value = ''0123456789'', t_BundleID = ''app''\<rparr>"

definition demo_notification :: notification where
  "demo_notification = \<lparr>n_Title = ''t'', n_Body = ''b'', n_Sound = [], n_Priority = PriorityHigh,
     n_SessionUUID = ''s'', n_CollapseKey = [], n_TTL = 0\<rparr>"

definition demo_ctx :: send_ctx where
  "demo_ctx = \<lparr>ctx_done = None, ctx_now = 0\<rparr>"

theorem push_unconfigured_witness:
  "multi_Send (push_FromEnv (\<lambda>_. []) no_outside all_sent) demo_ctx demo_token demo_notification () =
     ((), [], Some (ErrNoDispatcher PlatformiOS))"
  using push_unconfigured [of "\<lambda>_. []" no_outside all_sent demo_ctx demo_token demo_notification "()"]
  by (simp add: demo_token_def)

lemma FromEnv_ios:
  "byPlatform (push_FromEnv env out apns) PlatformiOS =
     map_option (\<lambda>cfg. \<lparr>d_Kind = ''apns'', d_Send = apns_Send (apns cfg)\<rparr>) (newAPNsFromEnv env out)"
  by (simp add: push_FromEnv_def NewMulti_def fold_add_backend kind_of_def split: option.splits)

text \<open>
  A complete token configuration is the only one tried: when its key file cannot be read,
  iOS is disabled, although the certificate configured beside it is usable.
\<close>

theorem broken_key_hides_certificate:
  assumes "env ''CHEPHERD_RELAY_APNS_TEAM_ID'' \<noteq> []" and "env ''CHEPHERD_RELAY_APNS_KEY_ID'' \<noteq> []"
    and "env ''CHEPHERD_RELAY_APNS_KEY_PATH'' \<noteq> []"
    and "ReadFile out (env ''CHEPHERD_RELAY_APNS_KEY_PATH'') = Inl e"
    and "t_Platform tok = PlatformiOS"
  shows "multi_Send (push_FromEnv env out apns) ctx tok n w = (w, [], Some (ErrNoDispatcher PlatformiOS))"
proof -
  have "newAPNsFromEnv env out = None" using assms(1-4) by (simp add: newAPNsFromEnv_def Let_def)
  with FromEnv_ios [of env out apns] assms(5) show ?thesis by (simp add: multi_Send_def)
qed

definition half_broken_env :: environment where
  "half_broken_env k =
     (if k = ''CHEPHERD_RELAY_APNS_TEAM_ID'' then ''T'' else if k = ''CHEPHERD_RELAY_APNS_KEY_ID'' then ''K''
      else if k = ''CHEPHERD_RELAY_APNS_KEY_PATH'' then ''gone.p8''
      else if k = ''CHEPHERD_RELAY_APNS_CERT_PATH'' then ''cert.pem'' else [])"

theorem broken_key_hides_certificate_witness:
  "multi_Send (push_FromEnv half_broken_env no_outside all_sent) demo_ctx demo_token demo_notification () =
     ((), [], Some (ErrNoDispatcher PlatformiOS)) \<and>
   newAPNsFromEnv (half_broken_env(''CHEPHERD_RELAY_APNS_KEY_PATH'' := [])) no_outside \<noteq> None"
  using broken_key_hides_certificate [of half_broken_env no_outside "''no such file''" demo_token all_sent
      demo_ctx demo_notification "()"]
  by (simp add: demo_token_def half_broken_env_def no_outside_def newAPNsFromEnv_def Let_def)

end
