(* ===== verification/Obs.thy ===== *)
theory Obs
  imports Push_Dispatch Http_Model
begin

text \<open>
  Observability (\<open>internal/obs/obs.go\<close>): the configuration, the start and the stop of the two
  providers, the scrubbing of error events, and the middleware that wraps every request with a
  panic guard, a span and a status recorder.

  The Sentry and OpenTelemetry SDKs are arguments (record \<open>obs_lib\<close>) that act on the world \<open>'w\<close>
  outside the process. A handler is seen through what it does to its response writer: a list of
  calls, and the value it panics with if it does.
\<close>

section \<open>Configuration\<close>

record obs_config =
  ServiceName :: string
  ServiceVersion :: string
  Environment :: string
  SentryDSN :: string
  OTelEndpoint :: string

definition obs_envDefault :: "environment \<Rightarrow> string \<Rightarrow> string \<Rightarrow> string" where
  "obs_envDefault env k def = (if env k \<noteq> [] then env k else def)"

definition obs_FromEnv :: "environment \<Rightarrow> string \<Rightarrow> string \<Rightarrow> obs_config" where
  "obs_FromEnv env serviceName version =
     \<lparr>ServiceName = serviceName, ServiceVersion = version,
      Environment = obs_envDefault env ''CHEPHERD_RELAY_ENV'' ''dev'',
      SentryDSN = env ''CHEPHERD_RELAY_SENTRY_DSN'',
      OTelEndpoint = env ''CHEPHERD_RELAY_OTEL_ENDPOINT''\<rparr>"

section \<open>Start and stop\<close>

text \<open>Sampling rates are in hundredths.\<close>

record sentry_options =
  Dsn :: string
  Release :: string
  so_Environment :: string
  AttachStacktrace :: bool
  TracesSampleRate :: nat

record otel_resource =
  res_ServiceName :: string
  res_ServiceVersion :: string
  res_DeploymentEnvironment :: string

record ('e, 'w) obs_lib =
  sentry_Init :: "sentry_options \<Rightarrow> 'w \<Rightarrow> 'w \<times> string option"
  sentry_Flush :: "'w \<Rightarrow> 'w"
  otlp_New :: "string \<Rightarrow> 'w \<Rightarrow> 'w \<times> (string + 'e)"
  SetTracerProvider :: "'e \<Rightarrow> otel_resource \<Rightarrow> nat \<Rightarrow> 'w \<Rightarrow> 'w"
  tp_Shutdown :: "'e \<Rightarrow> int \<Rightarrow> 'w \<Rightarrow> 'w \<times> string option" \<comment> \<open>in the time given\<close>

datatype 'e shutdown = FlushSentry | ShutdownTracer 'e

definition sentry_config :: "obs_config \<Rightarrow> sentry_options" where
  "sentry_config cfg =
     \<lparr>Dsn = SentryDSN cfg, Release = ServiceName cfg @ ''@'' @ ServiceVersion cfg,
      so_Environment = Environment cfg, AttachStacktrace = True, TracesSampleRate = 5\<rparr>"

definition otel_config :: "obs_config \<Rightarrow> otel_resource" where
  "otel_config cfg =
     \<lparr>res_ServiceName = ServiceName cfg, res_ServiceVersion = ServiceVersion cfg,
      res_DeploymentEnvironment = Environment cfg\<rparr>"

definition obs_Init ::
    "('e, 'w) obs_lib \<Rightarrow> obs_config \<Rightarrow> 'w \<Rightarrow> 'w \<times> (string + 'e shutdown list)" where
  "obs_Init lib cfg w =
     (let (w1, r1) =
        (if SentryDSN cfg \<noteq> [] then
           (case sentry_Init lib (sentry_config cfg) w of
              (w', Some e) \<Rightarrow> (w', Inl (''obs: sentry init: '' @ e))
            | (w', None) \<Rightarrow> (w', Inr [FlushSentry]))
         else (w, Inr []))
      in case r1 of
        Inl e \<Rightarrow> (w1, Inl e)
      | Inr shutdowns \<Rightarrow>
          if OTelEndpoint cfg \<noteq> [] then
            (case otlp_New lib (OTelEndpoint cfg) w1 of
               (w2, Inl e) \<Rightarrow> (w2, Inl (''obs: otlp exporter: '' @ e))
             | (w2, Inr tp) \<Rightarrow>
                 (SetTracerProvider lib tp (otel_config cfg) 10 w2, Inr (shutdowns @ [ShutdownTracer tp])))
          else (w1, Inr shutdowns))"

text \<open>
  \<open>left\<close> is the time that the caller's context has left: the flush of Sentry does not look at it,
  the tracer gets three seconds of it.
\<close>

definition three_seconds :: int where
  "three_seconds = 3000000000"

definition run_shutdown :: "('e, 'w) obs_lib \<Rightarrow> int \<Rightarrow> 'e shutdown \<Rightarrow> 'w \<Rightarrow> 'w \<times> string option" where
  "run_shutdown lib left s w =
     (case s of
        FlushSentry \<Rightarrow> (sentry_Flush lib w, None)
      | ShutdownTracer tp \<Rightarrow> tp_Shutdown lib tp (min left three_seconds) w)"

text \<open>\<open>errors.Join\<close>: nil without errors, else their texts on lines of their own.\<close>

fun join_errors :: "string list \<Rightarrow> string option" where
  "join_errors [] = None"
| "join_errors [e] = Some e"
| "join_errors (e # es) = (case join_errors es of None \<Rightarrow> Some e | Some t \<Rightarrow> Some (e @ [char_of (10 :: nat)] @ t))"

text \<open>The loop, with the time left at each call.\<close>

fun shutdown_loop :: "('e, 'w) obs_lib \<Rightarrow> (nat \<Rightarrow> int) \<Rightarrow> 'e shutdown list \<Rightarrow> 'w \<Rightarrow> 'w \<times> string list" where
  "shutdown_loop lib left [] w = (w, [])"
| "shutdown_loop lib left (s # ss) w =
     (let (w1, e) = run_shutdown lib (left 0) s w; (w2, es) = shutdown_loop lib (\<lambda>n. left (Suc n)) ss w1
      in (w2, (case e of None \<Rightarrow> es | Some t \<Rightarrow> t # es)))"

definition obs_Shutdown ::
    "('e, 'w) obs_lib \<Rightarrow> (nat \<Rightarrow> int) \<Rightarrow> 'e shutdown list \<Rightarrow> 'w \<Rightarrow> 'w \<times> string option" where
  "obs_Shutdown lib left ss w = (case shutdown_loop lib left ss w of (w', es) \<Rightarrow> (w', join_errors es))"

section \<open>Error events\<close>

record sentry_event =
  ev_Request :: "(string \<rightharpoonup> string) option" \<comment> \<open>the headers of the attached request\<close>
  ev_Tags :: "(string \<times> string) list"
  ev_Message :: string

definition BeforeSend :: "sentry_event \<Rightarrow> sentry_event" where
  "BeforeSend ev =
     (case ev_Request ev of
        None \<Rightarrow> ev
      | Some hs \<Rightarrow> ev\<lparr>ev_Request := Some (hs(''Authorization'' := None, ''authorization'' := None))\<rparr>)"

text \<open>\<open>send\<close> is the SDK's sending of an event with the tags of its scope.\<close>

definition CaptureError ::
    "((string \<times> string) list \<Rightarrow> string \<Rightarrow> 'w \<Rightarrow> 'w) \<Rightarrow> string option \<Rightarrow> (string \<times> string) list \<Rightarrow> 'w \<Rightarrow> 'w" where
  "CaptureError send err tags w = (case err of None \<Rightarrow> w | Some e \<Rightarrow> send tags e w)"

section \<open>Response writers\<close>

datatype wr_call = WriteHeader nat | WriteBody string

text \<open>
  The server's writer: the first status counts, a body without one sends 200.
\<close>

record net_writer =
  sent_status :: "nat option"
  sent_body :: string

definition new_writer :: net_writer where
  "new_writer = \<lparr>sent_status = None, sent_body = []\<rparr>"

fun net_call :: "wr_call \<Rightarrow> net_writer \<Rightarrow> net_writer" where
  "net_call (WriteHeader code) w =
     (if sent_status w = None then w\<lparr>sent_status := Some code\<rparr> else w)"
| "net_call (WriteBody b) w =
     w\<lparr>sent_status := (if sent_status w = None then Some 200 else sent_status w),
       sent_body := sent_body w @ b\<rparr>"

text \<open>What the client has received when the handler has returned.\<close>

definition received_status :: "net_writer \<Rightarrow> nat" where
  "received_status w = (case sent_status w of None \<Rightarrow> 200 | Some code \<Rightarrow> code)"

record status_recorder =
  rec_inner :: net_writer
  rec_status :: nat

text \<open>The recorder overrides \<open>WriteHeader\<close> only; \<open>Write\<close> is the embedded writer's.\<close>

fun recorder_call :: "wr_call \<Rightarrow> status_recorder \<Rightarrow> status_recorder" where
  "recorder_call (WriteHeader code) s =
     s\<lparr>rec_status := code, rec_inner := net_call (WriteHeader code) (rec_inner s)\<rparr>"
| "recorder_call (WriteBody b) s = s\<lparr>rec_inner := net_call (WriteBody b) (rec_inner s)\<rparr>"

text \<open>
  Which writers offer \<open>http.Hijacker\<close>, directly or by an \<open>Unwrap\<close> method: the server's own
  (HTTP/1.1) does; the recorder embeds the interface \<open>http.ResponseWriter\<close>, whose methods are
  \<open>Header\<close>, \<open>Write\<close> and \<open>WriteHeader\<close>, and adds only its \<open>WriteHeader\<close>.
\<close>

datatype writer_type = ServerWriter | StatusRecorder writer_type

fun offers_hijack :: "writer_type \<Rightarrow> bool" where
  "offers_hijack ServerWriter = True"
| "offers_hijack (StatusRecorder _) = False"

section \<open>The middleware\<close>

record handler_run =
  calls :: "wr_call list"
  panic :: "string option"

record span =
  span_name :: string
  http_method :: string
  http_target :: string
  http_user_agent :: string
  http_status_code :: nat
  http_duration_ms :: int
  recorded_errors :: "string list"

record obs_result =
  or_writer :: net_writer
  or_span :: span
  or_captures :: "(string \<times> string) list" \<comment> \<open>tag \<open>path\<close> and panic value\<close>
  or_panic :: "string option" \<comment> \<open>what the server's own recovery would see\<close>

text \<open>\<open>Duration.Milliseconds\<close> truncates towards zero.\<close>

definition milliseconds :: "int \<Rightarrow> int" where
  "milliseconds d = (if d < 0 then - (- d div 1000000) else d div 1000000)"

definition obs_Middleware :: "time \<Rightarrow> time \<Rightarrow> 'c request \<Rightarrow> handler_run \<Rightarrow> obs_result" where
  "obs_Middleware t0 t1 rq run =
     (let rw = fold recorder_call (calls run) \<lparr>rec_inner = new_writer, rec_status = StatusOK\<rparr>;
          (rw', captured, errs) =
            (case panic run of
               None \<Rightarrow> (rw, [], [])
             | Some v \<Rightarrow>
                 (recorder_call (WriteHeader StatusInternalServerError) rw, [(rq_path rq, v)], [''panic: '' @ v]))
      in \<lparr>or_writer = rec_inner rw',
          or_span = \<lparr>span_name = rq_method rq @ '' '' @ rq_path rq, http_method = rq_method rq,
            http_target = rq_path rq, http_user_agent = header_get rq ''User-Agent'',
            http_status_code = rec_status rw',
            http_duration_ms = milliseconds (time_sub t1 t0), recorded_errors = errs\<rparr>,
          or_captures = captured, or_panic = None\<rparr>)"

text \<open>The type of writer the middleware hands to the next handler.\<close>

definition wrapped_writer :: "writer_type \<Rightarrow> writer_type" where
  "wrapped_writer w = StatusRecorder w"

section \<open>Properties\<close>

lemma fold_recorder_inner:
  "rec_inner (fold recorder_call cs s) = fold net_call cs (rec_inner s)"
proof (induction cs arbitrary: s)
  case (Cons c cs)
  then show ?case by (cases c) simp_all
qed simp

text \<open>
  The contract of \<open>http.ResponseWriter\<close> as the handlers rely on it: the first status is sent and
  stays, a body without one sends 200, and the parts of the body are appended.
\<close>

locale response_writer =
  fixes do_call :: "wr_call \<Rightarrow> 'w \<Rightarrow> 'w"
    and code_sent :: "'w \<Rightarrow> nat option"
    and body_sent :: "'w \<Rightarrow> string"
  assumes header_sends: "code_sent w = None \<Longrightarrow> code_sent (do_call (WriteHeader code) w) = Some code"
    and body_sends: "code_sent w = None \<Longrightarrow> code_sent (do_call (WriteBody b) w) = Some 200"
    and first_stays: "code_sent w = Some code \<Longrightarrow> code_sent (do_call c w) = Some code"
    and header_keeps: "body_sent (do_call (WriteHeader code) w) = body_sent w"
    and body_appends: "body_sent (do_call (WriteBody b) w) = body_sent w @ b"
begin

lemma calls_keep_code: "code_sent w = Some code \<Longrightarrow> code_sent (fold do_call cs w) = Some code"
  by (induction cs arbitrary: w) (simp_all add: first_stays)

lemma calls_start:
  assumes "code_sent w = None"
  shows "code_sent (fold do_call cs w) = None \<longleftrightarrow> cs = []"
proof (cases cs)
  case (Cons c rest)
  obtain code where "code_sent (do_call c w) = Some code"
    using header_sends [OF assms] body_sends [OF assms] by (cases c) auto
  from calls_keep_code [OF this] Cons show ?thesis by simp
qed (simp add: assms)

lemma calls_first_header:
  "code_sent w = None \<Longrightarrow> code_sent (fold do_call (WriteHeader code # cs) w) = Some code"
  by (simp add: header_sends calls_keep_code)

lemma calls_body:
  "body_sent (fold do_call cs w) =
     body_sent w @ concat (map (\<lambda>x. case x of WriteHeader _ \<Rightarrow> [] | WriteBody b \<Rightarrow> b) cs)"
proof (induction cs arbitrary: w)
  case (Cons x cs)
  then show ?case by (cases x) (simp_all add: header_keeps body_appends)
qed simp

end

lemma net_call_stays: "sent_status w = Some code \<Longrightarrow> sent_status (net_call c w) = Some code"
  by (cases c) simp_all

lemma recorder_call_inner: "rec_inner (recorder_call c s) = net_call c (rec_inner s)"
  by (cases c) simp_all

text \<open>Both the server's writer and the recorder that wraps it keep the contract.\<close>

interpretation net: response_writer net_call sent_status sent_body
  by unfold_locales (auto simp: net_call_stays)

interpretation recorder: response_writer recorder_call "\<lambda>s. sent_status (rec_inner s)" "\<lambda>s. sent_body (rec_inner s)"
  by unfold_locales (auto simp: recorder_call_inner net_call_stays)

text \<open>
  The middleware is transparent to the client: what a handler that returns writes arrives as
  if it had written to the server's writer itself, and nothing is reported.
\<close>

theorem obs_transparent:
  assumes "panic run = None"
  shows "or_writer (obs_Middleware t0 t1 rq run) = fold net_call (calls run) new_writer \<and>
    or_captures (obs_Middleware t0 t1 rq run) = []"
  using assms by (simp add: obs_Middleware_def fold_recorder_inner)

text \<open>A response of the handlers as calls on the writer.\<close>

definition response_calls :: "response \<Rightarrow> wr_call list" where
  "response_calls r =
     WriteHeader (status r) # (if rbody r = NoBody then [] else [WriteBody (body_text (rbody r))])"

text \<open>
  For every response the relay's handlers write, the span records the status that the client
  receives, and it is the handler's.
\<close>

theorem obs_records_response_status:
  "http_status_code (or_span (obs_Middleware t0 t1 rq \<lparr>calls = response_calls r, panic = None\<rparr>)) = status r \<and>
   received_status (or_writer (obs_Middleware t0 t1 rq \<lparr>calls = response_calls r, panic = None\<rparr>)) = status r"
  by (cases "rbody r")
    (simp_all add: obs_Middleware_def response_calls_def received_status_def new_writer_def)

text \<open>
  C39: A panic never gets past the middleware. Before anything was written the client gets a 500;
  after that it gets the status and the part of the body already written, as a finished response,
  while the span records 500; the panic is reported once, with the path.
\<close>

theorem obs_contains_panics:
  assumes "panic run = Some v"
  shows "or_panic (obs_Middleware t0 t1 rq run) = None \<and>
    or_captures (obs_Middleware t0 t1 rq run) = [(rq_path rq, v)] \<and>
    http_status_code (or_span (obs_Middleware t0 t1 rq run)) = 500 \<and>
    received_status (or_writer (obs_Middleware t0 t1 rq run)) =
      (if calls run = [] then 500 else received_status (fold net_call (calls run) new_writer)) \<and>
    sent_body (or_writer (obs_Middleware t0 t1 rq run)) = sent_body (fold net_call (calls run) new_writer)"
proof -
  have started: "sent_status (fold net_call (calls run) new_writer) = None \<longleftrightarrow> calls run = []"
    by (rule net.calls_start) (simp add: new_writer_def)
  show ?thesis
    using assms started
    by (auto simp: obs_Middleware_def fold_recorder_inner received_status_def)
qed

definition stats_rq :: "unit request" where
  "stats_rq = \<lparr>rq_method = ''GET'', rq_path = ''/v1/stats'', rq_query = [], rq_headers = [],
     rq_body = [], rq_claims = None\<rparr>"

theorem obs_contains_panics_witness:
  "or_panic (obs_Middleware 0 1 stats_rq
      \<lparr>calls = [WriteHeader 200, WriteBody ''{''], panic = Some ''nil map''\<rparr>) = None"
  using obs_contains_panics [of "\<lparr>calls = [WriteHeader 200, WriteBody ''{''], panic = Some ''nil map''\<rparr>"
      "''nil map''" 0 1 stats_rq] by simp

theorem obs_transparent_witness:
  "or_writer (obs_Middleware 0 1 stats_rq \<lparr>calls = [WriteBody ''x''], panic = None\<rparr>) =
   \<lparr>sent_status = Some 200, sent_body = ''x''\<rparr>"
  using obs_transparent [of "\<lparr>calls = [WriteBody ''x''], panic = None\<rparr>" 0 1 stats_rq]
  by (simp add: new_writer_def)

lemma join_errors_None: "join_errors es = None \<longleftrightarrow> es = []"
  by (induction es rule: join_errors.induct) (auto split: option.split)

text \<open>What a successful start leaves to stop: the configured providers, in the order they were started.\<close>

lemma obs_Init_started:
  assumes "obs_Init lib cfg w = (w', Inr ss)"
  obtains tps where "ss = (if SentryDSN cfg \<noteq> [] then [FlushSentry] else []) @ map ShutdownTracer tps"
    and "tps = [] \<and> OTelEndpoint cfg = [] \<or>
      (\<exists>tp w1 w2. tps = [tp] \<and> OTelEndpoint cfg \<noteq> [] \<and> otlp_New lib (OTelEndpoint cfg) w1 = (w2, Inr tp))"
proof -
  let ?fl = "if SentryDSN cfg \<noteq> [] then [FlushSentry] else []"
  obtain w1 where init: "(if OTelEndpoint cfg \<noteq> [] then
      (case otlp_New lib (OTelEndpoint cfg) w1 of
         (w2, Inl e) \<Rightarrow> (w2, Inl (''obs: otlp exporter: '' @ e))
       | (w2, Inr tp) \<Rightarrow>
           (SetTracerProvider lib tp (otel_config cfg) 10 w2, Inr (?fl @ [ShutdownTracer tp])))
      else (w1, Inr ?fl)) = (w', Inr ss)"
  proof (cases "SentryDSN cfg = []")
    case True
    with assms that show ?thesis
      by (intro that) (simp only: obs_Init_def Let_def prod.case sum.case if_False not_True_eq_False simp_thms)
  next
    case False
    obtain w1 r where r: "sentry_Init lib (sentry_config cfg) w = (w1, r)"
      by (cases "sentry_Init lib (sentry_config cfg) w")
    have "r = None" using assms False r by (cases r) (simp_all add: obs_Init_def)
    with assms False r show ?thesis
      by (intro that [of w1]) (simp only: obs_Init_def Let_def prod.case sum.case option.case if_True not_False_eq_True simp_thms)
  qed
  show ?thesis
  proof (cases "OTelEndpoint cfg = []")
    case True
    with init show ?thesis by (intro that [of "[]"]) simp_all
  next
    case False
    with init obtain tp w2 where "ss = ?fl @ [ShutdownTracer tp]" "otlp_New lib (OTelEndpoint cfg) w1 = (w2, Inr tp)"
      by (auto split: prod.splits sum.splits)
    with False show ?thesis by (intro that [of "[tp]"]) auto
  qed
qed

text \<open>
  What a successful start leaves running is stopped in the order it was started, all of it
  even when a stop fails, and the shutdown returns nil exactly when every stop did.
\<close>

theorem obs_shutdown_runs_all:
  assumes "obs_Init lib cfg w = (w', Inr ss)"
  shows "\<exists>tps. ss = (if SentryDSN cfg \<noteq> [] then [FlushSentry] else []) @ map ShutdownTracer tps \<and>
    (OTelEndpoint cfg = [] \<longleftrightarrow> tps = []) \<and>
    (\<exists>n. obs_Shutdown lib left ss w2 =
      (let w3 = (if SentryDSN cfg \<noteq> [] then sentry_Flush lib w2 else w2)
       in case tps of [] \<Rightarrow> (w3, None) | tp # _ \<Rightarrow> tp_Shutdown lib tp (min (left n) three_seconds) w3))"
proof (rule obs_Init_started [OF assms])
  fix tps
  let ?n = "if SentryDSN cfg \<noteq> [] then 1 else 0 :: nat"
  assume ss: "ss = (if SentryDSN cfg \<noteq> [] then [FlushSentry] else []) @ map ShutdownTracer tps"
    and tps: "tps = [] \<and> OTelEndpoint cfg = [] \<or>
      (\<exists>tp w1 w2. tps = [tp] \<and> OTelEndpoint cfg \<noteq> [] \<and> otlp_New lib (OTelEndpoint cfg) w1 = (w2, Inr tp))"
  then have "obs_Shutdown lib left ss w2 =
      (let w3 = (if SentryDSN cfg \<noteq> [] then sentry_Flush lib w2 else w2)
       in case tps of [] \<Rightarrow> (w3, None) | tp # _ \<Rightarrow> tp_Shutdown lib tp (min (left ?n) three_seconds) w3)"
    by (auto simp: ss obs_Shutdown_def run_shutdown_def Let_def split: prod.splits option.splits)
  with ss tps show ?thesis by blast
qed

definition quiet_obs :: "(nat, nat) obs_lib" where
  "quiet_obs =
     \<lparr>sentry_Init = (\<lambda>_ w. (w, None)), sentry_Flush = (\<lambda>w. w + 1), otlp_New = (\<lambda>_ w. (w, Inr 7)),
      SetTracerProvider = (\<lambda>_ _ _ w. w), tp_Shutdown = (\<lambda>_ _ w. (w + 10, Some ''deadline''))\<rparr>"

definition both_config :: obs_config where
  "both_config = \<lparr>ServiceName = ''chepherd-relay'', ServiceVersion = ''1'', Environment = ''dev'',
     SentryDSN = ''dsn'', OTelEndpoint = ''otel''\<rparr>"

theorem obs_shutdown_runs_all_witness:
  "\<exists>ss. obs_Init quiet_obs both_config 0 = (0, Inr ss) \<and>
     obs_Shutdown quiet_obs (\<lambda>_. 0) ss 0 = (11, Some ''deadline'')"
proof -
  have init: "obs_Init quiet_obs both_config 0 = (0, Inr [FlushSentry, ShutdownTracer 7])"
    by (simp add: obs_Init_def quiet_obs_def both_config_def)
  from obs_shutdown_runs_all [OF init, of "\<lambda>_. 0" 0] obtain tps n where
    t: "[FlushSentry, ShutdownTracer 7] = (if SentryDSN both_config \<noteq> [] then [FlushSentry] else []) @ map ShutdownTracer tps"
    and sh: "obs_Shutdown quiet_obs (\<lambda>_. 0) [FlushSentry, ShutdownTracer 7] 0 =
      (let w3 = (if SentryDSN both_config \<noteq> [] then sentry_Flush quiet_obs 0 else 0)
       in case tps of [] \<Rightarrow> (w3, None) | tp # _ \<Rightarrow> tp_Shutdown quiet_obs tp (min 0 three_seconds) w3)"
    by blast
  from t have "tps = [7]" by (cases tps) (auto simp: both_config_def)
  with sh have "obs_Shutdown quiet_obs (\<lambda>_. 0) [FlushSentry, ShutdownTracer 7] 0 = (11, Some ''deadline'')"
    by (simp add: both_config_def quiet_obs_def)
  with init show ?thesis by blast
qed

end
