(* ===== verification/Relay_Handlers.thy ===== *)
theory Relay_Handlers
  imports Auth Obs Bastion_Registry
begin

text \<open>
  The request handlers of \<open>cmd/chepherd-relay/main.go\<close> that do not wait: \<open>pushRegister\<close>,
  \<open>pushSend\<close>, \<open>registerBastion\<close>, \<open>listMyBastions\<close>. Each is a function from the request and
  the part of the relay's state it touches to the new state and the response.
\<close>

section \<open>Registering a device\<close>

record push_register_body =
  pr_DeviceID :: string
  pr_Platform :: string
  pr_Value :: string
  pr_BundleID :: string

definition push_register_fields :: "push_register_body field_spec list" where
  "push_register_fields =
     [fld ''device_id'' pr_DeviceID pr_DeviceID_update dec_string,
      fld ''platform'' pr_Platform pr_Platform_update dec_string,
      fld ''value'' pr_Value pr_Value_update dec_string,
      fld ''bundle_id'' pr_BundleID pr_BundleID_update dec_string]"

definition parse_platform :: "string \<Rightarrow> platform option" where
  "parse_platform p =
     (if p = ''ios'' then Some PlatformiOS
      else if p = ''android'' then Some PlatformAndroid
      else if p = ''webpush'' then Some PlatformWebPush
      else None)"

definition pushRegister :: "time \<Rightarrow> claims request \<Rightarrow> push_memory \<Rightarrow> push_memory \<times> response" where
  "pushRegister now rq m =
     (if rq_method rq \<noteq> ''POST'' then (m, http_error ''POST required'' StatusMethodNotAllowed)
      else case ClaimsFromContext rq of
        None \<Rightarrow> (m, http_error ''unauthenticated'' StatusUnauthorized)
      | Some c \<Rightarrow>
          (case decode_body push_register_fields
                  \<lparr>pr_DeviceID = [], pr_Platform = [], pr_Value = [], pr_BundleID = []\<rparr> rq of
             None \<Rightarrow> (m, http_error ''bad json'' StatusBadRequest)
           | Some bdy \<Rightarrow>
               if pr_DeviceID bdy = [] \<or> pr_Value bdy = [] then
                 (m, http_error ''device_id and value required'' StatusBadRequest)
               else case parse_platform (pr_Platform bdy) of
                 None \<Rightarrow> (m, http_error ''invalid platform'' StatusBadRequest)
               | Some plat \<Rightarrow>
                   (Upsert m
                      \<lparr>r_UserID = UserID c, r_DeviceID = pr_DeviceID bdy,
                       r_Token = \<lparr>t_Platform = plat, t_Value = pr_Value bdy, t_BundleID = pr_BundleID bdy\<rparr>,
                       r_UpdatedAt = zero_time, r_LastFailureAt = zero_time\<rparr> now,
                    writeJSON StatusOK (JObj [(''ok'', JBool True)]))))"

section \<open>Sending a notification\<close>

record push_send_body =
  ps_Title :: string
  ps_Body :: string
  ps_Sound :: string
  ps_Priority :: string
  ps_SessionUUID :: string
  ps_CollapseKey :: string
  ps_TTLSeconds :: int64

definition push_send_fields :: "push_send_body field_spec list" where
  "push_send_fields =
     [fld ''title'' ps_Title ps_Title_update dec_string,
      fld ''body'' ps_Body ps_Body_update dec_string,
      fld ''sound'' ps_Sound ps_Sound_update dec_string,
      fld ''priority'' ps_Priority ps_Priority_update dec_string,
      fld ''session_uuid'' ps_SessionUUID ps_SessionUUID_update dec_string,
      fld ''collapse_key'' ps_CollapseKey ps_CollapseKey_update dec_string,
      fld ''ttl_seconds'' ps_TTLSeconds ps_TTLSeconds_update dec_int]"

text \<open>\<open>time.Duration(n) * time.Second\<close> on 64 bits.\<close>

definition seconds :: "int64 \<Rightarrow> int64" where
  "seconds n = n * 1000000000"

definition notification_of :: "push_send_body \<Rightarrow> notification" where
  "notification_of bdy =
     \<lparr>n_Title = ps_Title bdy, n_Body = ps_Body bdy, n_Sound = ps_Sound bdy,
      n_Priority = (if ps_Priority bdy = ''high'' then PriorityHigh else PriorityNormal),
      n_SessionUUID = ps_SessionUUID bdy, n_CollapseKey = ps_CollapseKey bdy,
      n_TTL = seconds (ps_TTLSeconds bdy)\<rparr>"

text \<open>
  The state of the loop over the user's devices: the registry, the world, what was captured for
  Sentry (tags and error text), and the two counters.
\<close>

record 'w send_loop =
  sl_tokens :: push_memory
  sl_world :: 'w
  sl_captured :: "((string \<times> string) list \<times> string) list"
  sl_sent :: nat
  sl_failed :: nat

text \<open>
  One round: send, and on an error mark the device and capture the error. \<open>ctx\<close> gives the
  context and the clock of the round. Between rounds other requests may have changed the
  registry, which is \<open>meanwhile\<close>.
\<close>

definition send_round ::
    "'w dispatcher \<Rightarrow> notification \<Rightarrow> (registration \<Rightarrow> send_ctx) \<Rightarrow>
     (registration \<Rightarrow> push_memory \<Rightarrow> push_memory) \<Rightarrow> registration \<Rightarrow> 'w send_loop \<Rightarrow> 'w send_loop" where
  "send_round disp notif ctx meanwhile reg s =
     (let m = meanwhile reg (sl_tokens s);
          (w', _, res) = d_Send disp (ctx reg) (r_Token reg) notif (sl_world s)
      in case res of
        Some err \<Rightarrow>
          s\<lparr>sl_tokens := MarkFailure m (r_DeviceID reg) (ctx_now (ctx reg)), sl_world := w',
            sl_captured := sl_captured s @
              [([(''device_id'', r_DeviceID reg),
                 (''platform'', show_int (platform_int (t_Platform (r_Token reg))))], push_error_text err)],
            sl_failed := Suc (sl_failed s)\<rparr>
      | None \<Rightarrow> s\<lparr>sl_tokens := m, sl_world := w', sl_sent := Suc (sl_sent s)\<rparr>)"

definition start_loop :: "push_memory \<Rightarrow> 'w \<Rightarrow> 'w send_loop" where
  "start_loop m w = \<lparr>sl_tokens = m, sl_world = w, sl_captured = [], sl_sent = 0, sl_failed = 0\<rparr>"

definition counts_response :: "nat \<Rightarrow> nat \<Rightarrow> nat \<Rightarrow> response" where
  "counts_response attempted sent failed =
     writeJSON StatusOK (JObj
       [(''devices_attempted'', jint (int attempted)), (''devices_failed'', jint (int failed)),
        (''devices_sent'', jint (int sent))])"

text \<open>\<open>ks\<close> is the order in which the registry lists the devices.\<close>

definition pushSend ::
    "'w dispatcher \<Rightarrow> (registration \<Rightarrow> send_ctx) \<Rightarrow> (registration \<Rightarrow> push_memory \<Rightarrow> push_memory) \<Rightarrow>
     string list \<Rightarrow> claims request \<Rightarrow> push_memory \<Rightarrow> 'w \<Rightarrow> 'w send_loop \<times> response" where
  "pushSend disp ctx meanwhile ks rq m w =
     (if rq_method rq \<noteq> ''POST'' then
        (start_loop m w, http_error ''POST required'' StatusMethodNotAllowed)
      else case ClaimsFromContext rq of
        None \<Rightarrow> (start_loop m w, http_error ''unauthenticated'' StatusUnauthorized)
      | Some c \<Rightarrow>
          (case decode_body push_send_fields
                  \<lparr>ps_Title = [], ps_Body = [], ps_Sound = [], ps_Priority = [], ps_SessionUUID = [],
                   ps_CollapseKey = [], ps_TTLSeconds = 0\<rparr> rq of
             None \<Rightarrow> (start_loop m w, http_error ''bad json'' StatusBadRequest)
           | Some bdy \<Rightarrow>
               let devices = ListTokens m ks (UserID c);
                   s = fold (send_round disp (notification_of bdy) ctx meanwhile) devices (start_loop m w)
               in (s, counts_response (length devices) (sl_sent s) (sl_failed s))))"

section \<open>Registering a bastion and listing\<close>

record register_body =
  rb_ID :: string
  rb_Capabilities :: "string list"
  rb_ChepherdVersion :: string
  rb_Hostname :: string

definition register_fields :: "register_body field_spec list" where
  "register_fields =
     [fld ''id'' rb_ID rb_ID_update dec_string,
      fld ''capabilities'' rb_Capabilities rb_Capabilities_update (dec_slice dec_string []),
      fld ''chepherd_version'' rb_ChepherdVersion rb_ChepherdVersion_update dec_string,
      fld ''hostname'' rb_Hostname rb_Hostname_update dec_string]"

text \<open>The JSON form of a bastion, by the tags of the struct: the token is never written.\<close>

definition bastion_json :: "bastion \<Rightarrow> json" where
  "bastion_json b = JObj
     ([(''id'', jstr (b_ID b)), (''user_id'', jstr (b_UserID b)),
       (''last_seen_at'', jstr (rfc3339 (b_LastSeenAt b))), (''created_at'', jstr (rfc3339 (b_CreatedAt b)))] @
      (if b_ChepherdVersion b = [] then [] else [(''chepherd_version'', jstr (b_ChepherdVersion b))]) @
      (if b_Capabilities b = [] then [] else [(''capabilities'', JArr (map jstr (b_Capabilities b)))]) @
      (if b_Hostname b = [] then [] else [(''hostname'', jstr (b_Hostname b))]))"

text \<open>\<open>meanwhile\<close> is what other requests do between the registration and the look-up.\<close>

definition registerBastion ::
    "entropy \<Rightarrow> time \<Rightarrow> (memory \<Rightarrow> memory) \<Rightarrow> claims request \<Rightarrow> memory \<Rightarrow> memory \<times> response" where
  "registerBastion ent now meanwhile rq m =
     (if rq_method rq \<noteq> ''POST'' then (m, http_error ''POST required'' StatusMethodNotAllowed)
      else case ClaimsFromContext rq of
        None \<Rightarrow> (m, http_error ''unauthenticated'' StatusUnauthorized)
      | Some c \<Rightarrow>
          (case decode_body register_fields
                  \<lparr>rb_ID = [], rb_Capabilities = [], rb_ChepherdVersion = [], rb_Hostname = []\<rparr> rq of
             None \<Rightarrow> (m, http_error ''bad json'' StatusBadRequest)
           | Some bdy \<Rightarrow>
               if rb_ID bdy = [] then (m, http_error ''id required'' StatusBadRequest)
               else
                 (case Register m
                         (zero_bastion\<lparr>b_ID := rb_ID bdy, b_UserID := UserID c,
                            b_ChepherdVersion := rb_ChepherdVersion bdy,
                            b_Capabilities := rb_Capabilities bdy, b_Hostname := rb_Hostname bdy\<rparr>)
                         ent now of
                    (m1, Inl err) \<Rightarrow> (m1, http_error (reg_error_text err) StatusConflict)
                  | (m1, Inr tok) \<Rightarrow>
                      let m2 = meanwhile m1 in
                      (m2, writeJSON StatusOK (JObj
                         [(''bastion'', (case Get m2 (rb_ID bdy) of Inl _ \<Rightarrow> JNull | Inr b \<Rightarrow> bastion_json b)),
                          (''daemon_token'', jstr tok)])))))"

text \<open>
  The handler cut between the two: up to the registration, with the response when it ends there
  or else the bastion ID and the token, and from the look-up on.
\<close>

definition start_registration ::
    "entropy \<Rightarrow> time \<Rightarrow> claims request \<Rightarrow> memory \<Rightarrow> memory \<times> (response + string \<times> string)" where
  "start_registration ent now rq m =
     (if rq_method rq \<noteq> ''POST'' then (m, Inl (http_error ''POST required'' StatusMethodNotAllowed))
      else case ClaimsFromContext rq of
        None \<Rightarrow> (m, Inl (http_error ''unauthenticated'' StatusUnauthorized))
      | Some c \<Rightarrow>
          (case decode_body register_fields
                  \<lparr>rb_ID = [], rb_Capabilities = [], rb_ChepherdVersion = [], rb_Hostname = []\<rparr> rq of
             None \<Rightarrow> (m, Inl (http_error ''bad json'' StatusBadRequest))
           | Some bdy \<Rightarrow>
               if rb_ID bdy = [] then (m, Inl (http_error ''id required'' StatusBadRequest))
               else
                 (case Register m
                         (zero_bastion\<lparr>b_ID := rb_ID bdy, b_UserID := UserID c,
                            b_ChepherdVersion := rb_ChepherdVersion bdy,
                            b_Capabilities := rb_Capabilities bdy, b_Hostname := rb_Hostname bdy\<rparr>)
                         ent now of
                    (m1, Inl err) \<Rightarrow> (m1, Inl (http_error (reg_error_text err) StatusConflict))
                  | (m1, Inr tok) \<Rightarrow> (m1, Inr (rb_ID bdy, tok)))))"

definition registered_response :: "memory \<Rightarrow> string \<Rightarrow> string \<Rightarrow> response" where
  "registered_response m i tok = writeJSON StatusOK (JObj
     [(''bastion'', (case Get m i of Inl _ \<Rightarrow> JNull | Inr b \<Rightarrow> bastion_json b)), (''daemon_token'', jstr tok)])"

lemma registerBastion_parts:
  "registerBastion ent now meanwhile rq m =
     (case start_registration ent now rq m of
        (m1, Inl resp) \<Rightarrow> (m1, resp)
      | (m1, Inr (i, tok)) \<Rightarrow> (meanwhile m1, registered_response (meanwhile m1) i tok))"
  by (simp add: registerBastion_def start_registration_def registered_response_def Let_def
      split: option.split prod.split sum.split)

text \<open>A nil slice is written as \<open>null\<close>. Any method is served.\<close>

definition listMyBastions :: "string list \<Rightarrow> claims request \<Rightarrow> memory \<Rightarrow> response" where
  "listMyBastions ks rq m =
     (case ClaimsFromContext rq of
        None \<Rightarrow> http_error ''unauthenticated'' StatusUnauthorized
      | Some c \<Rightarrow>
          let bastions = ListByUser m ks (UserID c) in
          writeJSON StatusOK (JObj
            [(''bastions'', if bastions = [] then JNull else JArr (map bastion_json bastions))]))"

end
