(* ===== verification/Push_Concurrent.thy ===== *)
theory Push_Concurrent
  imports Relay_Handlers
begin

text \<open>
  Sending a notification beside other requests (\<open>pushSend\<close> in \<open>cmd/chepherd-relay/main.go\<close>): the
  loop over the devices cut at its calls. A send to a provider takes its time, and between a
  failed send and the marking of the device in the registry others may change the registry.
\<close>

record push_loop =
  pl_notif :: notification
  pl_total :: nat
  pl_left :: "registration list"
  pl_sent :: nat
  pl_failed :: nat

datatype pushing = Sends push_loop | Marks registration push_error push_loop | Pushed response

text \<open>The handler up to its loop; \<open>ks\<close> is the order in which the registry lists the devices.\<close>

definition start_push :: "string list \<Rightarrow> claims request \<Rightarrow> push_memory \<Rightarrow> pushing" where
  "start_push ks rq m =
     (if rq_method rq \<noteq> ''POST'' then Pushed (http_error ''POST required'' StatusMethodNotAllowed)
      else case ClaimsFromContext rq of
        None \<Rightarrow> Pushed (http_error ''unauthenticated'' StatusUnauthorized)
      | Some c \<Rightarrow>
          (case decode_body push_send_fields
                  \<lparr>ps_Title = [], ps_Body = [], ps_Sound = [], ps_Priority = [], ps_SessionUUID = [],
                   ps_CollapseKey = [], ps_TTLSeconds = 0\<rparr> rq of
             None \<Rightarrow> Pushed (http_error ''bad json'' StatusBadRequest)
           | Some bdy \<Rightarrow>
               let devices = ListTokens m ks (UserID c) in
               Sends \<lparr>pl_notif = notification_of bdy, pl_total = length devices, pl_left = devices,
                      pl_sent = 0, pl_failed = 0\<rparr>))"

datatype push_event =
    SentTo registration
  | MissedBy registration push_error
  | Captured "(string \<times> string) list" string
  | Reported nat nat nat

definition failure_tags :: "registration \<Rightarrow> (string \<times> string) list" where
  "failure_tags reg =
     [(''device_id'', r_DeviceID reg), (''platform'', show_int (platform_int (t_Platform (r_Token reg))))]"

inductive push_step ::
    "'w dispatcher \<Rightarrow> push_memory \<Rightarrow> 'w \<Rightarrow> pushing \<Rightarrow> push_event \<Rightarrow> push_memory \<Rightarrow> 'w \<Rightarrow> pushing \<Rightarrow> bool"
  for disp m w where
  sent: "pl_left l = r # rs \<Longrightarrow> d_Send disp ctx (r_Token r) (pl_notif l) w = (w', logs, None) \<Longrightarrow>
    push_step disp m w (Sends l) (SentTo r) m w' (Sends (l\<lparr>pl_left := rs, pl_sent := Suc (pl_sent l)\<rparr>))"
| missed: "pl_left l = r # rs \<Longrightarrow> d_Send disp ctx (r_Token r) (pl_notif l) w = (w', logs, Some err) \<Longrightarrow>
    push_step disp m w (Sends l) (MissedBy r err) m w'
      (Marks r err (l\<lparr>pl_left := rs, pl_failed := Suc (pl_failed l)\<rparr>))"
| marked: "push_step disp m w (Marks r err l) (Captured (failure_tags r) (push_error_text err))
      (MarkFailure m (r_DeviceID r) now) w (Sends l)"
| reported: "pl_left l = [] \<Longrightarrow>
    push_step disp m w (Sends l) (Reported (pl_total l) (pl_sent l) (pl_failed l)) m w
      (Pushed (counts_response (pl_total l) (pl_sent l) (pl_failed l)))"

inductive_simps Sends_step: "push_step disp m w (Sends l) e m' w' h'"
inductive_simps Marks_step: "push_step disp m w (Marks r err l) e m' w' h'"
inductive_simps Pushed_step [simp]: "push_step disp m w (Pushed resp) e m' w' h'"

lemma push_step_inv: "push_step disp m w h e m' w' h' \<Longrightarrow> push_inv m \<Longrightarrow> push_inv m'"
  by (cases rule: push_step.cases) (auto intro: push_inv_MarkFailure)

section \<open>It ends\<close>

fun push_rank :: "pushing \<Rightarrow> nat" where
  "push_rank (Sends l) = Suc (2 * length (pl_left l))"
| "push_rank (Marks r err l) = Suc (Suc (2 * length (pl_left l)))"
| "push_rank (Pushed resp) = 0"

lemma push_step_rank: "push_step disp m w h e m' w' h' \<Longrightarrow> push_rank h' < push_rank h"
  by (cases rule: push_step.cases) auto

lemma push_step_possible:
  "(\<exists>resp. h = Pushed resp) \<or> (\<exists>e m' w' h'. push_step disp m w h e m' w' h')"
proof (cases h)
  case (Sends l)
  show ?thesis
  proof (cases "pl_left l")
    case Nil
    then show ?thesis unfolding Sends by (intro disjI2 exI) (rule push_step.reported)
  next
    case (Cons r rs)
    fix ctx
    obtain w' logs res where "d_Send disp ctx (r_Token r) (pl_notif l) w = (w', logs, res)" by (metis prod_cases3)
    with Cons show ?thesis unfolding Sends
      by (cases res) (simp, intro disjI2 exI, erule (1) push_step.sent, simp, intro disjI2 exI, erule (1) push_step.missed)
  qed
next
  case (Marks r err l)
  then show ?thesis by (metis push_step.marked)
qed simp

section \<open>A loop that meets no other\<close>

inductive push_alone ::
    "'w dispatcher \<Rightarrow> push_memory \<Rightarrow> 'w \<Rightarrow> pushing \<Rightarrow> push_memory \<Rightarrow> 'w \<Rightarrow> response \<Rightarrow> bool"
  for disp where
  over: "push_alone disp m w (Pushed resp) m w resp"
| turn: "push_step disp m w h e m1 w1 h1 \<Longrightarrow> push_alone disp m1 w1 h1 m2 w2 resp \<Longrightarrow>
    push_alone disp m w h m2 w2 resp"

text \<open>The loop from the middle: \<open>s\<close> are the counters and the state so far.\<close>

lemma loop_alone:
  assumes "s' = fold (send_round disp n ctx (\<lambda>_. id)) rs s"
  shows "push_alone disp (sl_tokens s) (sl_world s)
    (Sends \<lparr>pl_notif = n, pl_total = t, pl_left = rs, pl_sent = sl_sent s, pl_failed = sl_failed s\<rparr>)
    (sl_tokens s') (sl_world s') (counts_response t (sl_sent s') (sl_failed s'))"
  using assms
proof (induction rs arbitrary: s)
  case Nil
  then show ?case by (intro push_alone.turn [OF push_step.reported] ) (auto intro: push_alone.over)
next
  case (Cons r rs)
  let ?l = "\<lparr>pl_notif = n, pl_total = t, pl_left = r # rs, pl_sent = sl_sent s, pl_failed = sl_failed s\<rparr>"
  let ?s1 = "send_round disp n ctx (\<lambda>_. id) r s"
  obtain w1 logs res where d: "d_Send disp (ctx r) (r_Token r) n (sl_world s) = (w1, logs, res)"
    by (metis prod_cases3)
  have rest: "push_alone disp (sl_tokens ?s1) (sl_world ?s1)
      (Sends \<lparr>pl_notif = n, pl_total = t, pl_left = rs, pl_sent = sl_sent ?s1, pl_failed = sl_failed ?s1\<rparr>)
      (sl_tokens s') (sl_world s') (counts_response t (sl_sent s') (sl_failed s'))"
    using Cons.prems by (intro Cons.IH) (simp add: id_def)
  show ?case
  proof (cases res)
    case None
    with d have s1: "sl_tokens ?s1 = sl_tokens s" "sl_world ?s1 = w1" "sl_sent ?s1 = Suc (sl_sent s)"
      "sl_failed ?s1 = sl_failed s" by (simp_all add: send_round_def)
    have "push_step disp (sl_tokens s) (sl_world s) (Sends ?l) (SentTo r) (sl_tokens s) w1
        (Sends (?l\<lparr>pl_left := rs, pl_sent := Suc (pl_sent ?l)\<rparr>))"
      using d None by (intro push_step.sent) simp_all
    from push_alone.turn [OF this] rest show ?thesis by (simp add: s1)
  next
    case (Some err)
    let ?l1 = "\<lparr>pl_notif = n, pl_total = t, pl_left = rs, pl_sent = sl_sent s, pl_failed = Suc (sl_failed s)\<rparr>"
    from d Some have s1: "sl_tokens ?s1 = MarkFailure (sl_tokens s) (r_DeviceID r) (ctx_now (ctx r))"
      "sl_world ?s1 = w1" "sl_sent ?s1 = sl_sent s" "sl_failed ?s1 = Suc (sl_failed s)"
      by (simp_all add: send_round_def)
    have miss: "push_step disp (sl_tokens s) (sl_world s) (Sends ?l) (MissedBy r err) (sl_tokens s) w1
        (Marks r err (?l\<lparr>pl_left := rs, pl_failed := Suc (pl_failed ?l)\<rparr>))"
      using d Some by (intro push_step.missed) simp_all
    have "push_alone disp (sl_tokens s) w1 (Marks r err ?l1)
        (sl_tokens s') (sl_world s') (counts_response t (sl_sent s') (sl_failed s'))"
      by (rule push_alone.turn [OF push_step.marked [where now = "ctx_now (ctx r)"]]) (use rest in \<open>simp add: s1\<close>)
    with push_alone.turn [OF miss] show ?thesis by simp
  qed
qed

text \<open>The sequential \<open>pushSend\<close> is a run of the steps that nobody interferes with.\<close>

lemma pushSend_is_alone:
  assumes "pushSend disp ctx (\<lambda>_. id) ks rq m w = (s, resp)"
  shows "push_alone disp m w (start_push ks rq m) (sl_tokens s) (sl_world s) resp"
proof -
  have "push_alone disp m w (Sends \<lparr>pl_notif = n, pl_total = t, pl_left = rs, pl_sent = 0, pl_failed = 0\<rparr>)
      (sl_tokens s') (sl_world s') (counts_response t (sl_sent s') (sl_failed s'))"
    if "s' = fold (send_round disp n ctx (\<lambda>_. id)) rs (start_loop m w)" for n t rs s'
    using loop_alone [OF that, of t] by (simp add: start_loop_def)
  with assms show ?thesis
    by (auto simp: pushSend_def start_push_def Let_def start_loop_def intro: push_alone.over
        split: if_splits option.splits)
qed

end
