(* ===== verification/Relay_Main.thy ===== *)
theory Relay_Main
  imports Push_Concurrent Signaling Ws_Relay
begin

text \<open>
  The relay as a whole (\<open>cmd/chepherd-relay/main.go\<close>): its state, \<open>newRelay\<close>, the handlers of
  health and statistics, the route table with the \<open>protect\<close> wrapper, the entry of a WebSocket
  connection, and the way of a request through the layers of \<open>main\<close>: observability, multiplexer,
  authentication, handler.
\<close>

section \<open>State\<close>

record 'w relay =
  r_signaling :: signaling
  startedAt :: time
  r_registry :: memory
  r_pushTokens :: push_memory
  r_pushDispatcher :: "'w dispatcher"
  r_wsHub :: hub

definition newRelay ::
    "time \<Rightarrow> environment \<Rightarrow> ('k, 'c, 'a, 'w) outside \<Rightarrow> (('k, 'c) apns_config \<Rightarrow> 'w apns_client) \<Rightarrow> 'w relay" where
  "newRelay now env out apns =
     \<lparr>r_signaling = new_signaling, startedAt = now, r_registry = NewMemory,
      r_pushTokens = NewPushMemory,
      r_pushDispatcher = multi_dispatcher (push_FromEnv env out apns), r_wsHub = new_hub\<rparr>"

section \<open>Health and statistics\<close>

definition Version :: string where
  "Version = ''0.2.0-rc3''"

text \<open>\<open>int(d.Seconds())\<close>: whole seconds, towards zero.\<close>

definition whole_seconds :: "int \<Rightarrow> int" where
  "whole_seconds d = (if d < 0 then - (- d div 1000000000) else d div 1000000000)"

definition health :: "time \<Rightarrow> 'w relay \<Rightarrow> response" where
  "health now r = writeJSON StatusOK (JObj
     [(''status'', jstr ''ok''), (''uptime_sec'', jint (whole_seconds (time_sub now (startedAt r)))),
      (''version'', jstr Version)])"

text \<open>\<open>ks\<close> is the order in which the hub's rooms are met.\<close>

definition stats :: "time \<Rightarrow> string list \<Rightarrow> 'w relay \<Rightarrow> response" where
  "stats now ks r =
     (let s = r_signaling r; ws = ws_Stats (r_wsHub r) ks in
      writeJSON StatusOK (JObj
        [(''candidate_queues'', jint (int (card (dom (candidateQueues s))))),
         (''pending_answer_channels'', jint (int (card (dom (pendingAnswers s))))),
         (''pending_offer_queues'', jint (int (card (dom (pendingOffers s))))),
         (''uptime_sec'', jint (whole_seconds (time_sub now (startedAt r)))),
         (''version'', jstr Version),
         (''ws_open_client_ws'', jint (int (OpenClientWs ws))),
         (''ws_open_rooms'', jint (int (OpenRooms ws))),
         (''ws_rooms_with_daemon'', jint (int (RoomsWithDaemon ws)))]))"

section \<open>Routes\<close>

datatype route =
    RHealth | RStats | RSignal endpoint | RRegister | RBastions | RPushRegister | RPushSend | RWs

definition routes :: "(string \<times> route) list" where
  "routes =
     [(''/v1/health'', RHealth), (''/v1/stats'', RStats),
      (''/v1/signaling/initiate'', RSignal EInitiate), (''/v1/signaling/poll'', RSignal EPoll),
      (''/v1/signaling/answer'', RSignal EAnswer), (''/v1/signaling/offer'', RSignal EOffer),
      (''/v1/signaling/candidate'', RSignal ECandidate),
      (''/v1/signaling/candidates'', RSignal ECandidates),
      (''/v1/register'', RRegister), (''/v1/bastions'', RBastions),
      (''/v1/push/register'', RPushRegister), (''/v1/push/send'', RPushSend),
      (''/v1/signaling/ws'', RWs)]"

text \<open>The two routes that \<open>main\<close> does not wrap with \<open>protect\<close>.\<close>

definition open_routes :: "route set" where
  "open_routes = {RHealth, RStats}"

definition protect ::
    "'w auth_lib \<Rightarrow> clocks \<Rightarrow> claims request \<Rightarrow> verifier option \<Rightarrow> 'w \<Rightarrow> verifier option \<times> 'w \<times> gate" where
  "protect lib t rq verifier w =
     (case verifier of
        None \<Rightarrow> (None, w, Passed rq)
      | Some v \<Rightarrow> (case auth_Middleware lib t rq v w of (v', w', g) \<Rightarrow> (Some v', w', g)))"

text \<open>The verifier exists when a key-set URL is configured.\<close>

definition main_verifier :: "string \<Rightarrow> string \<Rightarrow> string \<Rightarrow> verifier option" where
  "main_verifier jwksURL issuer audience =
     (if jwksURL \<noteq> [] then Some (NewVerifier jwksURL issuer audience) else None)"

definition not_found :: response where
  "not_found = http_error ''404 page not found'' StatusNotFound"

datatype dispatched = Answered response | Enter route "claims request"

definition mux ::
    "'w auth_lib \<Rightarrow> clocks \<Rightarrow> claims request \<Rightarrow> verifier option \<Rightarrow> 'w \<Rightarrow> verifier option \<times> 'w \<times> dispatched" where
  "mux lib t rq verifier w =
     (case map_of routes (rq_path rq) of
        None \<Rightarrow> (verifier, w, Answered not_found)
      | Some rt \<Rightarrow>
          if rt \<in> open_routes then (verifier, w, Enter rt rq)
          else (case protect lib t rq verifier w of
             (v', w', Refused r) \<Rightarrow> (v', w', Answered r)
           | (v', w', Passed rq') \<Rightarrow> (v', w', Enter rt rq')))"

section \<open>WebSocket connections\<close>

text \<open>
  \<open>accept\<close> is \<open>websocket.Accept\<close>: whether the connection is upgraded, given the type of the
  writer, the request and the subprotocols; when it is not, it has answered the request itself.
  The result is the hub and the room joined, or the response of a rejected request.
\<close>

datatype ws_entry = WsRejected response | WsNotUpgraded | WsJoined string nat

definition HandleHTTP ::
    "(writer_type \<Rightarrow> 'c request \<Rightarrow> string list \<Rightarrow> bool) \<Rightarrow> writer_type \<Rightarrow> nat \<Rightarrow> 'c request \<Rightarrow> hub \<Rightarrow>
     hub \<times> ws_entry" where
  "HandleHTTP accept wt c rq h =
     (case HandleHTTP_start rq of
        Reject r \<Rightarrow> (h, WsRejected r)
      | Upgrade role b cid subs \<Rightarrow>
          if accept wt rq subs then
            (let (h', r) = joinRoom (h\<lparr>conn_at := (conn_at h)(c := \<lparr>c_role = role, c_clientID = cid\<rparr>)\<rparr>) b c
             in (h', WsJoined b r))
          else (h, WsNotUpgraded))"

section \<open>A request through all layers\<close>

text \<open>
  What a request meets when it is served: clocks, the random bytes, the orders of the map loops,
  the process id, the address of a new connection, and \<open>websocket.Accept\<close>.
\<close>

record moment =
  mo_now :: time
  mo_clocks :: clocks
  mo_entropy :: entropy
  mo_bastions :: "string list"
  mo_devices :: "string list"
  mo_rooms :: "string list"
  mo_ctx :: "registration \<Rightarrow> send_ctx"
  mo_pid :: int
  mo_conn :: nat
  mo_accept :: "writer_type \<Rightarrow> claims request \<Rightarrow> string list \<Rightarrow> bool"

text \<open>What a handler leaves: a response, or a goroutine that goes on by itself.\<close>

datatype served =
    Replied response
  | Waiting handler
  | Socket ws_entry
  | Pushes pushing
  | Registers string string \<comment> \<open>the look-up of this bastion, for this token, is left to do\<close>

text \<open>The handler of a route. The writer is the one the observability middleware passes on.\<close>

definition run_route ::
    "moment \<Rightarrow> route \<Rightarrow> claims request \<Rightarrow> 'w relay \<Rightarrow> 'w \<Rightarrow> 'w relay \<times> 'w \<times> served" where
  "run_route mo rt rq r w =
     (case rt of
        RHealth \<Rightarrow> (r, w, Replied (health (mo_now mo) r))
      | RStats \<Rightarrow> (r, w, Replied (stats (mo_now mo) (mo_rooms mo) r))
      | RSignal ep \<Rightarrow>
          (let (s, h) = start_handler (mo_pid mo) (mo_now mo) ep rq (r_signaling r)
           in (r\<lparr>r_signaling := s\<rparr>, w, Waiting h))
      | RRegister \<Rightarrow>
          (let (m, resp) = registerBastion (mo_entropy mo) (mo_now mo) id rq (r_registry r)
           in (r\<lparr>r_registry := m\<rparr>, w, Replied resp))
      | RBastions \<Rightarrow> (r, w, Replied (listMyBastions (mo_bastions mo) rq (r_registry r)))
      | RPushRegister \<Rightarrow>
          (let (m, resp) = pushRegister (mo_now mo) rq (r_pushTokens r)
           in (r\<lparr>r_pushTokens := m\<rparr>, w, Replied resp))
      | RPushSend \<Rightarrow>
          (let (s, resp) = pushSend (r_pushDispatcher r) (mo_ctx mo) (\<lambda>_. id) (mo_devices mo) rq (r_pushTokens r) w
           in (r\<lparr>r_pushTokens := sl_tokens s\<rparr>, sl_world s, Replied resp))
      | RWs \<Rightarrow>
          (let (h, e) = HandleHTTP (mo_accept mo) (wrapped_writer ServerWriter) (mo_conn mo) rq (r_wsHub r)
           in (r\<lparr>r_wsHub := h\<rparr>, w, Socket e)))"

definition serve ::
    "'w auth_lib \<Rightarrow> moment \<Rightarrow> claims request \<Rightarrow> verifier option \<Rightarrow> 'w relay \<Rightarrow> 'w \<Rightarrow>
     verifier option \<times> 'w relay \<times> 'w \<times> served" where
  "serve lib mo rq verifier r w =
     (case mux lib (mo_clocks mo) rq verifier w of
        (v', w', Answered resp) \<Rightarrow> (v', r, w', Replied resp)
      | (v', w', Enter rt rq') \<Rightarrow>
          (case run_route mo rt rq' r w' of (r', w'', out) \<Rightarrow> (v', r', w'', out)))"

end
