(* ===== verification/Relay_Push_Theorems.thy ===== *)
theory Relay_Push_Theorems
  imports Relay_Handlers Json_Wire
begin

text \<open>
  Properties of the push and registration handlers of \<open>cmd/chepherd-relay/main.go\<close>: the
  accounting of a notification, the devices marked, the lifetime asked for, who owns a device,
  and the token a registration returns.
\<close>

section \<open>The loop over the devices\<close>

text \<open>The devices whose send failed, with the world threaded through the sends.\<close>

fun failures ::
    "'w dispatcher \<Rightarrow> notification \<Rightarrow> (registration \<Rightarrow> send_ctx) \<Rightarrow> registration list \<Rightarrow> 'w \<Rightarrow> registration list" where
  "failures disp n ctx [] w = []"
| "failures disp n ctx (r # rs) w =
     (case d_Send disp (ctx r) (r_Token r) n w of
        (w', _, res) \<Rightarrow> (if res = None then [] else [r]) @ failures disp n ctx rs w')"

lemma failures_subset: "set (failures disp n ctx rs w) \<subseteq> set rs"
  by (induction rs arbitrary: w) (auto split: prod.split)

lemma send_round_parts:
  assumes "d_Send disp (ctx r) (r_Token r) n (sl_world s) = (w', log, res)"
  shows "sl_world (send_round disp n ctx mw r s) = w'"
    and "sl_sent (send_round disp n ctx mw r s) + sl_failed (send_round disp n ctx mw r s) =
      Suc (sl_sent s + sl_failed s)"
    and "sl_failed (send_round disp n ctx mw r s) = sl_failed s + (if res = None then 0 else 1)"
    and "length (sl_captured (send_round disp n ctx mw r s)) =
      length (sl_captured s) + (if res = None then 0 else 1)"
    and "sl_tokens (send_round disp n ctx mw r s) =
      (if res = None then mw r (sl_tokens s)
       else MarkFailure (mw r (sl_tokens s)) (r_DeviceID r) (ctx_now (ctx r)))"
  using assms by (auto simp: send_round_def Let_def split: option.split)

lemma send_loop_counts:
  "sl_sent (fold (send_round disp n ctx mw) rs s) + sl_failed (fold (send_round disp n ctx mw) rs s) =
     sl_sent s + sl_failed s + length rs \<and>
   sl_failed (fold (send_round disp n ctx mw) rs s) =
     sl_failed s + length (failures disp n ctx rs (sl_world s)) \<and>
   length (sl_captured (fold (send_round disp n ctx mw) rs s)) =
     length (sl_captured s) + length (failures disp n ctx rs (sl_world s))"
proof (induction rs arbitrary: s)
  case (Cons r rs)
  obtain w' log res where d: "d_Send disp (ctx r) (r_Token r) n (sl_world s) = (w', log, res)"
    by (metis prod_cases3)
  show ?case
    using Cons [of "send_round disp n ctx mw r s"] send_round_parts [where ctx = ctx and r = r, OF d, of mw] by (simp add: d)
qed simp

definition mark_all :: "(registration \<Rightarrow> send_ctx) \<Rightarrow> registration list \<Rightarrow> push_memory \<Rightarrow> push_memory" where
  "mark_all ctx rs m = fold (\<lambda>r m. MarkFailure m (r_DeviceID r) (ctx_now (ctx r))) rs m"

lemma send_loop_tokens:
  "sl_tokens (fold (send_round disp n ctx (\<lambda>_. id)) rs s) =
     mark_all ctx (failures disp n ctx rs (sl_world s)) (sl_tokens s)"
proof (induction rs arbitrary: s)
  case (Cons r rs)
  obtain w' log res where d: "d_Send disp (ctx r) (r_Token r) n (sl_world s) = (w', log, res)"
    by (metis prod_cases3)
  show ?case
    using Cons [of "send_round disp n ctx (\<lambda>_. id) r s"] send_round_parts(1,5) [where ctx = ctx and r = r, OF d, of "\<lambda>_. id"]
    by (simp add: d mark_all_def id_def)
qed (simp add: mark_all_def)

lemma mark_all_regs:
  assumes "push_inv m" and "\<And>r. r \<in> set rs \<Longrightarrow> regs m (r_DeviceID r) = Some r"
    and "distinct (map r_DeviceID rs)"
  shows "regs (mark_all ctx rs m) d =
    (case regs m d of None \<Rightarrow> None
     | Some r \<Rightarrow> if r \<in> set rs then Some (r\<lparr>r_LastFailureAt := ctx_now (ctx r)\<rparr>) else Some r)"
  using assms
proof (induction rs arbitrary: m)
  case (Cons x xs)
  let ?m = "MarkFailure m (r_DeviceID x) (ctx_now (ctx x))"
  have x: "regs m (r_DeviceID x) = Some x" using Cons.prems(2) by simp
  then have m: "regs ?m = (regs m)(r_DeviceID x \<mapsto> x\<lparr>r_LastFailureAt := ctx_now (ctx x)\<rparr>)"
    by (simp add: MarkFailure_def)
  have "regs ?m (r_DeviceID r) = Some r" if "r \<in> set xs" for r
  proof -
    have "r_DeviceID r \<in> r_DeviceID ` set xs" using that by simp
    then have "r_DeviceID r \<noteq> r_DeviceID x" using Cons.prems(3) by auto
    then show ?thesis using Cons.prems(2) that by (simp add: m)
  qed
  from Cons.IH [OF push_inv_MarkFailure [OF Cons.prems(1)] this] Cons.prems(3)
  have ih: "regs (mark_all ctx xs ?m) d =
    (case regs ?m d of None \<Rightarrow> None
     | Some r \<Rightarrow> if r \<in> set xs then Some (r\<lparr>r_LastFailureAt := ctx_now (ctx r)\<rparr>) else Some r)" by simp
  have notin: "x\<lparr>r_LastFailureAt := t\<rparr> \<notin> set xs" for t
    using Cons.prems(3) by (auto simp: image_iff)
  have all: "mark_all ctx (x # xs) m = mark_all ctx xs ?m" by (simp add: mark_all_def)
  show ?case
  proof (cases "d = r_DeviceID x")
    case True
    with ih x notin show ?thesis by (simp add: all m)
  next
    case False
    then have "regs ?m d = regs m d" by (simp add: m)
    moreover have "r \<noteq> x" if "regs m d = Some r" for r
      using that False Cons.prems(1) by (auto simp: push_inv_def)
    ultimately show ?thesis using ih by (simp add: all split: option.splits)
  qed
qed (simp add: mark_all_def split: option.split)

lemma failures_distinct:
  "distinct (map r_DeviceID rs) \<Longrightarrow> distinct (map r_DeviceID (failures disp n ctx rs w))"
proof (induction rs arbitrary: w)
  case (Cons r rs)
  obtain w' log res where d: "d_Send disp (ctx r) (r_Token r) n w = (w', log, res)" by (metis prod_cases3)
  show ?case using Cons.IH [of w'] Cons.prems failures_subset [of disp n ctx rs w']
    by (auto simp: d)
qed simp

section \<open>Sending\<close>

definition zero_send_body :: push_send_body where
  "zero_send_body = \<lparr>ps_Title = [], ps_Body = [], ps_Sound = [], ps_Priority = [], ps_SessionUUID = [],
     ps_CollapseKey = [], ps_TTLSeconds = 0\<rparr>"

lemma pushSend_accepted:
  assumes "rq_method rq = ''POST''" and "ClaimsFromContext rq = Some c"
    and "decode_body push_send_fields zero_send_body rq = Some bdy"
  shows "pushSend disp ctx mw ks rq m w =
    (let s = fold (send_round disp (notification_of bdy) ctx mw) (ListTokens m ks (UserID c)) (start_loop m w)
     in (s, counts_response (length (ListTokens m ks (UserID c))) (sl_sent s) (sl_failed s)))"
  using assms by (simp add: pushSend_def zero_send_body_def Let_def)

text \<open>
  An accepted request to send reports how many of the user's devices it tried, reached and
  missed: the last two add up to the first, and each miss was captured once, whatever the
  providers answer and whatever other requests do to the registry meanwhile.
\<close>

theorem pushSend_accounts:
  assumes "rq_method rq = ''POST''" and "ClaimsFromContext rq = Some c"
    and "decode_body push_send_fields zero_send_body rq = Some bdy"
    and "pushSend disp ctx mw ks rq m w = (s, resp)"
  shows "resp = counts_response (length (ListTokens m ks (UserID c))) (sl_sent s) (sl_failed s) \<and>
    sl_sent s + sl_failed s = length (ListTokens m ks (UserID c)) \<and>
    length (sl_captured s) = sl_failed s"
  using assms(4) send_loop_counts [of disp "notification_of bdy" ctx mw "ListTokens m ks (UserID c)" "start_loop m w"]
  unfolding pushSend_accepted [OF assms(1-3)] Let_def by (auto simp: start_loop_def)

text \<open>
  After an accepted request to send, exactly the devices of the user whose send failed carry
  the time of that failure; every other registration, of this user or another, is as it was.
\<close>

theorem pushSend_marks_failures:
  assumes "rq_method rq = ''POST''" and "ClaimsFromContext rq = Some c"
    and "decode_body push_send_fields zero_send_body rq = Some bdy"
    and "push_inv m" and "enumerates ks (regs m)"
  shows "regs (sl_tokens (fst (pushSend disp ctx (\<lambda>_. id) ks rq m w))) d =
    (case regs m d of None \<Rightarrow> None
     | Some r \<Rightarrow>
         if r \<in> set (failures disp (notification_of bdy) ctx (ListTokens m ks (UserID c)) w)
         then Some (r\<lparr>r_LastFailureAt := ctx_now (ctx r)\<rparr>) else Some r)"
proof -
  let ?rs = "ListTokens m ks (UserID c)"
  let ?fs = "failures disp (notification_of bdy) ctx ?rs w"
  have "regs m (r_DeviceID r) = Some r" if "r \<in> set ?fs" for r
  proof -
    have "r \<in> set ?rs" using that failures_subset by fastforce
    then show ?thesis
      using assms(4) unfolding tokens.list_set [OF assms(5)] by (auto simp: push_inv_def)
  qed
  moreover have "distinct (map r_DeviceID ?fs)"
    by (rule failures_distinct [OF tokens.list_distinct_devices [OF assms(4,5)]])
  ultimately have "regs (mark_all ctx ?fs m) d =
    (case regs m d of None \<Rightarrow> None
     | Some r \<Rightarrow> if r \<in> set ?fs then Some (r\<lparr>r_LastFailureAt := ctx_now (ctx r)\<rparr>) else Some r)"
    by (intro mark_all_regs assms(4))
  then show ?thesis
    by (simp add: pushSend_accepted [OF assms(1-3)] Let_def send_loop_tokens start_loop_def)
qed

section \<open>Sending without a backend\<close>

text \<open>What the loop does through any dispatcher that keeps the contract, when its sends are disabled.\<close>

context push_sender
begin

definition off :: "notification \<Rightarrow> (registration \<Rightarrow> send_ctx) \<Rightarrow> registration \<Rightarrow> bool" where
  "off n ctx r \<longleftrightarrow> (\<forall>w. \<exists>w' ls err. send (ctx r) (r_Token r) n w = (w', ls, Some err) \<and> is_disabled err)"

lemma off_send:
  assumes "off n ctx r"
  obtains ls err where "send (ctx r) (r_Token r) n w = (w, ls, Some err)"
  using assms disabled_untouched unfolding off_def by metis

lemma loop_all_off:
  assumes "d_Send disp = send" and "\<And>r. r \<in> set rs \<Longrightarrow> off n ctx r"
  shows "sl_world (fold (send_round disp n ctx mw) rs s) = sl_world s \<and>
    sl_sent (fold (send_round disp n ctx mw) rs s) = sl_sent s \<and>
    sl_failed (fold (send_round disp n ctx mw) rs s) = sl_failed s + length rs"
  using assms(2)
proof (induction rs arbitrary: s)
  case (Cons r rs)
  obtain ls err where d: "d_Send disp (ctx r) (r_Token r) n (sl_world s) = (sl_world s, ls, Some err)"
    using off_send [of n ctx r "sl_world s"] Cons.prems assms(1) by auto
  show ?case
    using Cons.IH [of "send_round disp n ctx mw r s"] Cons.prems
      send_round_parts(1-3) [where ctx = ctx and r = r, OF d, of mw] by simp
qed simp

end

text \<open>
  Without credentials in its environment, the relay answers an accepted request to send by
  reporting every device of the user as failed and none as sent, and reaches no provider.
\<close>

theorem unconfigured_pushSend:
  assumes "env ''CHEPHERD_RELAY_APNS_KEY_PATH'' = []" and "env ''CHEPHERD_RELAY_APNS_CERT_PATH'' = []"
    and "env ''CHEPHERD_RELAY_FCM_CRED_PATH'' = []"
    and "rq_method rq = ''POST''" and "ClaimsFromContext rq = Some c"
    and "decode_body push_send_fields zero_send_body rq = Some bdy"
    and "pushSend (multi_dispatcher (push_FromEnv env out apns)) ctx mw ks rq m w = (s, resp)"
  shows "sl_world s = w \<and>
    resp = counts_response (length (ListTokens m ks (UserID c))) 0 (length (ListTokens m ks (UserID c)))"
proof -
  let ?disp = "multi_dispatcher (push_FromEnv env out apns)"
  have "push_sender.off (multi_Send (push_FromEnv env out apns)) n ctx r" for n r
    unfolding env.off_def by (simp add: push_unconfigured [of env, OF assms(1-3)])
  from env.loop_all_off [where disp = ?disp and rs = "ListTokens m ks (UserID c)" and s = "start_loop m w", OF _ this]
  show ?thesis
    using assms(7) unfolding pushSend_accepted [OF assms(4-6)] Let_def
    by (auto simp: multi_dispatcher_def start_loop_def)
qed

section \<open>The lifetime asked for\<close>

text \<open>
  The lifetime in nanoseconds is exact for up to 9223372036 seconds either way; the
  product wraps for every larger request.
\<close>

theorem ttl_exact_iff:
  "sint (seconds n) = sint n * 1000000000 \<longleftrightarrow> sint n \<in> {- 9223372036..9223372036}"
proof -
  have "sint (seconds n) = signed_take_bit 63 (sint n * sint (1000000000 :: int64))"
    unfolding seconds_def sint_word_mult by simp
  then have "sint (seconds n) = signed_take_bit 63 (sint n * 1000000000)" by simp
  moreover have "signed_take_bit 63 (sint n * 1000000000) = sint n * 1000000000 \<longleftrightarrow>
      - (2 ^ 63) \<le> sint n * 1000000000 \<and> sint n * 1000000000 < 2 ^ 63"
    by (rule signed_take_bit_int_eq_self_iff)
  ultimately show ?thesis by (simp only: atLeastAtMost_iff) (simp, linarith)
qed

text \<open>
  One second more than that and the notification for APNs has no expiration at all, as if no
  lifetime had been asked for.
\<close>

theorem ttl_overflow_drops_expiration:
  "an_Expiration (apns_envelope now tok (notification_of (bdy\<lparr>ps_TTLSeconds := 9223372037\<rparr>))) = None"
  by (simp add: apns_envelope_def notification_of_def seconds_def word_sless_alt)

section \<open>Who owns a device\<close>

definition zero_register_body :: push_register_body where
  "zero_register_body = \<lparr>pr_DeviceID = [], pr_Platform = [], pr_Value = [], pr_BundleID = []\<rparr>"

lemma pushRegister_outcome:
  "pushRegister now rq m = (m', resp) \<Longrightarrow>
     m' = m \<and> status resp \<in> {400, 401, 405} \<or>
     (\<exists>c bdy plat. ClaimsFromContext rq = Some c \<and> decode_body push_register_fields zero_register_body rq = Some bdy \<and>
        parse_platform (pr_Platform bdy) = Some plat \<and> pr_DeviceID bdy \<noteq> [] \<and> pr_Value bdy \<noteq> [] \<and>
        status resp = 200 \<and>
        m' = Upsert m \<lparr>r_UserID = UserID c, r_DeviceID = pr_DeviceID bdy,
            r_Token = \<lparr>t_Platform = plat, t_Value = pr_Value bdy, t_BundleID = pr_BundleID bdy\<rparr>,
            r_UpdatedAt = zero_time, r_LastFailureAt = zero_time\<rparr> now)"
  unfolding zero_register_body_def
  by (auto simp: pushRegister_def split: if_splits option.splits)

text \<open>
  A successful registration gives the device to the caller, whoever held it before: the
  caller's list has it and no other user's list does. (The handler does not look at the old
  owner, unlike the registration of a bastion.)
\<close>

theorem device_goes_to_caller:
  assumes "pushRegister now rq m = (m', resp)" and "status resp = 200"
    and "ClaimsFromContext rq = Some c"
    and "decode_body push_register_fields zero_register_body rq = Some bdy"
    and "push_inv m" and "enumerates ks (regs m')" and "u \<noteq> UserID c"
  shows "pr_DeviceID bdy \<in> r_DeviceID ` set (ListTokens m' ks (UserID c)) \<and>
    pr_DeviceID bdy \<notin> r_DeviceID ` set (ListTokens m' ks u)"
proof -
  obtain r where m': "m' = Upsert m r now" and r: "r_UserID r = UserID c" "r_DeviceID r = pr_DeviceID bdy"
    using pushRegister_outcome [OF assms(1)] assms(2-4) by auto
  from assms(6) have ks: "enumerates ks (regs (Upsert m r now))" by (simp add: m')
  from tokens.upsert_then_list(1) [OF ks] have "r_DeviceID (r\<lparr>r_UpdatedAt := now\<rparr>) \<in>
      r_DeviceID ` set (ListTokens m' ks (UserID c))"
    unfolding m' r(1) by blast
  with tokens.upsert_then_list(2) [OF ks assms(5), of u] r assms(7) show ?thesis by (simp add: m')
qed

section \<open>The token of a registration\<close>

lemma VerifyDaemonToken_after_Register:
  assumes "reg_inv m" and "Register m b ent now = (m', Inr tok)"
  shows "\<exists>r. VerifyDaemonToken m' tok = Inr r \<and> Get m' (b_ID b) = Inr r \<and> b_UserID r = b_UserID b \<and>
    b_ID r = b_ID b \<and> b_DaemonToken r = []"
proof (cases rule: Register_cases [of b m ent now])
  case (rotate p t)
  with assms mint_token_not_Nil [OF rotate(5)] reg_invD(2) [OF assms(1) rotate(3)] show ?thesis
    by (auto simp: VerifyDaemonToken_def Get_def)
next
  case (new t)
  with assms mint_token_not_Nil [OF new(4)] show ?thesis
    by (auto simp: VerifyDaemonToken_def Get_def)
qed (use assms(2) in simp_all)

text \<open>What a daemon reads of the response: the member \<open>daemon_token\<close>.\<close>

definition read_token :: "response \<Rightarrow> string option" where
  "read_token resp =
     Option.bind (read_response resp) (dec_struct [fld ''daemon_token'' (\<lambda>s. s) (\<lambda>f. f) dec_string] [])"

lemma bastion_keys: "lit_ok ''id''" "lit_ok ''user_id''" "lit_ok ''last_seen_at''" "lit_ok ''created_at''"
  "lit_ok ''chepherd_version''" "lit_ok ''capabilities''" "lit_ok ''hostname''" "lit_ok ''bastion''"
  "lit_ok ''daemon_token''"
  by (simp_all add: lit_ok_plain plain_char_def octet_def)

lemma depth_jstrs: "foldr max (map jdepth (map jstr xs)) 0 = 0"
  by (induction xs) simp_all

lemma bastion_json_wf: "wf_json (bastion_json b)" "jdepth (bastion_json b) \<le> 2"
proof -
  have "list_all wf_json (map jstr xs)" for xs by (simp add: list_all_iff)
  then show "wf_json (bastion_json b)" by (simp add: bastion_json_def bastion_keys)
  show "jdepth (bastion_json b) \<le> 2" using depth_jstrs [of "b_Capabilities b"] by (simp add: bastion_json_def)
qed

lemma valid_token: "mint_token e = Inr tok \<Longrightarrow> valid_utf8 tok"
proof (rule valid_ascii_text)
  assume "mint_token e = Inr tok"
  then obtain bs where "tok = ''chep_'' @ hex_encode bs" by (auto simp: mint_token_def split: sum.splits)
  moreover have "\<forall>c \<in> set ''0123456789abcdef''. octet c < 128" by (simp add: octet_def)
  ultimately show "\<forall>c \<in> set tok. octet c < 128"
    using hex_encode_chars [of bs] by (auto simp: octet_def)
qed

lemma minted_by_Register: "Register m b ent now = (m', Inr tok) \<Longrightarrow> mint_token ent = Inr tok"
  by (auto simp: Register_def Let_def split: if_splits option.splits sum.splits)

lemma token_is_read:
  assumes "valid_utf8 tok"
  shows "read_token (writeJSON 200 (JObj [(''bastion'', bastion_json r), (''daemon_token'', jstr tok)])) = Some tok"
proof -
  let ?j = "JObj [(''bastion'', bastion_json r), (''daemon_token'', jstr tok)]"
  have "wf_json ?j" using bastion_json_wf by (simp add: bastion_keys)
  moreover have "jdepth ?j \<le> maxNestingDepth" using bastion_json_wf(2) [of r] by simp
  moreover have "html_escape ''bastion'' = ''bastion''" "html_escape ''daemon_token'' = ''daemon_token''"
    by code_simp+
  ultimately have "read_response (writeJSON 200 ?j) =
      Some (JObj [(''bastion'', esc_json (bastion_json r)), (''daemon_token'', esc_json (jstr tok))])"
    by (simp add: read_writeJSON)
  moreover have "unquote ''bastion'' = ''bastion''" "unquote ''daemon_token'' = ''daemon_token''"
    by (simp_all add: plain_reading)
  moreover have "fold_name ''daemon_token'' \<noteq> fold_name ''bastion''"
    by (subst (1 2) fold_name_ascii) (simp_all add: upper_def octet_def del: fold_name.simps)
  then have "find_field [fld ''daemon_token'' (\<lambda>s. s) (\<lambda>f. f) dec_string] ''bastion'' = None"
    by (simp add: find_field_def fld_def del: fold_name.simps)
  moreover have
    "find_field [fld ''daemon_token'' (\<lambda>s. s) (\<lambda>f. f) dec_string] ''daemon_token'' =
       Some (\<lambda>r j. map_option (\<lambda>x. x) (dec_string r j))"
    by (simp add: find_field_def fld_def)
  moreover have "dec_string [] (esc_json (jstr tok)) = Some tok" using assms by (simp add: dec_string_esc to_valid_id)
  ultimately show ?thesis
    unfolding read_token_def by (simp only: bind.bind_lunit dec_struct.simps dec_members.simps option.case option.map)
qed

text \<open>
  C31: A successful registration answers with a token that the registry accepts at once, for a
  bastion of the caller, and with that bastion without its token; the token a daemon reads from
  the bytes of the response is that token.
\<close>

theorem registration_token_works:
  assumes "reg_inv m" and "registerBastion ent now id rq m = (m', resp)" and "status resp = 200"
  shows "\<exists>tok r c. resp = writeJSON 200 (JObj [(''bastion'', bastion_json r), (''daemon_token'', jstr tok)]) \<and>
    read_token resp = Some tok \<and> VerifyDaemonToken m' tok = Inr r \<and> b_DaemonToken r = [] \<and>
    ClaimsFromContext rq = Some c \<and> b_UserID r = UserID c"
proof -
  obtain c where c: "ClaimsFromContext rq = Some c"
    using assms(2,3) by (auto simp: registerBastion_def split: if_splits option.splits)
  obtain bdy where bdy: "decode_body register_fields
      \<lparr>rb_ID = [], rb_Capabilities = [], rb_ChepherdVersion = [], rb_Hostname = []\<rparr> rq = Some bdy"
    using assms(2,3) c by (auto simp: registerBastion_def split: if_splits option.splits)
  let ?b = "zero_bastion\<lparr>b_ID := rb_ID bdy, b_UserID := UserID c,
      b_ChepherdVersion := rb_ChepherdVersion bdy, b_Capabilities := rb_Capabilities bdy, b_Hostname := rb_Hostname bdy\<rparr>"
  obtain m1 res where reg: "Register m ?b ent now = (m1, res)" by (cases "Register m ?b ent now")
  obtain tok where tok: "res = Inr tok"
    using assms(2,3) c bdy reg
    by (cases res) (auto simp: registerBastion_def Let_def split: if_splits)
  obtain r where r: "VerifyDaemonToken m1 tok = Inr r" "Get m1 (rb_ID bdy) = Inr r" "b_UserID r = UserID c"
    "b_DaemonToken r = []"
    using VerifyDaemonToken_after_Register [OF assms(1) reg [unfolded tok]] by auto
  have "(m', resp) = (m1, writeJSON 200 (JObj [(''bastion'', bastion_json r), (''daemon_token'', jstr tok)]))"
    using assms(2,3) c bdy reg tok r(2) by (auto simp: registerBastion_def Let_def split: if_splits)
  moreover have "read_token (writeJSON 200 (JObj [(''bastion'', bastion_json r), (''daemon_token'', jstr tok)])) = Some tok"
    by (rule token_is_read [OF valid_token [OF minted_by_Register [OF reg [unfolded tok]]]])
  ultimately show ?thesis using r c by blast
qed

section \<open>Witnesses\<close>

definition as_user :: "string \<Rightarrow> json \<Rightarrow> claims request" where
  "as_user u j =
     \<lparr>rq_method = ''POST'', rq_path = [], rq_query = [], rq_headers = [], rq_body = json_print j,
      rq_claims = Some (zero_claims\<lparr>UserID := u\<rparr>)\<rparr>"

definition demo_reg :: "string \<Rightarrow> platform \<Rightarrow> registration" where
  "demo_reg d p = \<lparr>r_UserID = ''alice'', r_DeviceID = d,
     r_Token = \<lparr>t_Platform = p, t_Value = ''v'', t_BundleID = []\<rparr>, r_UpdatedAt = 5, r_LastFailureAt = zero_time\<rparr>"

definition demo_devices :: push_memory where
  "demo_devices = \<lparr>regs = [''d1'' \<mapsto> demo_reg ''d1'' PlatformiOS, ''d2'' \<mapsto> demo_reg ''d2'' PlatformAndroid]\<rparr>"

text \<open>A dispatcher that refuses iOS and counts the sends.\<close>

definition demo_dispatcher :: "nat dispatcher" where
  "demo_dispatcher = \<lparr>d_Kind = ''multi'',
     d_Send = (\<lambda>ctx tok n w. (Suc w, [], if t_Platform tok = PlatformiOS then Some ErrBundleID else None))\<rparr>"

definition demo_send_ctx :: "registration \<Rightarrow> send_ctx" where
  "demo_send_ctx r = \<lparr>ctx_done = None, ctx_now = 77\<rparr>"

lemma as_user_simps [simp]:
  "rq_method (as_user u j) = ''POST''" "ClaimsFromContext (as_user u j) = Some (zero_claims\<lparr>UserID := u\<rparr>)"
  by (simp_all add: as_user_def ClaimsFromContext_def)

lemma as_user_decodes:
  "literal_json j \<Longrightarrow> decode_body fs z (as_user u j) = dec_struct fs z j"
  by (rule decode_body_literal) (simp_all add: as_user_def)

lemma demo_send_decoded:
  "decode_body push_send_fields zero_send_body (as_user u (JObj [])) = Some zero_send_body"
  by (simp add: as_user_decodes literal_empty)

lemma demo_inv: "push_inv demo_devices" "enumerates [''d1'', ''d2''] (regs demo_devices)"
  by (auto simp: push_inv_def demo_devices_def demo_reg_def enumerates_def)

lemma demo_listed:
  "ListTokens demo_devices [''d1'', ''d2''] ''alice'' = [demo_reg ''d1'' PlatformiOS, demo_reg ''d2'' PlatformAndroid]"
  by (simp add: ListTokens_def demo_devices_def demo_reg_def)

theorem pushSend_accounts_witness:
  "\<exists>s resp. pushSend demo_dispatcher demo_send_ctx (\<lambda>_. id) [''d1'', ''d2''] (as_user ''alice'' (JObj []))
      demo_devices 0 = (s, resp) \<and> sl_sent s + sl_failed s = 2"
proof -
  obtain s resp where p: "pushSend demo_dispatcher demo_send_ctx (\<lambda>_. id) [''d1'', ''d2'']
      (as_user ''alice'' (JObj [])) demo_devices 0 = (s, resp)"
    by (cases "pushSend demo_dispatcher demo_send_ctx (\<lambda>_. id) [''d1'', ''d2'']
      (as_user ''alice'' (JObj [])) demo_devices 0")
  from pushSend_accounts [OF _ _ demo_send_decoded p] have "sl_sent s + sl_failed s = 2"
    by (simp add: demo_listed)
  with p show ?thesis by blast
qed

theorem unconfigured_pushSend_witness:
  "\<exists>s resp. pushSend (multi_dispatcher (push_FromEnv (\<lambda>_. []) no_outside all_sent)) demo_send_ctx
      (\<lambda>_. id) [''d1'', ''d2''] (as_user ''alice'' (JObj [])) demo_devices () = (s, resp) \<and>
    resp = counts_response 2 0 2"
proof -
  let ?send = "pushSend (multi_dispatcher (push_FromEnv (\<lambda>_. []) no_outside all_sent))
      demo_send_ctx (\<lambda>_. id) [''d1'', ''d2''] (as_user ''alice'' (JObj [])) demo_devices ()"
  obtain s resp where p: "?send = (s, resp)" by (cases ?send)
  from unconfigured_pushSend [OF _ _ _ _ _ demo_send_decoded p] have "resp = counts_response 2 0 2"
    by (simp add: demo_listed numeral_2_eq_2)
  with p show ?thesis by blast
qed

theorem pushSend_marks_failures_witness:
  "map_option r_LastFailureAt (regs (sl_tokens (fst (pushSend demo_dispatcher demo_send_ctx (\<lambda>_. id)
      [''d1'', ''d2''] (as_user ''alice'' (JObj [])) demo_devices 0))) ''d1'') = Some 77"
proof -
  have f: "failures demo_dispatcher n demo_send_ctx [demo_reg ''d1'' PlatformiOS, demo_reg ''d2'' PlatformAndroid] 0 =
      [demo_reg ''d1'' PlatformiOS]" for n
    by (simp add: demo_dispatcher_def demo_reg_def)
  have "regs demo_devices ''d1'' = Some (demo_reg ''d1'' PlatformiOS)" by (simp add: demo_devices_def)
  then show ?thesis
    using pushSend_marks_failures [where c = "zero_claims\<lparr>UserID := ''alice''\<rparr>" and d = "''d1''" and w = 0
        and disp = demo_dispatcher and ctx = demo_send_ctx, OF _ _ demo_send_decoded demo_inv, of "''alice''"]
    by (simp add: demo_listed f del: failures.simps) (simp add: demo_send_ctx_def)
qed

definition device_json :: json where
  "device_json = JObj [(''device_id'', JStr ''d1''), (''platform'', JStr ''ios''), (''value'', JStr ''w'')]"

lemma device_json_literal: "literal_json device_json"
  unfolding device_json_def by code_simp

lemma device_decoded:
  "decode_body push_register_fields zero_register_body (as_user u device_json) =
     Some \<lparr>pr_DeviceID = ''d1'', pr_Platform = ''ios'', pr_Value = ''w'', pr_BundleID = []\<rparr>"
  unfolding as_user_decodes [OF device_json_literal]
  by (simp add: device_json_def push_register_fields_def find_field_def
      fld_def zero_register_body_def plain_reading)

theorem device_goes_to_caller_witness:
  "\<exists>m' resp. pushRegister 9 (as_user ''mallory'' device_json) demo_devices = (m', resp) \<and>
     ''d1'' \<in> r_DeviceID ` set (ListTokens demo_devices [''d1'', ''d2''] ''alice'') \<and>
     ''d1'' \<notin> r_DeviceID ` set (ListTokens m' [''d1'', ''d2''] ''alice'')"
proof -
  obtain m' resp where p: "pushRegister 9 (as_user ''mallory'' device_json) demo_devices = (m', resp)"
    and st: "status resp = 200" and dom: "dom (regs m') = {''d1'', ''d2''}"
    using device_decoded [of "''mallory''", unfolded zero_register_body_def]
    by (simp add: pushRegister_def parse_platform_def Upsert_def demo_devices_def)
  have ks: "enumerates [''d1'', ''d2''] (regs m')" by (simp add: enumerates_def dom)
  have "''d1'' \<notin> r_DeviceID ` set (ListTokens m' [''d1'', ''d2''] ''alice'')"
    using device_goes_to_caller [OF p st _ device_decoded demo_inv(1) ks, of "zero_claims\<lparr>UserID := ''mallory''\<rparr>" "''alice''"]
    by simp
  with p demo_listed show ?thesis by (auto simp: demo_reg_def)
qed

definition bastion_rq_json :: json where
  "bastion_rq_json = JObj [(''id'', JStr ''b1'')]"

lemma bastion_rq_literal: "literal_json bastion_rq_json"
  unfolding bastion_rq_json_def by code_simp

theorem registration_token_works_witness:
  "\<exists>m' resp tok r. registerBastion (Inr [1]) 9 id (as_user ''alice'' bastion_rq_json) NewMemory = (m', resp) \<and>
     read_token resp = Some tok \<and> VerifyDaemonToken m' tok = Inr r \<and> b_UserID r = ''alice''"
proof -
  have "decode_body register_fields \<lparr>rb_ID = [], rb_Capabilities = [], rb_ChepherdVersion = [], rb_Hostname = []\<rparr>
      (as_user ''alice'' bastion_rq_json) =
      Some \<lparr>rb_ID = ''b1'', rb_Capabilities = [], rb_ChepherdVersion = [], rb_Hostname = []\<rparr>"
    unfolding as_user_decodes [OF bastion_rq_literal]
    by (simp add: bastion_rq_json_def register_fields_def find_field_def fld_def plain_reading)
  then obtain m' resp where p: "registerBastion (Inr [1]) 9 id (as_user ''alice'' bastion_rq_json) NewMemory = (m', resp)"
    and "status resp = 200"
    by (simp add: registerBastion_def Register_def NewMemory_def mint_token_def Let_def)
  from registration_token_works [OF reg_inv_NewMemory this] p show ?thesis by auto
qed

end
