(* ===== verification/Relay_Theorems.thy ===== *)
theory Relay_Theorems
  imports Relay_Main Relay_Push_Theorems Auth_Demo
begin

text \<open>
  Properties of a request on its way through all layers of \<open>cmd/chepherd-relay/main.go\<close>: what an
  unauthenticated request can reach, whose bastions a request can change, which parts of the
  state a request touches, how the handlers fit the systems of \<open>Signaling\<close> and \<open>Ws_Relay\<close>, and
  why no WebSocket is ever joined behind the observability middleware.
\<close>

section \<open>The gate\<close>

definition bearer :: "'w auth_lib \<Rightarrow> clocks \<Rightarrow> claims request \<Rightarrow> verifier \<Rightarrow> 'w \<Rightarrow> claims \<Rightarrow> bool" where
  "bearer lib t rq v w c \<longleftrightarrow>
     (\<exists>token v' w'. header_get rq ''Authorization'' = ''Bearer '' @ token \<and>
        Verify lib t token v w = (v', w', Inr c))"

lemma mux_enter:
  assumes "mux lib t rq (Some v) w = (v', w', Enter rt rq')"
  shows "map_of routes (rq_path rq) = Some rt"
    and "rt \<in> open_routes \<and> rq' = rq \<or> (\<exists>c. bearer lib t rq v w c \<and> rq' = WithClaims rq c)"
proof -
  show "map_of routes (rq_path rq) = Some rt"
    using assms by (auto simp: mux_def split: option.splits if_splits prod.splits gate.splits)
  show "rt \<in> open_routes \<and> rq' = rq \<or> (\<exists>c. bearer lib t rq v w c \<and> rq' = WithClaims rq c)"
  proof (cases "rt \<in> open_routes")
    case True
    with assms show ?thesis
      by (auto simp: mux_def split: option.splits if_splits prod.splits gate.splits)
  next
    case False
    obtain v1 w1 g where m: "auth_Middleware lib t rq v w = (v1, w1, g)" by (metis prod_cases3)
    have "g = Passed rq'"
      using assms False m by (auto simp: mux_def protect_def split: option.splits if_splits gate.splits)
    with m middleware_passes [of lib t rq v w v1 w1 rq'] show ?thesis by (auto simp: bearer_def)
  qed
qed

lemma mux_answered:
  assumes "mux lib t rq verifier w = (v', w', Answered resp)"
  shows "status resp \<in> {401, 404}"
proof -
  have "auth_Middleware lib t rq v w = (v1, w1, Refused resp) \<Longrightarrow> status resp = 401" for v v1 w1
    by (auto simp: auth_Middleware_def Let_def authError_def split: if_splits prod.splits sum.splits)
  then show ?thesis
    using assms
    by (auto simp: mux_def protect_def not_found_def split: option.splits if_splits prod.splits gate.splits)
qed

lemma no_bearer_serve:
  assumes "serve lib mo rq (Some v) r w = (v', r', w', out)"
    and "\<And>c. \<not> bearer lib (mo_clocks mo) rq v w c"
  shows "r' = r \<and> (\<exists>resp. out = Replied resp \<and>
    (status resp \<in> {401, 404} \<or>
     rq_path rq \<in> {''/v1/health'', ''/v1/stats''} \<and>
       resp \<in> {health (mo_now mo) r, stats (mo_now mo) (mo_rooms mo) r}))"
proof -
  obtain v1 w1 d where m: "mux lib (mo_clocks mo) rq (Some v) w = (v1, w1, d)" by (metis prod_cases3)
  show ?thesis
  proof (cases d)
    case (Answered resp)
    with m assms(1) mux_answered [of lib "mo_clocks mo" rq "Some v" w v1 w1 resp] show ?thesis
      by (auto simp: serve_def)
  next
    case (Enter rt rq')
    with mux_enter [of lib "mo_clocks mo" rq v w v1 w1 rt rq'] m assms(2)
    have open_rt: "rt \<in> open_routes" and path: "map_of routes (rq_path rq) = Some rt" by auto
    from map_of_SomeD [OF path] open_rt have "rq_path rq \<in> {''/v1/health'', ''/v1/stats''}"
      by (auto simp: routes_def open_routes_def)
    with assms(1) m Enter open_rt show ?thesis
      by (auto simp: serve_def open_routes_def run_route_def)
  qed
qed

text \<open>The multiplexer touches the verifier and the world outside only by refreshing the keys for a token.\<close>

definition refreshed_for :: "'w auth_lib \<Rightarrow> clocks \<Rightarrow> claims request \<Rightarrow> verifier \<Rightarrow> 'w \<Rightarrow> verifier \<Rightarrow> 'w \<Rightarrow> bool" where
  "refreshed_for lib t rq v w v' w' \<longleftrightarrow>
     (\<exists>token p e. header_get rq ''Authorization'' = ''Bearer '' @ token \<and> verify_header lib token = Inr p \<and>
        cached_key v (at_lookup t) (pt_kid p) = None \<and> refresh lib t v w = (v', w', e))"

lemma middleware_effect:
  assumes "auth_Middleware lib t rq v w = (v', w', g)"
  shows "v' = v \<and> w' = w \<or> refreshed_for lib t rq v w v' w'"
proof (cases "has_prefix ''Bearer '' (header_get rq ''Authorization'')")
  case True
  then obtain token where tok: "header_get rq ''Authorization'' = ''Bearer '' @ token"
    unfolding has_prefix_iff by blast
  then have trim: "trim_prefix ''Bearer '' (header_get rq ''Authorization'') = token"
    by (simp only: trim_prefix_append)
  obtain res where "Verify lib t token v w = (v', w', res)"
    using True assms unfolding auth_Middleware_def Let_def trim by (auto split: prod.splits sum.splits)
  from Verify_effect [OF this] tok show ?thesis unfolding refreshed_for_def by blast
next
  case False
  with assms show ?thesis by (auto simp: auth_Middleware_def)
qed

lemma mux_effect:
  assumes "mux lib t rq (Some v) w = (v', w', d)"
  shows "v' = Some v \<and> w' = w \<or> (\<exists>v1. v' = Some v1 \<and> refreshed_for lib t rq v w v1 w')"
proof -
  obtain v1 w1 g where m: "auth_Middleware lib t rq v w = (v1, w1, g)" by (metis prod_cases3)
  from middleware_effect [OF m] assms show ?thesis
    by (auto simp: mux_def protect_def m split: option.splits if_splits gate.splits)
qed

text \<open>
  C2: With a key set configured, a request without a bearer token that verifies gets health, the
  statistics, a 401 or a 404, and leaves the state of the relay as it was: registries, queues,
  waiting clients, rooms. It starts nothing. The only effect it can have is on the keys: if it
  brings a token whose header is in order and names a key that the fresh cache does not hold,
  the relay asks the key endpoint once, and the answer may replace the cached keys; any other
  such request leaves the verifier and the world outside alone.
\<close>

theorem unauthenticated_leaves_relay:
  assumes "serve lib mo rq (Some v) r w = (v', r', w', out)"
    and "\<And>c. \<not> bearer lib (mo_clocks mo) rq v w c"
  shows "r' = r \<and>
    (\<exists>resp. out = Replied resp \<and>
      (status resp \<in> {401, 404} \<or> resp \<in> {health (mo_now mo) r, stats (mo_now mo) (mo_rooms mo) r})) \<and>
    (v' = Some v \<and> w' = w \<or> (\<exists>v1. v' = Some v1 \<and> refreshed_for lib (mo_clocks mo) rq v w v1 w'))"
proof -
  note b = no_bearer_serve [OF assms]
  obtain v1 w1 d where m: "mux lib (mo_clocks mo) rq (Some v) w = (v1, w1, d)" by (metis prod_cases3)
  have "v' = v1 \<and> w' = w1"
  proof (cases d)
    case (Enter rt rq')
    then obtain w2 where run: "run_route mo rt rq' r w1 = (r', w', out)" and "v' = v1"
      using assms(1) m by (auto simp: serve_def split: prod.splits)
    moreover have "rt \<in> open_routes" using mux_enter(2) [of lib "mo_clocks mo" rq v w v1 w1 rt rq'] m Enter assms(2) by auto
    ultimately show ?thesis by (auto simp: open_routes_def run_route_def)
  qed (use assms(1) m in \<open>auto simp: serve_def\<close>)
  with mux_effect [OF m] b show ?thesis by blast
qed

section \<open>Whose bastions change\<close>

lemma registerBastion_owner:
  assumes "reg_inv m" and "registerBastion ent now id rq m = (m', resp)"
    and "ledger m i = Some b" and "ledger m' i \<noteq> Some b"
  shows "\<exists>c. ClaimsFromContext rq = Some c \<and> UserID c = b_UserID b"
proof -
  obtain c bdy where c: "ClaimsFromContext rq = Some c"
    and bdy: "decode_body register_fields
      \<lparr>rb_ID = [], rb_Capabilities = [], rb_ChepherdVersion = [], rb_Hostname = []\<rparr> rq = Some bdy"
    using assms(2-4) by (auto simp: registerBastion_def split: if_splits option.splits)
  let ?b = "zero_bastion\<lparr>b_ID := rb_ID bdy, b_UserID := UserID c,
      b_ChepherdVersion := rb_ChepherdVersion bdy, b_Capabilities := rb_Capabilities bdy, b_Hostname := rb_Hostname bdy\<rparr>"
  have "m' = m \<or> m' = fst (Register m ?b ent now)"
    using assms(2) c bdy by (auto simp: registerBastion_def Let_def split: if_splits prod.splits sum.splits)
  then have m': "ledger m' = fst (spec_register (ledger m) ?b ent now)"
    using assms(3,4) Register_refines [OF assms(1), of ?b ent now] by (auto simp: prod_eq_iff)
  have "UserID c = b_UserID b"
    using assms(3,4) unfolding m' by (auto simp: spec_register_def split: if_splits option.splits sum.splits)
  with c show ?thesis by blast
qed

text \<open>
  A request changes the record of a bastion only if its bearer token verifies for the user
  who owns it; no other request, whatever its route, touches it.
\<close>

theorem serve_changes_bastion_only_by_owner:
  assumes "serve lib mo rq (Some v) r w = (v', r', w', out)" and "reg_inv (r_registry r)"
    and "ledger (r_registry r) i = Some b" and "ledger (r_registry r') i \<noteq> Some b"
  shows "\<exists>c. bearer lib (mo_clocks mo) rq v w c \<and> UserID c = b_UserID b"
proof -
  obtain v1 w1 d where m: "mux lib (mo_clocks mo) rq (Some v) w = (v1, w1, d)" by (metis prod_cases3)
  show ?thesis
  proof (cases d)
    case (Answered resp)
    with m assms show ?thesis by (simp add: serve_def)
  next
    case (Enter rt rq')
    have run: "run_route mo rt rq' r w1 = (r', w', out)"
      using assms(1) m Enter by (auto simp: serve_def split: prod.splits)
    have rt: "rt = RRegister"
      using run assms(3,4) by (cases rt) (auto simp: run_route_def split: prod.splits)
    obtain m' resp where reg: "registerBastion (mo_entropy mo) (mo_now mo) id rq' (r_registry r) = (m', resp)"
      by (cases "registerBastion (mo_entropy mo) (mo_now mo) id rq' (r_registry r)")
    then have "r_registry r' = m'" using run by (auto simp: rt run_route_def)
    with registerBastion_owner [OF assms(2) reg assms(3)] assms(4) obtain c where
      c: "ClaimsFromContext rq' = Some c" "UserID c = b_UserID b" by auto
    with mux_enter(2) [of lib "mo_clocks mo" rq v w v1 w1 rt rq'] m Enter show ?thesis
      by (auto simp: rt open_routes_def WithClaims_def ClaimsFromContext_def)
  qed
qed

section \<open>Invariants of the whole state\<close>

lemma registerBastion_state:
  "fst (registerBastion ent now id rq m) = m \<or> (\<exists>b. fst (registerBastion ent now id rq m) = fst (Register m b ent now))"
proof (cases "\<exists>c bdy. rq_method rq = ''POST'' \<and> ClaimsFromContext rq = Some c \<and> decode_body register_fields
      \<lparr>rb_ID = [], rb_Capabilities = [], rb_ChepherdVersion = [], rb_Hostname = []\<rparr> rq = Some bdy \<and> rb_ID bdy \<noteq> []")
  case True
  then obtain c bdy where c: "rq_method rq = ''POST''" "ClaimsFromContext rq = Some c" "rb_ID bdy \<noteq> []"
    "decode_body register_fields \<lparr>rb_ID = [], rb_Capabilities = [], rb_ChepherdVersion = [], rb_Hostname = []\<rparr> rq = Some bdy"
    by blast
  let ?b = "zero_bastion\<lparr>b_ID := rb_ID bdy, b_UserID := UserID c,
      b_ChepherdVersion := rb_ChepherdVersion bdy, b_Capabilities := rb_Capabilities bdy, b_Hostname := rb_Hostname bdy\<rparr>"
  have "fst (registerBastion ent now id rq m) = fst (Register m ?b ent now)"
    using c by (auto simp: registerBastion_def Let_def split: prod.split sum.split)
  then show ?thesis by blast
next
  case False
  then show ?thesis by (auto simp: registerBastion_def split: option.split)
qed

lemma registerBastion_inv [relay_inv]: "reg_inv m \<Longrightarrow> reg_inv (fst (registerBastion ent now id rq m))"
  using registerBastion_state [of ent now rq m] Register_inv by auto

lemma pushRegister_inv [relay_inv]: "push_inv m \<Longrightarrow> push_inv (fst (pushRegister now rq m))"
  using pushRegister_outcome [of now rq m "fst (pushRegister now rq m)" "snd (pushRegister now rq m)"]
    push_inv_Upsert by auto

lemma send_loop_inv:
  "push_inv (sl_tokens s) \<Longrightarrow> push_inv (sl_tokens (fold (send_round disp n ctx (\<lambda>_. id)) rs s))"
proof (induction rs arbitrary: s)
  case (Cons r rs)
  have "push_inv (sl_tokens (send_round disp n ctx (\<lambda>_. id) r s))"
    using Cons.prems push_inv_MarkFailure by (auto simp: send_round_def Let_def split: prod.split option.split)
  with Cons.IH show ?case by (simp add: id_def)
qed simp

lemma pushSend_inv [relay_inv]: "push_inv m \<Longrightarrow> push_inv (sl_tokens (fst (pushSend disp ctx (\<lambda>_. id) ks rq m w)))"
  by (auto simp: pushSend_def Let_def start_loop_def split: option.split intro: send_loop_inv)

definition relay_ok :: "'w relay \<Rightarrow> bool" where
  "relay_ok r \<longleftrightarrow> reg_inv (r_registry r) \<and> push_inv (r_pushTokens r)"

lemma run_route_ok: "relay_ok r \<Longrightarrow> relay_ok (fst (run_route mo rt rq r w))"
  using registerBastion_inv [of "r_registry r" "mo_entropy mo" "mo_now mo" rq]
    pushRegister_inv [of "r_pushTokens r" "mo_now mo" rq]
    pushSend_inv [of "r_pushTokens r" "r_pushDispatcher r" "mo_ctx mo" "mo_devices mo" rq w]
  by (cases rt) (auto simp: relay_ok_def run_route_def split: prod.split)

text \<open>
  The relays a process can get to, with or without a verifier, over any push dispatcher that the
  environment may have configured.
\<close>

inductive relay_reach ::
    "'w auth_lib \<Rightarrow> verifier option \<Rightarrow> 'w relay \<Rightarrow> bool" for lib where
  relay_new: "relay_reach lib (main_verifier url iss aud) 
    ((newRelay now env (out :: (nat, nat, nat, 'w) outside) apns)\<lparr>r_pushDispatcher := disp\<rparr>)"
| relay_serve: "relay_reach lib v r \<Longrightarrow> rq_claims rq = None \<Longrightarrow> serve lib mo rq v r w = (v', r', w', out) \<Longrightarrow>
    relay_reach lib v' r'"

lemma serve_relay:
  "serve lib mo rq v r w = (v', r', w', out) \<Longrightarrow>
     r' = r \<or> (\<exists>rt rq' w1. r' = fst (run_route mo rt rq' r w1))"
  by (auto simp: serve_def split: prod.splits dispatched.splits) (metis fst_conv)

text \<open>
  After any sequence of requests the registry is well formed (each bastion under its own ID,
  each accepted token the current one of its row) and so is the table of devices.
\<close>

theorem relay_stays_well_formed:
  assumes "relay_reach lib v r"
  shows "reg_inv (r_registry r) \<and> push_inv (r_pushTokens r)"
proof -
  have "relay_ok r" using assms
  proof (induction rule: relay_reach.induct)
    case (relay_serve v r rq mo w v' r' w' out)
    from serve_relay [OF relay_serve(3)] run_route_ok [OF relay_serve(4)] relay_serve(4)
    show ?case by auto
  qed (simp add: relay_ok_def newRelay_def reg_inv_NewMemory push_inv_New)
  then show ?thesis by (simp add: relay_ok_def)
qed

section \<open>The handlers inside the systems\<close>

text \<open>The request without its context value, as the systems of the components take it.\<close>

definition plain :: "'c request \<Rightarrow> unit request" where
  "plain rq = \<lparr>rq_method = rq_method rq, rq_path = rq_path rq, rq_query = rq_query rq,
     rq_headers = rq_headers rq, rq_body = rq_body rq, rq_claims = None\<rparr>"

lemma plain_parts:
  "rq_method (plain rq) = rq_method rq" "query_get (plain rq) k = query_get rq k"
  "decode_body fs z (plain rq) = decode_body fs z rq" "header_values (plain rq) k = header_values rq k"
  by (simp_all add: plain_def query_get_def decode_body_def header_values_def)

lemma start_handler_plain: "start_handler pid now ep (plain rq) s = start_handler pid now ep rq s"
  by (cases ep) (simp_all add: plain_parts signalingInitiate_def signalingOffer_def signalingPoll_def
      signalingAnswer_def signalingPostCandidate_def signalingPollCandidates_def)

lemma HandleHTTP_start_plain: "HandleHTTP_start (plain rq) = HandleHTTP_start rq"
  unfolding HandleHTTP_start_def ws_parse_def parseSecWSProtocol_def plain_parts ..

text \<open>
  A request that reaches a signaling handler is exactly an arrival in the system of
  \<open>Signaling\<close>, on the relay's maps and with nothing else of the relay changed; so every property
  of that system's reachable states holds of the relay.
\<close>

theorem signaling_request_is_system_step:
  assumes "serve lib mo rq v r w = (v', r', w', Waiting h)"
    and "sig s = r_signaling r" and "live s x = None"
  shows "sys_step (mo_pid mo) s (x, start_event h)
      (s\<lparr>sig := r_signaling r', live := (live s)(x \<mapsto> h)\<rparr>) \<and>
    r' = r\<lparr>r_signaling := r_signaling r'\<rparr>"
proof -
  obtain rt rq' w1 where run: "run_route mo rt rq' r w1 = (r', w', Waiting h)"
    using assms(1) by (auto simp: serve_def split: prod.splits dispatched.splits)
  then obtain ep g where "start_handler (mo_pid mo) (mo_now mo) ep rq' (r_signaling r) = (g, h)"
    and r': "r' = r\<lparr>r_signaling := g\<rparr>"
    by (cases rt) (auto simp: run_route_def split: prod.splits)
  then have "start_handler (mo_pid mo) (mo_now mo) ep (plain rq') (sig s) = (g, h)"
    by (simp add: start_handler_plain assms(2))
  from sys_step.arrive [OF assms(3) this] show ?thesis by (simp add: r')
qed

text \<open>
  A connection that is upgraded and joins a room is exactly an arrival in the system of
  \<open>Ws_Relay\<close>.
\<close>

theorem ws_join_is_system_step:
  assumes "HandleHTTP accept wt c rq h = (h', WsJoined b rm)" and "ws_hub s = h" and "phases s c = None"
  shows "ws_step s (Connected c) (s\<lparr>ws_hub := h', phases := (phases s)(c \<mapsto> Joined b rm)\<rparr>)"
proof -
  obtain role cid subs where "HandleHTTP_start (plain rq) = Upgrade role b cid subs"
    and "joinRoom (h\<lparr>conn_at := (conn_at h)(c := \<lparr>c_role = role, c_clientID = cid\<rparr>)\<rparr>) b c = (h', rm)"
    using assms(1) by (auto simp: HandleHTTP_def HandleHTTP_start_plain split: ws_start.splits if_splits prod.splits)
  with ws_step.connect [OF assms(3)] assms(2) show ?thesis by blast
qed

section \<open>Who may signal for a bastion\<close>

lemma mux_passes:
  assumes "bearer lib t rq v w c" and "map_of routes (rq_path rq) = Some rt" and "rt \<notin> open_routes"
  obtains v1 w1 where "mux lib t rq (Some v) w = (Some v1, w1, Enter rt (WithClaims rq c))"
proof -
  obtain v1 w1 where "auth_Middleware lib t rq v w = (v1, w1, Passed (WithClaims rq c))"
    using assms(1) middleware_passes [of lib t rq v w] unfolding bearer_def by blast
  with assms(2,3) that show ?thesis by (simp add: mux_def protect_def)
qed

lemma plain_WithClaims [simp]: "plain (WithClaims rq c) = plain rq"
  by (simp add: plain_def WithClaims_def)

text \<open>
  C22: The signaling endpoints ask for a verified token and then never look at it: for every caller
  whose token verifies, the outcome is that of the request without its claims, so the bastions
  that the claims permit make no difference.
\<close>

theorem signaling_ignores_claims:
  assumes "serve lib mo rq (Some v) r w = (v', r', w', out)"
    and "bearer lib (mo_clocks mo) rq v w c" and "map_of routes (rq_path rq) = Some (RSignal ep)"
  shows "\<exists>h. out = Waiting h \<and>
    start_handler (mo_pid mo) (mo_now mo) ep (plain rq) (r_signaling r) = (r_signaling r', h)"
proof -
  obtain v1 w1 where m: "mux lib (mo_clocks mo) rq (Some v) w = (Some v1, w1, Enter (RSignal ep) (WithClaims rq c))"
    by (rule mux_passes [OF assms(2,3)]) (simp_all add: open_routes_def)
  obtain g h where st: "start_handler (mo_pid mo) (mo_now mo) ep (WithClaims rq c) (r_signaling r) = (g, h)"
    by (cases "start_handler (mo_pid mo) (mo_now mo) ep (WithClaims rq c) (r_signaling r)")
  have "r' = r\<lparr>r_signaling := g\<rparr> \<and> out = Waiting h"
    using assms(1) by (auto simp: serve_def m run_route_def st)
  with st start_handler_plain [of "mo_pid mo" "mo_now mo" ep "WithClaims rq c" "r_signaling r"]
  show ?thesis by simp
qed

section \<open>No WebSocket behind the middleware\<close>

text \<open>
  \<open>websocket.Accept\<close> upgrades only through \<open>http.Hijacker\<close>, and \<open>main\<close> serves every route
  through the observability middleware, whose writer does not offer it: no request ever joins a
  room, and the hub stays as it was.
\<close>

theorem serve_never_joins_ws:
  assumes "\<And>wt rq subs. mo_accept mo wt rq subs \<Longrightarrow> offers_hijack wt"
    and "serve lib mo rq v r w = (v', r', w', out)"
  shows "r_wsHub r' = r_wsHub r \<and> (\<forall>b rm. out \<noteq> Socket (WsJoined b rm))"
proof -
  have no: "\<not> mo_accept mo (StatusRecorder wt) q subs" for wt q subs
    using assms(1) [of "StatusRecorder wt" q subs] by auto
  have "r_wsHub (fst (run_route mo rt q r w1)) = r_wsHub r \<and>
      snd (snd (run_route mo rt q r w1)) \<noteq> Socket (WsJoined b rm)" for rt q w1 b rm
    by (cases rt) (auto simp: run_route_def HandleHTTP_def wrapped_writer_def no
        split: prod.split ws_start.split)
  then show ?thesis
    using assms(2) by (auto simp: serve_def split: prod.splits dispatched.splits) (metis fst_conv, metis snd_conv)
qed

section \<open>Without a verifier\<close>

text \<open>
  Without a key set, when authentication is bypassed, the four routes that need the caller's
  identity answer 401 to every POST and change nothing.
\<close>

theorem dev_mode_has_no_identity:
  assumes "rq_claims rq = None" and "rq_method rq = ''POST''"
    and "rq_path rq \<in> {''/v1/register'', ''/v1/bastions'', ''/v1/push/register'', ''/v1/push/send''}"
    and "serve lib mo rq (main_verifier [] iss aud) r w = (v', r', w', out)"
  shows "r' = r \<and> out = Replied (http_error ''unauthenticated'' StatusUnauthorized)"
proof -
  have "\<exists>rt \<in> {RRegister, RBastions, RPushRegister, RPushSend}. map_of routes (rq_path rq) = Some rt"
    using assms(3) by (auto simp: routes_def)
  then show ?thesis
    using assms(1,2,4)
    by (auto simp: serve_def mux_def main_verifier_def protect_def open_routes_def run_route_def
        registerBastion_def listMyBastions_def pushRegister_def pushSend_def ClaimsFromContext_def start_loop_def)
qed

end
