(* ===== verification/Relay_Gate.thy ===== *)
theory Relay_Gate
  imports Relay_Theorems Auth_Interleaved_Theorems
begin

text \<open>
  The way of a request to its handler (\<open>main\<close> in \<open>cmd/chepherd-relay/main.go\<close> and
  \<open>Verifier.Middleware\<close> in \<open>internal/auth/auth.go\<close>), cut at the verification of its token, during
  which other requests are served. What precedes the verification is \<open>enter_mux\<close>, what follows it
  \<open>leave_gate\<close>; with a verification that nobody interferes with between them they are \<open>mux\<close>.
\<close>

definition bearer_token :: "claims request \<Rightarrow> string option" where
  "bearer_token rq =
     (let raw = header_get rq ''Authorization'' in
      if \<not> has_prefix ''Bearer '' raw then None else Some (trim_prefix ''Bearer '' raw))"

datatype entry = Settled response | Handle route "claims request" | ToGate route "claims request" string

definition enter_mux :: "verifier option \<Rightarrow> claims request \<Rightarrow> entry" where
  "enter_mux verifier rq =
     (case map_of routes (rq_path rq) of
        None \<Rightarrow> Settled not_found
      | Some rt \<Rightarrow>
          if rt \<in> open_routes \<or> verifier = None then Handle rt rq
          else (case bearer_token rq of
             None \<Rightarrow> Settled (authError ''AUTH_REVOKED'' ''Authorization: Bearer <token> required'')
           | Some token \<Rightarrow> ToGate rt rq token))"

definition leave_gate :: "'w auth_lib \<Rightarrow> claims request \<Rightarrow> auth_error + claims \<Rightarrow> gate" where
  "leave_gate lib rq res =
     (case res of
        Inl err \<Rightarrow> Refused (authError ''AUTH_REVOKED'' (auth_error_text (quote lib) err))
      | Inr c \<Rightarrow> Passed (rq\<lparr>rq_claims := Some c\<rparr>))"

fun gate_dispatch :: "route \<Rightarrow> gate \<Rightarrow> dispatched" where
  "gate_dispatch rt (Refused resp) = Answered resp"
| "gate_dispatch rt (Passed rq) = Enter rt rq"

lemma auth_Middleware_parts:
  "auth_Middleware lib t rq v w =
     (case bearer_token rq of
        None \<Rightarrow> (v, w, Refused (authError ''AUTH_REVOKED'' ''Authorization: Bearer <token> required''))
      | Some token \<Rightarrow>
          (case Verify lib t token v w of (v', w', res) \<Rightarrow> (v', w', leave_gate lib rq res)))"
  by (auto simp: auth_Middleware_def bearer_token_def leave_gate_def Let_def split: prod.split sum.split)

lemma gate_dispatch_iff [simp]:
  "gate_dispatch rt g = Answered resp \<longleftrightarrow> g = Refused resp"
  "gate_dispatch rt g = Enter rt' rq \<longleftrightarrow> rt' = rt \<and> g = Passed rq"
  by (cases g; auto)+

lemma leave_gate_iff [simp]:
  "leave_gate lib rq res = Passed rq' \<longleftrightarrow> (\<exists>c. res = Inr c \<and> rq' = WithClaims rq c)"
  by (auto simp: leave_gate_def WithClaims_def split: sum.split)

lemma gate_dispatch_leave [simp]:
  "gate_dispatch rt (leave_gate lib rq (Inr c)) = Enter rt (WithClaims rq c)"
  "gate_dispatch rt (leave_gate lib rq (Inl e)) =
     Answered (authError ''AUTH_REVOKED'' (auth_error_text (quote lib) e))"
  by (simp_all add: leave_gate_def WithClaims_def)

lemma mux_parts:
  "mux lib t rq verifier w =
     (case enter_mux verifier rq of
        Settled resp \<Rightarrow> (verifier, w, Answered resp)
      | Handle rt rq' \<Rightarrow> (verifier, w, Enter rt rq')
      | ToGate rt rq' token \<Rightarrow>
          (case Verify lib t token (the verifier) w of
             (v', w', res) \<Rightarrow> (Some v', w', gate_dispatch rt (leave_gate lib rq' res))))"
  by (cases verifier)
    (auto simp: mux_def enter_mux_def protect_def auth_Middleware_parts
      split: option.split prod.split gate.split)

lemma enter_mux_gate:
  assumes "enter_mux verifier rq = ToGate rt rq' token"
  obtains v where "verifier = Some v" and "rq' = rq" and "bearer_token rq = Some token"
    and "map_of routes (rq_path rq) = Some rt" and "rt \<notin> open_routes"
  using assms that by (auto simp: enter_mux_def split: option.splits if_splits)

lemma enter_mux_handle:
  assumes "enter_mux verifier rq = Handle rt rq'"
  shows "rq' = rq" and "map_of routes (rq_path rq) = Some rt" and "rt \<in> open_routes \<or> verifier = None"
  using assms by (auto simp: enter_mux_def split: option.splits if_splits)

text \<open>
  The sequential way of a request through the multiplexer and the middleware is the interleaved
  one that nobody interferes with: it decides at once, or runs the steps of one verification
  with no other step between, for some reading of the clock.
\<close>

theorem mux_is_solo_run:
  "(\<exists>t. mux lib t rq verifier w = (verifier', w', d)) \<longleftrightarrow>
     (case enter_mux verifier rq of
        Settled resp \<Rightarrow> verifier' = verifier \<and> w' = w \<and> d = Answered resp
      | Handle rt rq' \<Rightarrow> verifier' = verifier \<and> w' = w \<and> d = Enter rt rq'
      | ToGate rt rq' token \<Rightarrow>
          (\<exists>v v' res. verifier = Some v \<and> verifier' = Some v' \<and>
             alone lib v w (start_verification lib token) v' w' res \<and>
             d = gate_dispatch rt (leave_gate lib rq' res)))"
proof (cases "enter_mux verifier rq")
  case (ToGate rt rq' token)
  then obtain v where v: "verifier = Some v" by (rule enter_mux_gate)
  have "(\<exists>t. mux lib t rq verifier w = (verifier', w', d)) \<longleftrightarrow>
      (\<exists>t v' res. Verify lib t token v w = (v', w', res) \<and> verifier' = Some v' \<and>
        d = gate_dispatch rt (leave_gate lib rq' res))"
  proof (rule iff_exI)
    fix t
    show "mux lib t rq verifier w = (verifier', w', d) \<longleftrightarrow>
        (\<exists>v' res. Verify lib t token v w = (v', w', res) \<and> verifier' = Some v' \<and>
          d = gate_dispatch rt (leave_gate lib rq' res))"
      unfolding mux_parts ToGate by (cases "Verify lib t token v w") (auto simp: v)
  qed
  then show ?thesis using ToGate by (auto simp: v Verify_is_solo_run)
qed (auto simp: mux_parts)

end
