(* ===== verification/Relay_System.thy ===== *)
theory Relay_System
  imports Relay_Gate
begin

text \<open>
  The relay while it serves (\<open>cmd/chepherd-relay/main.go\<close>): all requests side by side, each in its
  own goroutine. A request is answered or handled at once, or it goes to the gate, where its
  verification runs by the steps of \<open>Auth_Concurrent\<close> and lets it in or not; in a signaling
  handler it goes on by the steps of \<open>Signaling\<close>, as a WebSocket connection by those of
  \<open>Ws_Relay\<close>.
\<close>

section \<open>Flags and surroundings\<close>

record main_flags =
  fl_addr :: string
  fl_jwks :: string
  fl_issuer :: string
  fl_audience :: string

definition flag_string :: "(string \<rightharpoonup> string) \<Rightarrow> string \<Rightarrow> string \<Rightarrow> string" where
  "flag_string given name def = (case given name of None \<Rightarrow> def | Some v \<Rightarrow> v)"

text \<open>
  \<open>flag.Parse\<close> on the arguments after the program's name: \<open>-name value\<close>, \<open>-name=value\<close>, either
  with two dashes, up to the first argument that is not a flag. A flag that is not defined, a
  missing value or a malformed name ends the process with status 2, \<open>-help\<close> and \<open>-h\<close> with
  status 0. \<open>given\<close> are the flags set so far.
\<close>

datatype flag_arg = NotFlag | BadSyntax | Flag string "string option"

definition flag_arg_of :: "string \<Rightarrow> flag_arg" where
  "flag_arg_of s =
     (if length s < 2 \<or> hd s \<noteq> CHR ''-'' \<or> s = ''--'' then NotFlag
      else let name = (if s ! 1 = CHR ''-'' then drop 2 s else tl s) in
        if name = [] \<or> hd name \<in> {CHR ''-'', CHR ''=''} then BadSyntax
        else Flag (takeWhile (\<lambda>c. c \<noteq> CHR ''='') name)
          (case dropWhile (\<lambda>c. c \<noteq> CHR ''='') name of [] \<Rightarrow> None | _ # v \<Rightarrow> Some v))"

definition defined_flags :: "string list" where
  "defined_flags = [''addr'', ''jwks'', ''issuer'', ''audience'']"

datatype flags_end = FlagsRead | HelpAsked | BadFlags

fun flag_Parse :: "string list \<Rightarrow> (string \<rightharpoonup> string) \<Rightarrow> (string \<rightharpoonup> string) \<times> flags_end" where
  "flag_Parse [] given = (given, FlagsRead)"
| "flag_Parse (s # rest) given =
     (case flag_arg_of s of
        NotFlag \<Rightarrow> (given, FlagsRead)
      | BadSyntax \<Rightarrow> (given, BadFlags)
      | Flag name value \<Rightarrow>
          if name \<notin> set defined_flags then
            (given, if name \<in> {''help'', ''h''} then HelpAsked else BadFlags)
          else (case (value, rest) of
             (Some v, _) \<Rightarrow> flag_Parse rest (given(name \<mapsto> v))
           | (None, []) \<Rightarrow> (given, BadFlags)
           | (None, v # rest') \<Rightarrow> flag_Parse rest' (given(name \<mapsto> v))))"

definition parse_flags :: "environment \<Rightarrow> (string \<rightharpoonup> string) \<Rightarrow> main_flags" where
  "parse_flags env given =
     \<lparr>fl_addr = flag_string given ''addr'' '':9889'',
      fl_jwks = flag_string given ''jwks'' (env ''CHEPHERD_RELAY_JWKS''),
      fl_issuer = flag_string given ''issuer'' (env ''CHEPHERD_RELAY_ISSUER''),
      fl_audience = flag_string given ''audience'' ''chepherd-rc''\<rparr>"

text \<open>
  What the process is given: the SDKs, the environment, the command line, files and provider clients,
  its process id, and the writers that \<open>websocket.Accept\<close> can upgrade.
\<close>

record ('k, 'c, 'a, 'e, 'w) setting =
  st_obs :: "('e, 'w) obs_lib"
  st_auth :: "'w auth_lib"
  st_env :: environment
  st_args :: "string list"
  st_outside :: "('k, 'c, 'a, 'w) outside"
  st_apns :: "('k, 'c) apns_config \<Rightarrow> 'w apns_client"
  st_pid :: int
  st_upgrades :: "writer_type \<Rightarrow> bool"

definition setting_flags :: "('k, 'c, 'a, 'e, 'w) setting \<Rightarrow> main_flags" where
  "setting_flags st = parse_flags (st_env st) (fst (flag_Parse (st_args st) Map.empty))"

abbreviation st_jwks :: "('k, 'c, 'a, 'e, 'w) setting \<Rightarrow> string" where
  "st_jwks st \<equiv> fl_jwks (setting_flags st)"

abbreviation st_issuer :: "('k, 'c, 'a, 'e, 'w) setting \<Rightarrow> string" where
  "st_issuer st \<equiv> fl_issuer (setting_flags st)"

abbreviation st_audience :: "('k, 'c, 'a, 'e, 'w) setting \<Rightarrow> string" where
  "st_audience st \<equiv> fl_audience (setting_flags st)"

section \<open>State\<close>

record gated =
  g_route :: route
  g_request :: "claims request"
  g_run :: verification
  g_left :: bool \<comment> \<open>answered, or in its handler\<close>

record 'w running =
  ru_verifier :: "verifier option"
  ru_relay :: "'w relay"
  ru_used :: "nat set" \<comment> \<open>the numbers of the requests so far\<close>
  ru_gates :: "nat \<rightharpoonup> gated" \<comment> \<open>the requests that went to the gate\<close>
  ru_live :: "nat \<rightharpoonup> handler" \<comment> \<open>the requests in the signaling handlers\<close>
  ru_phases :: "nat \<rightharpoonup> phase" \<comment> \<open>the WebSocket connections, by address\<close>
  ru_pushes :: "nat \<rightharpoonup> pushing" \<comment> \<open>the requests in the loop of \<open>pushSend\<close>\<close>
  ru_lookups :: "nat \<rightharpoonup> string \<times> string" \<comment> \<open>the requests in \<open>registerBastion\<close>, after the registration\<close>

definition start_serving :: "('k, 'c, 'a, 'e, 'w) setting \<Rightarrow> time \<Rightarrow> 'w running" where
  "start_serving st now =
     \<lparr>ru_verifier = main_verifier (st_jwks st) (st_issuer st) (st_audience st),
      ru_relay = newRelay now (st_env st) (st_outside st) (st_apns st),
      ru_used = {}, ru_gates = Map.empty, ru_live = Map.empty, ru_phases = Map.empty, ru_pushes = Map.empty,
      ru_lookups = Map.empty\<rparr>"

section \<open>Steps\<close>

text \<open>
  The handler of a route up to its first wait; the loop of \<open>pushSend\<close> and the look-up of
  \<open>registerBastion\<close>, in its second lock section, are not run at once.
\<close>

definition start_register ::
    "moment \<Rightarrow> claims request \<Rightarrow> 'w relay \<Rightarrow> 'w relay \<times> served" where
  "start_register mo rq r =
     (case start_registration (mo_entropy mo) (mo_now mo) rq (r_registry r) of
        (m, Inl resp) \<Rightarrow> (r\<lparr>r_registry := m\<rparr>, Replied resp)
      | (m, Inr (i, tok)) \<Rightarrow> (r\<lparr>r_registry := m\<rparr>, Registers i tok))"

definition start_route ::
    "moment \<Rightarrow> route \<Rightarrow> claims request \<Rightarrow> 'w relay \<Rightarrow> 'w \<Rightarrow> 'w relay \<times> 'w \<times> served" where
  "start_route mo rt rq r w =
     (if rt = RPushSend then (r, w, Pushes (start_push (mo_devices mo) rq (r_pushTokens r)))
      else if rt = RRegister then (case start_register mo rq r of (r', out) \<Rightarrow> (r', w, out))
      else run_route mo rt rq r w)"

lemma start_register_run:
  "start_register mo rq r =
     (case run_route mo RRegister rq r w of (r', w', out) \<Rightarrow>
        (r', case snd (start_registration (mo_entropy mo) (mo_now mo) rq (r_registry r)) of
               Inl resp \<Rightarrow> Replied resp | Inr (i, tok) \<Rightarrow> Registers i tok))"
  by (simp add: start_register_def run_route_def registerBastion_parts split: prod.split sum.split)

lemma start_route_relay:
  assumes "start_route mo rt rq r w = (r', w', out)"
  shows "r' = r \<and> rt = RPushSend \<or> r' = fst (run_route mo rt rq r w) \<and> rt \<noteq> RPushSend"
  using assms start_register_run [of mo rq r w] by (auto simp: start_route_def split: if_splits prod.splits)

lemma start_register_out: "start_register mo rq r = (r', out) \<Longrightarrow> (\<exists>resp. out = Replied resp) \<or> (\<exists>i tok. out = Registers i tok)"
  by (auto simp: start_register_def split: prod.splits sum.splits)

text \<open>What a handler leaves running when it starts or ends.\<close>

definition admit :: "nat \<Rightarrow> nat \<Rightarrow> served \<Rightarrow> 'w running \<Rightarrow> 'w running" where
  "admit n c out ru =
     (case out of
        Replied _ \<Rightarrow> ru
      | Waiting h \<Rightarrow> ru\<lparr>ru_live := (ru_live ru)(n \<mapsto> h)\<rparr>
      | Pushes h \<Rightarrow> ru\<lparr>ru_pushes := (ru_pushes ru)(n \<mapsto> h)\<rparr>
      | Registers i tok \<Rightarrow> ru\<lparr>ru_lookups := (ru_lookups ru)(n \<mapsto> (i, tok))\<rparr>
      | Socket e \<Rightarrow>
          (case e of WsJoined b r \<Rightarrow> ru\<lparr>ru_phases := (ru_phases ru)(c \<mapsto> Joined b r)\<rparr> | _ \<Rightarrow> ru))"

definition use_number :: "nat \<Rightarrow> 'w running \<Rightarrow> 'w running" where
  "use_number n ru = ru\<lparr>ru_used := insert n (ru_used ru)\<rparr>"

definition set_gate :: "nat \<Rightarrow> gated \<Rightarrow> 'w running \<Rightarrow> 'w running" where
  "set_gate n g ru = ru\<lparr>ru_gates := (ru_gates ru)(n \<mapsto> g)\<rparr>"

text \<open>
  The events, with the number of the request: answered before the gate, come to the gate, a step
  of its verification, turned away, handled (with the address of a new connection, the route and
  the request as the handler sees it), a step of a signaling handler or of \<open>pushSend\<close>, the look-up
  that ends a registration; a step of a connection; a change of the world outside.
\<close>

datatype run_event =
    AtOnce nat response
  | AtGate nat string
  | Verifying nat vevent
  | TurnedAway nat response
  | Handled nat nat route "claims request" served
  | SigStep nat event
  | PushStep nat push_event
  | LookedUp nat response
  | WsStep ws_event
  | Outside_World

text \<open>
  The moment of a handler: a new connection address, this process, its \<open>websocket.Accept\<close>, and for
  the loops over maps some order of their keys.
\<close>

definition moment_ok :: "('k, 'c, 'a, 'e, 'w) setting \<Rightarrow> 'w running \<Rightarrow> moment \<Rightarrow> bool" where
  "moment_ok st ru mo \<longleftrightarrow> ru_phases ru (mo_conn mo) = None \<and> mo_pid mo = st_pid st \<and>
     (\<forall>wt rq subs. mo_accept mo wt rq subs \<longrightarrow> st_upgrades st wt) \<and>
     enumerates (mo_bastions mo) (byID (r_registry (ru_relay ru))) \<and>
     enumerates (mo_devices mo) (regs (r_pushTokens (ru_relay ru))) \<and>
     enumerates (mo_rooms mo) (rooms (r_wsHub (ru_relay ru)))"

inductive run_step ::
    "('k, 'c, 'a, 'e, 'w) setting \<Rightarrow> 'w \<Rightarrow> 'w running \<Rightarrow> run_event \<Rightarrow> 'w \<Rightarrow> 'w running \<Rightarrow> bool"
  for st w ru where
  at_once: "n \<notin> ru_used ru \<Longrightarrow> rq_claims rq = None \<Longrightarrow>
    enter_mux (ru_verifier ru) rq = Settled resp \<Longrightarrow>
    run_step st w ru (AtOnce n resp) w (use_number n ru)"
| handled_open: "n \<notin> ru_used ru \<Longrightarrow> rq_claims rq = None \<Longrightarrow>
    enter_mux (ru_verifier ru) rq = Handle rt rq' \<Longrightarrow> moment_ok st ru mo \<Longrightarrow>
    start_route mo rt rq' (ru_relay ru) w = (r', w', out) \<Longrightarrow>
    run_step st w ru (Handled n (mo_conn mo) rt rq' out) w'
      (admit n (mo_conn mo) out ((use_number n ru)\<lparr>ru_relay := r'\<rparr>))"
| at_gate: "n \<notin> ru_used ru \<Longrightarrow> rq_claims rq = None \<Longrightarrow>
    enter_mux (ru_verifier ru) rq = ToGate rt rq' token \<Longrightarrow>
    run_step st w ru (AtGate n token) w
      (set_gate n \<lparr>g_route = rt, g_request = rq', g_run = start_verification (st_auth st) token,
         g_left = False\<rparr> (use_number n ru))"
| verifying: "ru_gates ru n = Some g \<Longrightarrow> ru_verifier ru = Some v \<Longrightarrow>
    verify_step (st_auth st) v w (g_run g) e v' w' h' \<Longrightarrow>
    run_step st w ru (Verifying n e) w' (set_gate n (g\<lparr>g_run := h'\<rparr>) (ru\<lparr>ru_verifier := Some v'\<rparr>))"
| turned_away: "ru_gates ru n = Some g \<Longrightarrow> \<not> g_left g \<Longrightarrow> g_run g = Verdict res \<Longrightarrow>
    leave_gate (st_auth st) (g_request g) res = Refused resp \<Longrightarrow>
    run_step st w ru (TurnedAway n resp) w (set_gate n (g\<lparr>g_left := True\<rparr>) ru)"
| handled_verified: "ru_gates ru n = Some g \<Longrightarrow> \<not> g_left g \<Longrightarrow> g_run g = Verdict res \<Longrightarrow>
    leave_gate (st_auth st) (g_request g) res = Passed rq' \<Longrightarrow> moment_ok st ru mo \<Longrightarrow>
    start_route mo (g_route g) rq' (ru_relay ru) w = (r', w', out) \<Longrightarrow>
    run_step st w ru (Handled n (mo_conn mo) (g_route g) rq' out) w'
      (admit n (mo_conn mo) out ((set_gate n (g\<lparr>g_left := True\<rparr>) ru)\<lparr>ru_relay := r'\<rparr>))"
| sig_step: "ru_live ru n = Some h \<Longrightarrow> handler_step (r_signaling (ru_relay ru)) h e s h' \<Longrightarrow>
    run_step st w ru (SigStep n e) w
      (ru\<lparr>ru_relay := (ru_relay ru)\<lparr>r_signaling := s\<rparr>, ru_live := (ru_live ru)(n \<mapsto> h')\<rparr>)"
| push_step: "ru_pushes ru n = Some h \<Longrightarrow>
    Push_Concurrent.push_step (r_pushDispatcher (ru_relay ru)) (r_pushTokens (ru_relay ru)) w h e m w' h' \<Longrightarrow>
    run_step st w ru (PushStep n e) w'
      (ru\<lparr>ru_relay := (ru_relay ru)\<lparr>r_pushTokens := m\<rparr>, ru_pushes := (ru_pushes ru)(n \<mapsto> h')\<rparr>)"
| looked_up: "ru_lookups ru n = Some (i, tok) \<Longrightarrow>
    run_step st w ru (LookedUp n (registered_response (r_registry (ru_relay ru)) i tok)) w
      (ru\<lparr>ru_lookups := (ru_lookups ru)(n := None)\<rparr>)"
| ws_step: "Ws_Relay.ws_step \<lparr>ws_hub = r_wsHub (ru_relay ru), phases = ru_phases ru\<rparr> e s \<Longrightarrow>
    e \<notin> range Connected \<Longrightarrow>
    run_step st w ru (WsStep e) w
      (ru\<lparr>ru_relay := (ru_relay ru)\<lparr>r_wsHub := ws_hub s\<rparr>, ru_phases := phases s\<rparr>)"
| outside_world: "run_step st w ru Outside_World w' ru"

inductive run_reach ::
    "('k, 'c, 'a, 'e, 'w) setting \<Rightarrow> run_event list \<Rightarrow> 'w \<Rightarrow> 'w running \<Rightarrow> bool" for st where
  opened: "run_reach st [] w (start_serving st now)"
| advanced: "run_reach st tr w ru \<Longrightarrow> run_step st w ru e w' ru' \<Longrightarrow> run_reach st (tr @ [e]) w' ru'"

lemma admit_simps [simp]:
  "ru_relay (admit n c out ru) = ru_relay ru" "ru_verifier (admit n c out ru) = ru_verifier ru"
  "ru_used (admit n c out ru) = ru_used ru" "ru_gates (admit n c out ru) = ru_gates ru"
  by (auto simp: admit_def split: served.split ws_entry.split)

lemma use_number_simps [simp]:
  "ru_relay (use_number n ru) = ru_relay ru" "ru_verifier (use_number n ru) = ru_verifier ru"
  "ru_used (use_number n ru) = insert n (ru_used ru)" "ru_gates (use_number n ru) = ru_gates ru"
  "ru_live (use_number n ru) = ru_live ru" "ru_phases (use_number n ru) = ru_phases ru"
  "ru_pushes (use_number n ru) = ru_pushes ru" "ru_lookups (use_number n ru) = ru_lookups ru"
  by (simp_all add: use_number_def)

lemma set_gate_simps [simp]:
  "ru_relay (set_gate n g ru) = ru_relay ru" "ru_verifier (set_gate n g ru) = ru_verifier ru"
  "ru_used (set_gate n g ru) = ru_used ru" "ru_gates (set_gate n g ru) = (ru_gates ru)(n \<mapsto> g)"
  "ru_live (set_gate n g ru) = ru_live ru" "ru_phases (set_gate n g ru) = ru_phases ru"
  "ru_pushes (set_gate n g ru) = ru_pushes ru" "ru_lookups (set_gate n g ru) = ru_lookups ru"
  by (simp_all add: set_gate_def)

lemma admit_live [simp]:
  "ru_live (admit n c out ru) = (case out of Waiting h \<Rightarrow> (ru_live ru)(n \<mapsto> h) | _ \<Rightarrow> ru_live ru)"
  by (auto simp: admit_def split: served.split ws_entry.split)

lemma admit_phases [simp]:
  "ru_phases (admit n c out ru) =
     (case out of Socket (WsJoined b r) \<Rightarrow> (ru_phases ru)(c \<mapsto> Joined b r) | _ \<Rightarrow> ru_phases ru)"
  by (auto simp: admit_def split: served.split ws_entry.split)

lemma admit_lookups [simp]:
  "ru_lookups (admit n c out ru) =
     (case out of Registers i tok \<Rightarrow> (ru_lookups ru)(n \<mapsto> (i, tok)) | _ \<Rightarrow> ru_lookups ru)"
  by (auto simp: admit_def split: served.split ws_entry.split)

lemma admit_pushes [simp]:
  "ru_pushes (admit n c out ru) = (case out of Pushes h \<Rightarrow> (ru_pushes ru)(n \<mapsto> h) | _ \<Rightarrow> ru_pushes ru)"
  by (auto simp: admit_def split: served.split ws_entry.split)

fun outer_event :: "run_event \<Rightarrow> bool" where
  "outer_event (Handled n c rt q out) = False"
| "outer_event (SigStep n x) = False"
| "outer_event (PushStep n x) = False"
| "outer_event (WsStep x) = False"
| "outer_event _ = True"

text \<open>
  What a step does, whatever its rule: it leaves the relay alone, or it runs the handler of a
  request, or it is a step of one of the two systems.
\<close>

lemma run_step_kinds:
  assumes "run_step st w ru e w' ru'"
  obtains (outer) "ru_relay ru' = ru_relay ru" and "ru_live ru' = ru_live ru"
      and "ru_phases ru' = ru_phases ru" and "ru_pushes ru' = ru_pushes ru" and "outer_event e"
  | (handled) n mo rt q out where "e = Handled n (mo_conn mo) rt q out" and "moment_ok st ru mo"
      and "start_route mo rt q (ru_relay ru) w = (ru_relay ru', w', out)"
      and "ru_live ru' = ru_live (admit n (mo_conn mo) out ru)"
      and "ru_phases ru' = ru_phases (admit n (mo_conn mo) out ru)"
      and "ru_pushes ru' = ru_pushes (admit n (mo_conn mo) out ru)"
      and "n \<notin> ru_used ru \<or> (\<exists>g. ru_gates ru n = Some g \<and> \<not> g_left g)"
  | (sig) n h x s h' where "e = SigStep n x" and "ru_live ru n = Some h"
      and "handler_step (r_signaling (ru_relay ru)) h x s h'" and "w' = w"
      and "ru' = ru\<lparr>ru_relay := (ru_relay ru)\<lparr>r_signaling := s\<rparr>, ru_live := (ru_live ru)(n \<mapsto> h')\<rparr>"
  | (push) n h x m h' where "e = PushStep n x" and "ru_pushes ru n = Some h"
      and "Push_Concurrent.push_step (r_pushDispatcher (ru_relay ru)) (r_pushTokens (ru_relay ru)) w h x m w' h'"
      and "ru' = ru\<lparr>ru_relay := (ru_relay ru)\<lparr>r_pushTokens := m\<rparr>, ru_pushes := (ru_pushes ru)(n \<mapsto> h')\<rparr>"
  | (ws) x s where "e = WsStep x" and "x \<notin> range Connected" and "w' = w"
      and "Ws_Relay.ws_step \<lparr>ws_hub = r_wsHub (ru_relay ru), phases = ru_phases ru\<rparr> x s"
      and "ru' = ru\<lparr>ru_relay := (ru_relay ru)\<lparr>r_wsHub := ws_hub s\<rparr>, ru_phases := phases s\<rparr>"
  using assms
proof cases
  case (handled_open n rq rt rq' mo r' out)
  then show ?thesis
    by (intro handled [of n mo rt rq' out]) (simp_all split: served.split ws_entry.split)
next
  case (handled_verified n g res rq' mo r' out)
  then show ?thesis
    by (intro handled [of n mo "g_route g" rq' out]) (simp_all split: served.split ws_entry.split)
next
  case (sig_step n h x s h')
  with sig show ?thesis by blast
next
  case (push_step n h x m h')
  with push show ?thesis by blast
next
  case (ws_step x s)
  with ws show ?thesis by blast
next
  case at_once
  then show ?thesis by (intro outer) simp_all
next
  case at_gate
  then show ?thesis by (intro outer) simp_all
next
  case verifying
  then show ?thesis by (intro outer) simp_all
next
  case turned_away
  then show ?thesis by (intro outer) simp_all
next
  case looked_up
  then show ?thesis by (intro outer) simp_all
next
  case outside_world
  then show ?thesis by (intro outer) simp_all
qed

end
