(* ===== verification/Relay_Runs.thy ===== *)
theory Relay_Runs
  imports Relay_System
begin

text \<open>
  Executions of the serving relay: the three systems inside them (verifications, signaling,
  WebSockets), which requests get to a handler, and what can change the relay.
\<close>

section \<open>Numbers\<close>

text \<open>A request is in one place: new, at the gate, or past it.\<close>

definition fresh :: "'w running \<Rightarrow> nat \<Rightarrow> bool" where
  "fresh ru n \<longleftrightarrow> n \<notin> ru_used ru \<or> (\<exists>g. ru_gates ru n = Some g \<and> \<not> g_left g)"

definition idle :: "'w running \<Rightarrow> nat \<Rightarrow> bool" where
  "idle ru n \<longleftrightarrow> ru_live ru n = None \<and> ru_pushes ru n = None"

definition numbers_ok :: "'w running \<Rightarrow> bool" where
  "numbers_ok ru \<longleftrightarrow> (\<forall>n. (n \<notin> ru_used ru \<longrightarrow> ru_gates ru n = None) \<and> (fresh ru n \<longrightarrow> idle ru n))"

lemma numbers_okI:
  assumes "\<And>m. m \<notin> ru_used ru' \<Longrightarrow> m \<notin> ru_used ru \<and> ru_gates ru' m = ru_gates ru m"
    and "\<And>m. fresh ru' m \<Longrightarrow> fresh ru m \<and> (idle ru m \<longrightarrow> idle ru' m)"
    and "numbers_ok ru"
  shows "numbers_ok ru'"
  using assms unfolding numbers_ok_def by metis

lemma numbers_ok_step:
  assumes "run_step st w ru e w' ru'" and "numbers_ok ru"
  shows "numbers_ok ru'"
  using assms(1)
proof cases
  case at_once
  then show ?thesis by (intro numbers_okI [OF _ _ assms(2)]) (auto simp: fresh_def idle_def)
next
  case (handled_open n rq rt rq' mo r' out)
  from handled_open assms(2) have "ru_gates ru n = None" by (simp add: numbers_ok_def)
  with handled_open show ?thesis
    by (intro numbers_okI [OF _ _ assms(2)])
      (auto simp: fresh_def idle_def split: served.splits ws_entry.splits if_splits)
next
  case at_gate
  then show ?thesis by (intro numbers_okI [OF _ _ assms(2)]) (auto simp: fresh_def idle_def split: if_splits)
next
  case (verifying n g v e v' h')
  from assms(2) verifying(3) have "n \<in> ru_used ru" by (auto simp: numbers_ok_def)
  with verifying show ?thesis
    by (intro numbers_okI [OF _ _ assms(2)]) (auto simp: fresh_def idle_def split: if_splits)
next
  case (turned_away n g res resp)
  from assms(2) turned_away(4) have "n \<in> ru_used ru" by (auto simp: numbers_ok_def)
  with turned_away show ?thesis
    by (intro numbers_okI [OF _ _ assms(2)]) (auto simp: fresh_def idle_def split: if_splits)
next
  case (handled_verified n g res rq' mo r' out)
  from assms(2) handled_verified(3) have "n \<in> ru_used ru" by (auto simp: numbers_ok_def)
  with handled_verified show ?thesis
    by (intro numbers_okI [OF _ _ assms(2)])
      (auto simp: fresh_def idle_def split: served.splits ws_entry.splits if_splits)
next
  case (sig_step n h x s h')
  with assms(2) have "\<not> fresh ru n" by (auto simp: numbers_ok_def idle_def)
  with sig_step show ?thesis
    by (intro numbers_okI [OF _ _ assms(2)]) (auto simp: fresh_def idle_def split: if_splits)
next
  case (push_step n h x m h')
  with assms(2) have "\<not> fresh ru n" by (auto simp: numbers_ok_def idle_def)
  with push_step show ?thesis
    by (intro numbers_okI [OF _ _ assms(2)]) (auto simp: fresh_def idle_def split: if_splits)
next
  case looked_up
  then show ?thesis by (intro numbers_okI [OF _ _ assms(2)]) (auto simp: fresh_def idle_def)
next
  case ws_step
  then show ?thesis by (intro numbers_okI [OF _ _ assms(2)]) (auto simp: fresh_def idle_def)
next
  case outside_world
  with assms(2) show ?thesis by simp
qed

lemma run_reach_numbers: "run_reach st tr w ru \<Longrightarrow> numbers_ok ru"
  by (induction rule: run_reach.induct)
    (simp add: numbers_ok_def start_serving_def idle_def, rule numbers_ok_step)

lemma numbers_idle: "numbers_ok ru \<Longrightarrow> fresh ru n \<Longrightarrow> ru_live ru n = None \<and> ru_pushes ru n = None"
  by (simp add: numbers_ok_def idle_def)

lemma numbers_gate: "numbers_ok ru \<Longrightarrow> n \<notin> ru_used ru \<Longrightarrow> ru_gates ru n = None"
  by (simp add: numbers_ok_def)

section \<open>The signaling system\<close>

definition sig_part :: "'w running \<Rightarrow> sys" where
  "sig_part ru = \<lparr>sig = r_signaling (ru_relay ru), live = ru_live ru\<rparr>"

fun sig_events :: "run_event \<Rightarrow> (nat \<times> event) list" where
  "sig_events (Handled n c rt q (Waiting h)) = [(n, start_event h)]"
| "sig_events (SigStep n e) = [(n, e)]"
| "sig_events _ = []"

lemma start_route_signaling:
  assumes "start_route mo rt q r w = (r', w', out)"
  shows "case out of
      Waiting h \<Rightarrow> (\<exists>ep. rt = RSignal ep \<and>
        start_handler (mo_pid mo) (mo_now mo) ep (plain q) (r_signaling r) = (r_signaling r', h))
    | _ \<Rightarrow> r_signaling r' = r_signaling r"
  using assms
  by (cases rt)
    (auto simp: start_route_def start_register_def run_route_def start_handler_plain split: prod.splits sum.splits)

lemma sig_part_step:
  assumes "run_step st w ru e w' ru'" and "numbers_ok ru"
  shows "sig_part ru' = sig_part ru \<and> sig_events e = [] \<or>
    (\<exists>x. sig_events e = [x] \<and> sys_step (st_pid st) (sig_part ru) x (sig_part ru'))"
  using assms(1)
proof (cases rule: run_step_kinds)
  case outer
  then show ?thesis by (cases e) (auto simp: sig_part_def)
next
  case (handled n mo rt q out)
  have live: "ru_live ru n = None" using numbers_idle [OF assms(2)] handled(7) by (simp add: fresh_def)
  show ?thesis
  proof (cases out)
    case (Waiting h)
    with start_route_signaling [OF handled(3)] handled(2) obtain ep where
      "start_handler (st_pid st) (mo_now mo) ep (plain q) (sig (sig_part ru)) = (r_signaling (ru_relay ru'), h)"
      by (auto simp: sig_part_def moment_ok_def)
    from sys_step.arrive [OF _ this, of n] live handled(1,4) Waiting show ?thesis
      by (simp add: sig_part_def)
  qed (use start_route_signaling [OF handled(3)] handled(1,4) in \<open>auto simp: sig_part_def\<close>)
next
  case (sig n h x s h')
  from sys_step.move [of "sig_part ru" n h x s h' "st_pid st"] sig show ?thesis
    by (simp add: sig_part_def)
next
  case push
  then show ?thesis by (simp add: sig_part_def)
next
  case ws
  then show ?thesis by (simp add: sig_part_def)
qed

section \<open>The WebSocket system\<close>

definition ws_part :: "'w running \<Rightarrow> ws_sys" where
  "ws_part ru = \<lparr>ws_hub = r_wsHub (ru_relay ru), phases = ru_phases ru\<rparr>"

fun hub_events :: "run_event \<Rightarrow> ws_event list" where
  "hub_events (Handled n c rt q (Socket (WsJoined b r))) = [Connected c]"
| "hub_events (WsStep e) = [e]"
| "hub_events _ = []"

lemma HandleHTTP_same: "HandleHTTP accept wt c q h = (h', e) \<Longrightarrow> (\<And>b rm. e \<noteq> WsJoined b rm) \<Longrightarrow> h' = h"
  by (auto simp: HandleHTTP_def split: ws_start.splits if_splits prod.splits)

lemma start_route_hub:
  assumes "start_route mo rt q r w = (r', w', out)"
  obtains (same) "r_wsHub r' = r_wsHub r" and "\<And>b rm. out \<noteq> Socket (WsJoined b rm)"
  | (joined) b rm where "out = Socket (WsJoined b rm)" and "rt = RWs"
      and "HandleHTTP (mo_accept mo) (wrapped_writer ServerWriter) (mo_conn mo) q (r_wsHub r) =
        (r_wsHub r', WsJoined b rm)"
proof (cases "rt = RWs")
  case True
  obtain h e where h: "HandleHTTP (mo_accept mo) (wrapped_writer ServerWriter) (mo_conn mo) q (r_wsHub r) = (h, e)"
    by (cases "HandleHTTP (mo_accept mo) (wrapped_writer ServerWriter) (mo_conn mo) q (r_wsHub r)")
  with True assms have out: "out = Socket e" "r_wsHub r' = h"
    by (auto simp: start_route_def run_route_def)
  show ?thesis
  proof (cases "\<exists>b rm. e = WsJoined b rm")
    case True
    with h out joined \<open>rt = RWs\<close> show ?thesis by auto
  next
    case False
    with out HandleHTTP_same [OF h] same show ?thesis by auto
  qed
next
  case False
  with assms show ?thesis
    by (cases rt)
      (auto simp: start_route_def start_register_def run_route_def split: prod.splits sum.splits intro: same)
qed

lemma ws_part_step:
  assumes "run_step st w ru e w' ru'"
  shows "ws_part ru' = ws_part ru \<and> hub_events e = [] \<or>
    (\<exists>x. hub_events e = [x] \<and> Ws_Relay.ws_step (ws_part ru) x (ws_part ru'))"
  using assms
proof (cases rule: run_step_kinds)
  case outer
  then show ?thesis by (cases e) (auto simp: ws_part_def)
next
  case (handled n mo rt q out)
  from handled(3) show ?thesis
  proof (cases rule: start_route_hub)
    case same
    with handled(1,5) show ?thesis
      by (cases out; cases "\<exists>x. out = Socket x") (auto simp: ws_part_def split: ws_entry.splits)
  next
    case (joined b rm)
    from ws_join_is_system_step [OF joined(3), of "ws_part ru"] handled(1,2,5) joined(1) show ?thesis
      by (simp add: ws_part_def moment_ok_def)
  qed
next
  case sig
  then show ?thesis by (simp add: ws_part_def)
next
  case push
  then show ?thesis by (simp add: ws_part_def)
next
  case (ws x s)
  then have s: "ws_part ru' = s" by (cases s) (simp add: ws_part_def)
  from ws(1,4) show ?thesis unfolding s by (simp add: ws_part_def)
qed

section \<open>The system of verifications\<close>

definition auth_part :: "verifier \<Rightarrow> 'w \<Rightarrow> 'w running \<Rightarrow> 'w vsys" where
  "auth_part v w ru = \<lparr>vs_verifier = v, vs_world = w, vs_live = (\<lambda>n. map_option g_run (ru_gates ru n))\<rparr>"

fun auth_events :: "run_event \<Rightarrow> vtrace" where
  "auth_events (AtGate n token) = [(n, Arrived token)]"
| "auth_events (Verifying n e) = [(n, e)]"
| "auth_events (Handled n c rt q out) = [(n, Outside)]"
| "auth_events (PushStep n e) = [(n, Outside)]"
| "auth_events Outside_World = [(0, Outside)]"
| "auth_events _ = []"

definition auth_trace :: "run_event list \<Rightarrow> vtrace" where
  "auth_trace tr = concat (map auth_events tr)"

lemma auth_trace_append [simp]: "auth_trace (tr @ tr') = auth_trace tr @ auth_trace tr'"
  by (simp add: auth_trace_def)

lemma auth_trace_single [simp]: "auth_trace [e] = auth_events e"
  by (simp add: auth_trace_def)

lemma auth_part_outside: "vsys_step lib (auth_part v w ru) (n, Outside) (auth_part v w' ru)"
  using vsys_step.outside [of lib "auth_part v w ru" n w'] by (simp add: auth_part_def)

lemma auth_part_same:
  "(\<And>n. map_option g_run (ru_gates ru' n) = map_option g_run (ru_gates ru n)) \<Longrightarrow>
     auth_part v w ru' = auth_part v w ru"
  by (simp add: auth_part_def)

lemma run_step_verifier:
  assumes "run_step st w ru e w' ru'"
  shows "ru_verifier ru' = None \<longleftrightarrow> ru_verifier ru = None"
  using assms by cases simp_all

lemma auth_part_step:
  assumes "run_step st w ru e w' ru'" and "numbers_ok ru"
    and "ru_verifier ru = Some v" and "ru_verifier ru' = Some v'"
  shows "auth_part v' w' ru' = auth_part v w ru \<and> auth_events e = [] \<or>
    (\<exists>x. auth_events e = [x] \<and> vsys_step (st_auth st) (auth_part v w ru) x (auth_part v' w' ru'))"
  using assms(1)
proof cases
  case (at_once n rq resp)
  with assms(3,4) show ?thesis by (simp add: auth_part_def)
next
  case (handled_open n rq rt rq' mo r' out)
  with assms(3,4) have "auth_part v' w' ru' = auth_part v w' ru" by (simp add: auth_part_def)
  with handled_open auth_part_outside show ?thesis by simp
next
  case (at_gate n rq rt rq' token)
  have "vs_live (auth_part v w ru) n = None"
    using numbers_gate [OF assms(2) at_gate(4)] by (simp add: auth_part_def)
  from vsys_step.arrives [OF this, of "st_auth st" token] at_gate assms(3,4) show ?thesis
    by (auto simp: auth_part_def fun_eq_iff elim!: back_subst [of "vsys_step (st_auth st) x y" for x y])
next
  case (verifying n g v0 e0 v1 h')
  have "vs_live (auth_part v w ru) n = Some (g_run g)" using verifying by (simp add: auth_part_def)
  from vsys_step.moves [OF this, of "st_auth st" e0 v1 w' h'] verifying assms(3,4) show ?thesis
    by (auto simp: auth_part_def fun_eq_iff elim!: back_subst [of "vsys_step (st_auth st) x y" for x y])
next
  case (turned_away n g res resp)
  with assms(3,4) have "auth_part v' w' ru' = auth_part v w ru" by (simp add: auth_part_def fun_eq_iff)
  with turned_away show ?thesis by simp
next
  case (handled_verified n g res rq' mo r' out)
  with assms(3,4) have "auth_part v' w' ru' = auth_part v w' ru" by (simp add: auth_part_def fun_eq_iff)
  with handled_verified auth_part_outside show ?thesis by simp
next
  case (sig_step n h x s h')
  with assms(3,4) show ?thesis by (simp add: auth_part_def)
next
  case (push_step n h x m h')
  with assms(3,4) have "auth_part v' w' ru' = auth_part v w' ru" by (simp add: auth_part_def)
  with push_step auth_part_outside show ?thesis by simp
next
  case (looked_up n i tok)
  with assms(3,4) show ?thesis by (simp add: auth_part_def)
next
  case (ws_step x s)
  with assms(3,4) show ?thesis by (simp add: auth_part_def)
next
  case outside_world
  with assms(3,4) auth_part_outside show ?thesis by simp
qed

section \<open>The three systems together\<close>

lemma start_serving_simps [simp]:
  "ru_verifier (start_serving st now) = main_verifier (st_jwks st) (st_issuer st) (st_audience st)"
  "ru_used (start_serving st now) = {}" "ru_gates (start_serving st now) = Map.empty"
  "ru_live (start_serving st now) = Map.empty" "ru_phases (start_serving st now) = Map.empty"
  "ru_pushes (start_serving st now) = Map.empty" "ru_lookups (start_serving st now) = Map.empty"
  "r_signaling (ru_relay (start_serving st now)) = new_signaling"
  "r_wsHub (ru_relay (start_serving st now)) = new_hub"
  "r_registry (ru_relay (start_serving st now)) = NewMemory"
  "r_pushTokens (ru_relay (start_serving st now)) = NewPushMemory"
  by (simp_all add: start_serving_def newRelay_def)

lemma run_reach_verifier: "run_reach st tr w ru \<Longrightarrow> ru_verifier ru = None \<longleftrightarrow> st_jwks st = []"
  by (induction rule: run_reach.induct) (simp add: main_verifier_def, metis run_step_verifier)

lemma run_reach_signaling: "run_reach st tr w ru \<Longrightarrow> reach (st_pid st) (concat (map sig_events tr)) (sig_part ru)"
proof (induction rule: run_reach.induct)
  case (opened w now)
  then show ?case using reach.start by (simp add: sig_part_def init_sys_def)
next
  case (advanced tr w ru e w' ru')
  from sig_part_step [OF advanced.hyps(2) run_reach_numbers [OF advanced.hyps(1)]] advanced.IH
  show ?case by (auto intro: reach.step)
qed

lemma run_reach_hub: "run_reach st tr w ru \<Longrightarrow> ws_reach (concat (map hub_events tr)) (ws_part ru)"
proof (induction rule: run_reach.induct)
  case (opened w now)
  then show ?case using ws_start by (simp add: ws_part_def init_ws_def)
next
  case (advanced tr w ru e w' ru')
  from ws_part_step [OF advanced.hyps(2)] advanced.IH show ?case by (auto intro: ws_more)
qed

lemma run_reach_auth:
  "run_reach st tr w ru \<Longrightarrow> ru_verifier ru = Some v \<Longrightarrow>
     vreach (st_auth st) (st_jwks st) (st_issuer st) (st_audience st) (auth_trace tr) (auth_part v w ru)"
proof (induction arbitrary: v rule: run_reach.induct)
  case (opened w now)
  then have "v = NewVerifier (st_jwks st) (st_issuer st) (st_audience st)"
    by (simp add: main_verifier_def split: if_splits)
  then show ?case using vreach.vstart [where w = w] by (simp add: auth_part_def auth_trace_def)
next
  case (advanced tr w ru e w' ru')
  obtain v0 where v0: "ru_verifier ru = Some v0"
    using run_step_verifier [OF advanced.hyps(2)] advanced.prems by (cases "ru_verifier ru") auto
  from auth_part_step [OF advanced.hyps(2) run_reach_numbers [OF advanced.hyps(1)] v0 advanced.prems]
    advanced.IH [OF v0]
  show ?case by (auto intro: vreach.vstep)
qed

section \<open>Who gets to a handler\<close>

text \<open>
  The requests handled so far, beyond health and statistics, had their tokens verified, and their
  handlers have got the claims of these tokens.
\<close>

definition verified_request ::
    "('k, 'c, 'a, 'e, 'w) setting \<Rightarrow> run_event list \<Rightarrow> nat \<Rightarrow> claims request \<Rightarrow> bool" where
  "verified_request st tr n q \<longleftrightarrow>
     (\<exists>c. ClaimsFromContext q = Some c \<and>
        token_proved (st_auth st) (st_jwks st) (st_issuer st) (st_audience st) (auth_trace tr) n c)"

lemma verified_request_mono: "verified_request st tr n q \<Longrightarrow> verified_request st (tr @ tr') n q"
  unfolding verified_request_def by (auto intro: token_proved_mono)

lemma run_reach_gates: "run_reach st tr w ru \<Longrightarrow> ru_gates ru n \<noteq> None \<Longrightarrow> ru_verifier ru \<noteq> None"
proof (induction arbitrary: n rule: run_reach.induct)
  case (advanced tr w ru e w' ru')
  have "ru_gates ru' = ru_gates ru \<or> ru_verifier ru \<noteq> None"
    using advanced.hyps(2) advanced.IH
    by cases (auto simp: use_number_def set_gate_def elim!: enter_mux_gate)
  with advanced run_step_verifier [OF advanced.hyps(2)] show ?case by metis
qed simp

text \<open>The claims that a handler gets, in a configured process or not, are those of a verified token.\<close>

lemma handler_claims_proved:
  assumes "run_reach st tr w ru" and "run_step st w ru (Handled n c rt q out) w' ru'"
    and "ClaimsFromContext q = Some cl"
  shows "token_proved (st_auth st) (st_jwks st) (st_issuer st) (st_audience st) (auth_trace tr) n cl"
  using assms(2)
proof cases
  case (handled_open rq mo r')
  with enter_mux_handle(1) [OF handled_open(5)] assms(3) show ?thesis by (simp add: ClaimsFromContext_def)
next
  case (handled_verified g res mo r')
  then have res: "res = Inr cl" using assms(3) by (auto simp: ClaimsFromContext_def WithClaims_def)
  obtain v where v: "ru_verifier ru = Some v"
    using run_reach_gates [OF assms(1), of n] handled_verified by auto
  have "vs_live (auth_part v w ru) n = Some (Verdict (Inr cl))"
    using handled_verified res by (simp add: auth_part_def)
  from verdict_proved [OF run_reach_auth [OF assms(1) v] this] show ?thesis .
qed

lemma handled_was_verified:
  assumes "run_reach st tr w ru" and "st_jwks st \<noteq> []"
    and "run_step st w ru (Handled n c rt q out) w' ru'" and "rt \<notin> open_routes"
  shows "verified_request st tr n q"
proof -
  have configured: "ru_verifier ru \<noteq> None" using run_reach_verifier [OF assms(1)] assms(2) by simp
  from assms(3) have "ClaimsFromContext q \<noteq> None"
  proof cases
    case (handled_open rq mo r')
    from enter_mux_handle(3) [OF handled_open(5)] configured assms(4) show ?thesis by simp
  qed (auto simp: ClaimsFromContext_def WithClaims_def)
  with handler_claims_proved [OF assms(1,3)] show ?thesis by (auto simp: verified_request_def)
qed

lemma handled_verified_reach:
  assumes "run_reach st tr w ru" and "st_jwks st \<noteq> []"
    and "Handled n c rt q out \<in> set tr" and "rt \<notin> open_routes"
  shows "verified_request st tr n q"
  using assms(1,3)
proof (induction rule: run_reach.induct)
  case (advanced tr w ru e w' ru')
  show ?case
  proof (cases "Handled n c rt q out \<in> set tr")
    case True
    from verified_request_mono [OF advanced.IH [OF True]] show ?thesis .
  next
    case False
    with advanced.prems have "e = Handled n c rt q out" by simp
    with handled_was_verified [OF advanced.hyps(1) assms(2) _ assms(4)] advanced.hyps(2)
    show ?thesis by (blast intro: verified_request_mono)
  qed
qed simp

section \<open>What can change the relay\<close>

fun ws_conn :: "ws_event \<Rightarrow> nat" where
  "ws_conn (Connected c) = c"
| "ws_conn (Forwarded c fs) = c"
| "ws_conn (Left c) = c"

text \<open>The request on whose behalf a step is made, in an execution with this trace before it.\<close>

fun acts_for :: "run_event list \<Rightarrow> run_event \<Rightarrow> nat \<Rightarrow> claims request \<Rightarrow> bool" where
  "acts_for tr (Handled n c rt q out) m q' \<longleftrightarrow> m = n \<and> q' = q"
| "acts_for tr (SigStep n x) m q' \<longleftrightarrow> m = n \<and> (\<exists>c ep h. Handled n c (RSignal ep) q' (Waiting h) \<in> set tr)"
| "acts_for tr (PushStep n x) m q' \<longleftrightarrow> m = n \<and> (\<exists>c h. Handled n c RPushSend q' (Pushes h) \<in> set tr)"
| "acts_for tr (WsStep x) m q' \<longleftrightarrow> (\<exists>b r. Handled m (ws_conn x) RWs q' (Socket (WsJoined b r)) \<in> set tr)"
| "acts_for tr _ m q' \<longleftrightarrow> False"

definition signals_in :: "run_event list \<Rightarrow> nat \<Rightarrow> bool" where
  "signals_in tr n \<longleftrightarrow> (\<exists>q c ep h. Handled n c (RSignal ep) q (Waiting h) \<in> set tr)"

definition connects_in :: "run_event list \<Rightarrow> nat \<Rightarrow> bool" where
  "connects_in tr c \<longleftrightarrow> (\<exists>n q b r. Handled n c RWs q (Socket (WsJoined b r)) \<in> set tr)"

definition pushes_in :: "run_event list \<Rightarrow> nat \<Rightarrow> bool" where
  "pushes_in tr n \<longleftrightarrow> (\<exists>q c h. Handled n c RPushSend q (Pushes h) \<in> set tr)"

definition accounted :: "run_event list \<Rightarrow> 'w running \<Rightarrow> bool" where
  "accounted tr ru \<longleftrightarrow> (\<forall>n \<in> dom (ru_live ru). signals_in tr n) \<and> (\<forall>c \<in> dom (ru_phases ru). connects_in tr c) \<and>
     (\<forall>n \<in> dom (ru_pushes ru). pushes_in tr n)"

lemma in_mono: "signals_in tr n \<Longrightarrow> signals_in (tr @ tr') n" "connects_in tr c \<Longrightarrow> connects_in (tr @ tr') c"
  "pushes_in tr n \<Longrightarrow> pushes_in (tr @ tr') n"
  unfolding signals_in_def connects_in_def pushes_in_def by (metis UnCI set_append)+

lemma in_last:
  "signals_in (tr @ [Handled n c (RSignal ep) q (Waiting h)]) n"
  "connects_in (tr @ [Handled n c RWs q (Socket (WsJoined b r))]) c"
  "pushes_in (tr @ [Handled n c RPushSend q (Pushes h')]) n"
  unfolding signals_in_def connects_in_def pushes_in_def by auto

lemma accounted_same:
  "accounted tr ru \<Longrightarrow> dom (ru_live ru') \<subseteq> dom (ru_live ru) \<Longrightarrow> dom (ru_phases ru') \<subseteq> dom (ru_phases ru) \<Longrightarrow>
     dom (ru_pushes ru') \<subseteq> dom (ru_pushes ru) \<Longrightarrow> accounted (tr @ tr') ru'"
  unfolding accounted_def by (intro conjI ballI in_mono) (elim conjE, drule (1) subsetD, drule (1) bspec, assumption)+

lemma ws_step_phases:
  assumes "Ws_Relay.ws_step s e s'" and "e \<notin> range Connected"
  shows "dom (phases s') = dom (phases s)" and "phases s (ws_conn e) \<noteq> None"
  using assms by (cases, auto)+

lemma run_reach_accounted: "run_reach st tr w ru \<Longrightarrow> accounted tr ru"
proof (induction rule: run_reach.induct)
  case (opened w now)
  show ?case by (simp add: accounted_def)
next
  case (advanced tr w ru e w' ru')
  from advanced.hyps(2) show ?case
  proof (cases rule: run_step_kinds)
    case outer
    then show ?thesis by (intro accounted_same [OF advanced.IH]) simp_all
  next
    case (handled n mo rt q out)
    show ?thesis
    proof (cases out)
      case (Waiting h)
      with start_route_signaling [OF handled(3)] obtain ep where "rt = RSignal ep" by auto
      with Waiting handled(1,4,5,6) advanced.IH show ?thesis
        by (auto simp: accounted_def in_last intro: in_mono)
    next
      case (Socket x)
      from handled(3) show ?thesis
      proof (cases rule: start_route_hub)
        case same
        with Socket have "\<And>b rm. x \<noteq> WsJoined b rm" by simp
        with Socket handled show ?thesis
          by (intro accounted_same [OF advanced.IH]) (auto split: ws_entry.splits)
      next
        case (joined b rm)
        with handled(1,4,5,6) advanced.IH show ?thesis
          by (auto simp: accounted_def in_last intro: in_mono)
      qed
    next
      case (Pushes h)
      then have "rt = RPushSend"
        using handled(3)
        by (cases rt) (auto simp: start_route_def start_register_def run_route_def split: prod.splits sum.splits)
      with Pushes handled(1,4,5,6) advanced.IH show ?thesis
        by (auto simp: accounted_def in_last intro: in_mono)
    qed (use handled in \<open>auto intro: accounted_same [OF advanced.IH]\<close>)
  next
    case (sig n h x s h')
    then show ?thesis by (intro accounted_same [OF advanced.IH]) auto
  next
    case (push n h x m h')
    then show ?thesis by (intro accounted_same [OF advanced.IH]) auto
  next
    case (ws x s)
    from ws_step_phases(1) [OF ws(4,2)] ws show ?thesis
      by (intro accounted_same [OF advanced.IH]) simp_all
  qed
qed

lemma changes_act_for:
  assumes "run_reach st tr w ru" and "run_step st w ru e w' ru'" and "ru_relay ru' \<noteq> ru_relay ru"
  obtains n c rt q out where "e = Handled n c rt q out" and "rt \<notin> open_routes"
  | n c rt q out where "acts_for tr e n q" and "Handled n c rt q out \<in> set tr" and "rt \<notin> open_routes"
  using assms(2)
proof (cases rule: run_step_kinds)
  case outer
  with assms(3) show ?thesis by simp
next
  case (handled n mo rt q out)
  have "rt \<notin> open_routes"
    using handled(3) assms(3) by (auto simp: open_routes_def start_route_def run_route_def)
  with handled(1) that(1) show ?thesis by blast
next
  case (sig n h x s h')
  with run_reach_accounted [OF assms(1)] obtain q c ep h0 where
    "Handled n c (RSignal ep) q (Waiting h0) \<in> set tr" unfolding accounted_def signals_in_def by blast
  with sig(1) show ?thesis by (intro that(2) [of n q c "RSignal ep" "Waiting h0"]) (auto simp: open_routes_def)
next
  case (push n h x m h')
  with run_reach_accounted [OF assms(1)] obtain q c h0 where
    "Handled n c RPushSend q (Pushes h0) \<in> set tr" unfolding accounted_def pushes_in_def by blast
  with push(1) show ?thesis by (intro that(2) [of n q c RPushSend "Pushes h0"]) (auto simp: open_routes_def)
next
  case (ws x s)
  from ws_step_phases(2) [OF ws(4,2)] have "ws_conn x \<in> dom (ru_phases ru)" by auto
  with run_reach_accounted [OF assms(1)] have "connects_in tr (ws_conn x)" by (simp add: accounted_def)
  then obtain n q b r where "Handled n (ws_conn x) RWs q (Socket (WsJoined b r)) \<in> set tr"
    unfolding connects_in_def by blast
  with ws(1) show ?thesis by (intro that(2)) (auto simp: open_routes_def)
qed

text \<open>In a configured process, whatever changes the relay is done for a request whose token was verified.\<close>

lemma changes_are_verified:
  assumes "run_reach st tr w ru" and "st_jwks st \<noteq> []" and "run_step st w ru e w' ru'"
    and "ru_relay ru' \<noteq> ru_relay ru"
  shows "\<exists>n q. acts_for tr e n q \<and> verified_request st tr n q"
  using changes_act_for [OF assms(1,3,4)]
proof cases
  case (1 n c rt q out)
  with handled_was_verified [OF assms(1,2)] assms(3) show ?thesis by auto
next
  case (2 n c rt q out)
  with handled_verified_reach [OF assms(1,2) 2(2,3)] show ?thesis by blast
qed

section \<open>The registries\<close>

lemma run_step_relay_ok:
  assumes "run_step st w ru e w' ru'" and "relay_ok (ru_relay ru)"
  shows "relay_ok (ru_relay ru')"
  using assms(1)
proof (cases rule: run_step_kinds)
  case (handled n mo rt q out)
  with run_route_ok [OF assms(2), of mo rt q w] assms(2) show ?thesis by (auto dest: start_route_relay)
next
  case (push n h x m h')
  with push_step_inv [OF push(3)] assms(2) show ?thesis by (simp add: relay_ok_def)
qed (use assms(2) in \<open>simp_all add: relay_ok_def\<close>)

lemma run_reach_relay_ok: "run_reach st tr w ru \<Longrightarrow> relay_ok (ru_relay ru)"
  by (induction rule: run_reach.induct)
    (simp add: relay_ok_def reg_inv_NewMemory push_inv_New, rule run_step_relay_ok)

lemma run_reach_registry: "run_reach st tr w ru \<Longrightarrow> reg_inv (r_registry (ru_relay ru))"
  by (drule run_reach_relay_ok) (simp add: relay_ok_def)

text \<open>A step touches the registry only as the handler of a registration.\<close>

lemma run_step_registry:
  assumes "run_step st w ru e w' ru'"
  obtains (same) "r_registry (ru_relay ru') = r_registry (ru_relay ru)"
  | (registers) n c q out and mo :: moment and resp where "e = Handled n c RRegister q out"
      and "registerBastion (mo_entropy mo) (mo_now mo) id q (r_registry (ru_relay ru)) =
        (r_registry (ru_relay ru'), resp)"
  using assms
proof (cases rule: run_step_kinds)
  case (handled n mo rt q out)
  show ?thesis
  proof (cases "rt = RRegister")
    case True
    then obtain m resp where reg: "registerBastion (mo_entropy mo) (mo_now mo) id q (r_registry (ru_relay ru)) = (m, resp)"
      and "ru_relay ru' = (ru_relay ru)\<lparr>r_registry := m\<rparr>"
      using start_route_relay [OF handled(3)] by (auto simp: run_route_def split: prod.splits)
    then have "r_registry (ru_relay ru') = m" by simp
    with reg handled(1) True registers [of n "mo_conn mo" q out mo resp] show ?thesis by simp
  next
    case False
    then have "r_registry (fst (start_route mo rt q (ru_relay ru) w)) = r_registry (ru_relay ru)"
      using start_route_relay [OF handled(3)] handled(3)
      by (cases rt) (auto simp: start_route_def run_route_def split: prod.split)
    with handled(3) same show ?thesis by simp
  qed
qed (auto intro: same)

lemma registerBastion_keeps_owner:
  assumes "reg_inv m" and "ledger m i = Some b"
  shows "\<exists>b'. ledger (fst (registerBastion ent now id rq m)) i = Some b' \<and>
    b_UserID b' = b_UserID b \<and> b_CreatedAt b' = b_CreatedAt b"
proof (cases "fst (registerBastion ent now id rq m) = m")
  case False
  with registerBastion_state [of ent now rq m] obtain x where
    "fst (registerBastion ent now id rq m) = fst (Register m x ent now)" by blast
  with mem.register_keeps_owner [OF assms, of x ent now] show ?thesis by simp
qed (use assms(2) in simp)

definition owned_by :: "'w running \<Rightarrow> string \<Rightarrow> string \<Rightarrow> time \<Rightarrow> bool" where
  "owned_by ru i u created \<longleftrightarrow>
     (\<exists>b. ledger (r_registry (ru_relay ru)) i = Some b \<and> b_UserID b = u \<and> b_CreatedAt b = created)"

lemma run_step_keeps_owner:
  assumes "run_reach st tr w ru" and "run_step st w ru e w' ru'" and "owned_by ru i u created"
  shows "owned_by ru' i u created"
  using assms(2)
proof (cases rule: run_step_registry)
  case same
  with assms(3) show ?thesis by (simp add: owned_by_def)
next
  case (registers n c q out mo resp)
  obtain b where b: "ledger (r_registry (ru_relay ru)) i = Some b" "b_UserID b = u" "b_CreatedAt b = created"
    using assms(3) by (auto simp: owned_by_def)
  from registerBastion_keeps_owner [OF run_reach_registry [OF assms(1)] b(1), of "mo_entropy mo" "mo_now mo" q]
    registers(2) b show ?thesis by (simp add: owned_by_def)
qed

lemma run_step_changes_bastion:
  assumes "run_reach st tr w ru" and "run_step st w ru e w' ru'"
    and "ledger (r_registry (ru_relay ru)) i = Some b" and "ledger (r_registry (ru_relay ru')) i \<noteq> Some b"
  shows "\<exists>n c q out cl. e = Handled n c RRegister q out \<and> ClaimsFromContext q = Some cl \<and>
    UserID cl = b_UserID b \<and>
    token_proved (st_auth st) (st_jwks st) (st_issuer st) (st_audience st) (auth_trace tr) n cl"
  using assms(2)
proof (cases rule: run_step_registry)
  case same
  with assms(3,4) show ?thesis by simp
next
  case (registers n c q out mo resp)
  from registerBastion_owner [OF run_reach_registry [OF assms(1)] registers(2) assms(3,4)] obtain cl where
    "ClaimsFromContext q = Some cl" "UserID cl = b_UserID b" by blast
  with handler_claims_proved [OF assms(1)] assms(2) registers(1) show ?thesis by blast
qed

section \<open>No WebSocket behind the middleware\<close>

lemma run_step_no_socket:
  assumes "run_step st w ru e w' ru'" and "\<And>wt. st_upgrades st wt \<Longrightarrow> offers_hijack wt"
    and "ru_phases ru = Map.empty"
  shows "r_wsHub (ru_relay ru') = r_wsHub (ru_relay ru) \<and> ru_phases ru' = Map.empty"
  using assms(1)
proof (cases rule: run_step_kinds)
  case (handled n mo rt q out)
  have no: "\<not> mo_accept mo (StatusRecorder wt) rq subs" for wt rq subs
    using handled(2) assms(2) [of "StatusRecorder wt"] by (auto simp: moment_ok_def)
  from handled(3) show ?thesis
  proof (cases rule: start_route_hub)
    case same
    with handled(5) assms(3) show ?thesis by (auto split: served.splits ws_entry.splits)
  next
    case (joined b rm)
    then show ?thesis by (auto simp: HandleHTTP_def wrapped_writer_def no split: ws_start.splits)
  qed
next
  case (ws x s)
  from ws_step_phases(2) [OF ws(4,2)] assms(3) show ?thesis by simp
qed (simp_all add: assms(3))

lemma run_reach_no_socket:
  assumes "run_reach st tr w ru" and "\<And>wt. st_upgrades st wt \<Longrightarrow> offers_hijack wt"
  shows "r_wsHub (ru_relay ru) = new_hub \<and> ru_phases ru = Map.empty"
  using assms(1)
proof (induction rule: run_reach.induct)
  case (advanced tr w ru e w' ru')
  with run_step_no_socket [OF advanced.hyps(2) assms(2)] show ?case by simp
qed simp

end
