(* ===== verification/Relay_Pushes.thy ===== *)
theory Relay_Pushes
  imports Relay_Runs
begin

text \<open>
  The requests in the loop of \<open>pushSend\<close> (\<open>cmd/chepherd-relay/main.go\<close>) beside all others: which
  devices they try, what they report, and what a failure can hit when the registry has changed
  in between.
\<close>

section \<open>The events of one loop\<close>

fun tried :: "push_event list \<Rightarrow> registration list" where
  "tried [] = []"
| "tried (SentTo r # es) = r # tried es"
| "tried (MissedBy r err # es) = r # tried es"
| "tried (e # es) = tried es"

fun delivered :: "push_event list \<Rightarrow> nat" where
  "delivered [] = 0"
| "delivered (SentTo r # es) = Suc (delivered es)"
| "delivered (e # es) = delivered es"

fun missed_count :: "push_event list \<Rightarrow> nat" where
  "missed_count [] = 0"
| "missed_count (MissedBy r err # es) = Suc (missed_count es)"
| "missed_count (e # es) = missed_count es"

fun captured_count :: "push_event list \<Rightarrow> nat" where
  "captured_count [] = 0"
| "captured_count (Captured tags txt # es) = Suc (captured_count es)"
| "captured_count (e # es) = captured_count es"

lemma push_counts_append [simp]:
  "tried (es @ es') = tried es @ tried es'"
  "delivered (es @ es') = delivered es + delivered es'"
  "missed_count (es @ es') = missed_count es + missed_count es'"
  "captured_count (es @ es') = captured_count es + captured_count es'"
  by (induction es, auto, case_tac a, auto)+

lemma tried_length: "length (tried es) = delivered es + missed_count es"
  by (induction es rule: tried.induct) auto

text \<open>Where a loop that began with \<open>h0\<close> stands after the events \<open>es\<close>.\<close>

fun push_ok :: "pushing \<Rightarrow> push_event list \<Rightarrow> pushing \<Rightarrow> bool" where
  "push_ok h0 es (Sends l) \<longleftrightarrow>
     (\<exists>l0. h0 = Sends l0 \<and> tried es @ pl_left l = pl_left l0 \<and> pl_total l = pl_total l0 \<and>
        pl_sent l = delivered es \<and> pl_failed l = missed_count es \<and> captured_count es = missed_count es)"
| "push_ok h0 es (Marks r err l) \<longleftrightarrow>
     (\<exists>l0. h0 = Sends l0 \<and> tried es @ pl_left l = pl_left l0 \<and> pl_total l = pl_total l0 \<and>
        pl_sent l = delivered es \<and> pl_failed l = missed_count es \<and> Suc (captured_count es) = missed_count es \<and>
        es \<noteq> [] \<and> last es = MissedBy r err)"
| "push_ok h0 es (Pushed resp) \<longleftrightarrow>
     h0 = Pushed resp \<and> es = [] \<or>
     (\<exists>l0. h0 = Sends l0 \<and> tried es = pl_left l0 \<and> captured_count es = missed_count es \<and>
        resp = counts_response (pl_total l0) (delivered es) (missed_count es))"

lemma push_ok_step:
  assumes "push_step disp m w h e m' w' h'" and "push_ok h0 es h"
  shows "push_ok h0 (es @ [e]) h'"
  using assms by cases auto

lemma start_push_ok: "push_ok (start_push ks q m) [] (start_push ks q m)"
  by (auto simp: start_push_def Let_def split: option.split)

text \<open>A loop starts with the devices of the caller, each once.\<close>

lemma start_push_devices:
  assumes "start_push ks q m = Sends l" and "push_inv m" and "enumerates ks (regs m)"
  shows "pl_total l = length (pl_left l) \<and> distinct (map r_DeviceID (pl_left l)) \<and>
    (\<exists>c. ClaimsFromContext q = Some c \<and>
       set (pl_left l) = {r. regs m (r_DeviceID r) = Some r \<and> r_UserID r = UserID c})"
proof -
  obtain c where c: "ClaimsFromContext q = Some c" and l: "pl_left l = ListTokens m ks (UserID c)"
    "pl_total l = length (pl_left l)"
    using assms(1) by (auto simp: start_push_def Let_def split: option.splits if_splits)
  have "distinct (map r_DeviceID (pl_left l))"
    using tokens.list_distinct_devices [OF assms(2,3)] by (simp add: l)
  moreover have "set (pl_left l) = {r. regs m (r_DeviceID r) = Some r \<and> r_UserID r = UserID c}"
    using assms(2) unfolding l tokens.list_set [OF assms(3)] by (auto simp: push_inv_def)
  ultimately show ?thesis using c l(2) by blast
qed

section \<open>The loops in an execution\<close>

fun push_event_of :: "nat \<Rightarrow> run_event \<Rightarrow> push_event list" where
  "push_event_of n (PushStep m e) = (if m = n then [e] else [])"
| "push_event_of n _ = []"

definition push_events :: "nat \<Rightarrow> run_event list \<Rightarrow> push_event list" where
  "push_events n tr = concat (map (push_event_of n) tr)"

lemma push_events_append [simp]: "push_events n (tr @ tr') = push_events n tr @ push_events n tr'"
  by (simp add: push_events_def)

lemma push_events_single [simp]: "push_events n [e] = push_event_of n e"
  by (simp add: push_events_def)

lemma push_event_other: "(\<And>x. e \<noteq> PushStep n x) \<Longrightarrow> push_event_of n e = []"
  by (cases e) auto

text \<open>
  The loop of the request \<open>n\<close> began with \<open>h0\<close>, on the registry \<open>m\<close> of that moment, and has made
  the steps of the trace since.
\<close>

definition push_began :: "('k, 'c, 'a, 'e, 'w) setting \<Rightarrow> run_event list \<Rightarrow> nat \<Rightarrow> claims request \<Rightarrow> push_memory \<Rightarrow>
     pushing \<Rightarrow> bool" where
  "push_began st tr n q m h0 \<longleftrightarrow>
     (\<exists>tr1 tr2 w ru x ks. tr = tr1 @ Handled n x RPushSend q (Pushes h0) # tr2 \<and> run_reach st tr1 w ru \<and>
        m = r_pushTokens (ru_relay ru) \<and> enumerates ks (regs m) \<and> h0 = start_push ks q m)"

definition push_accounted :: "('k, 'c, 'a, 'e, 'w) setting \<Rightarrow> run_event list \<Rightarrow> 'w running \<Rightarrow> nat \<Rightarrow> bool" where
  "push_accounted st tr ru n \<longleftrightarrow>
     (case ru_pushes ru n of
        None \<Rightarrow> push_events n tr = []
      | Some h \<Rightarrow> (\<exists>q m h0. push_began st tr n q m h0 \<and> push_ok h0 (push_events n tr) h))"

lemma push_began_mono: "push_began st tr n q m h0 \<Longrightarrow> push_began st (tr @ tr') n q m h0"
  unfolding push_began_def by (metis append.assoc append_Cons)

lemma push_accounted_same:
  assumes "push_accounted st tr ru n" and "ru_pushes ru' n = ru_pushes ru n" and "\<And>x. e \<noteq> PushStep n x"
  shows "push_accounted st (tr @ [e]) ru' n"
  using assms push_event_other [OF assms(3)] push_began_mono
  by (fastforce simp: push_accounted_def split: option.splits)

lemma run_reach_pushes: "run_reach st tr w ru \<Longrightarrow> push_accounted st tr ru n"
proof (induction rule: run_reach.induct)
  case (opened w now)
  show ?case by (simp add: push_accounted_def push_events_def)
next
  case (advanced tr w ru e w' ru')
  from advanced.hyps(2) show ?case
  proof (cases rule: run_step_kinds)
    case outer
    then show ?thesis by (intro push_accounted_same [OF advanced.IH]) auto
  next
    case (handled m mo rt q out)
    show ?thesis
    proof (cases "m = n \<and> (\<exists>h. out = Pushes h)")
      case True
      then obtain h where h: "m = n" "out = Pushes h" by blast
      have rt: "rt = RPushSend"
        using handled(3) h(2)
        by (cases rt) (auto simp: start_route_def start_register_def run_route_def split: prod.splits sum.splits)
      with handled(3) h(2) have start: "h = start_push (mo_devices mo) q (r_pushTokens (ru_relay ru))"
        by (auto simp: start_route_def)
      have "ru_pushes ru n = None"
        using numbers_idle [OF run_reach_numbers [OF advanced.hyps(1)], of n] handled(7) h(1) by (simp add: fresh_def)
      then have none: "push_events n (tr @ [e]) = []"
        using advanced.IH handled(1) by (simp add: push_accounted_def)
      have "push_began st (tr @ [e]) n q (r_pushTokens (ru_relay ru)) h"
        unfolding push_began_def using advanced.hyps(1) handled(1,2) h rt start
        by (intro exI [of _ tr] exI [of _ "[]"] exI [of _ w] exI [of _ ru] exI [of _ "mo_conn mo"]
            exI [of _ "mo_devices mo"]) (simp add: moment_ok_def)
      moreover have "push_ok h [] h" unfolding start by (rule start_push_ok)
      ultimately show ?thesis using handled(6) h none by (auto simp: push_accounted_def)
    next
      case False
      with handled show ?thesis
        by (intro push_accounted_same [OF advanced.IH]) (auto split: served.splits)
    qed
  next
    case (sig m h x s h')
    then show ?thesis by (intro push_accounted_same [OF advanced.IH]) auto
  next
    case (push m h x mm h')
    show ?thesis
    proof (cases "m = n")
      case True
      obtain q m0 h0 where "push_began st tr n q m0 h0" "push_ok h0 (push_events n tr) h"
        using advanced.IH push(2) True by (auto simp: push_accounted_def)
      with push_ok_step [OF push(3)] push_began_mono push(1,4) True show ?thesis
        by (fastforce simp: push_accounted_def)
    next
      case False
      with push show ?thesis by (intro push_accounted_same [OF advanced.IH]) auto
    qed
  next
    case (ws x s)
    then show ?thesis by (intro push_accounted_same [OF advanced.IH]) auto
  qed
qed

lemma run_step_push:
  assumes "run_step st w ru (PushStep n e) w' ru'"
  obtains h m h' where "ru_pushes ru n = Some h"
    and "push_step (r_pushDispatcher (ru_relay ru)) (r_pushTokens (ru_relay ru)) w h e m w' h'"
    and "ru' = ru\<lparr>ru_relay := (ru_relay ru)\<lparr>r_pushTokens := m\<rparr>, ru_pushes := (ru_pushes ru)(n \<mapsto> h')\<rparr>"
  using assms by cases auto

text \<open>When a loop reports, it has tried the devices of its caller, each once, and says how it went.\<close>

lemma run_step_report:
  assumes "run_reach st tr w ru" and "run_step st w ru (PushStep n (Reported attempted sent failed)) w' ru'"
  shows "\<exists>q m l c. push_began st tr n q m (Sends l) \<and> ClaimsFromContext q = Some c \<and>
    set (pl_left l) = {r. regs m (r_DeviceID r) = Some r \<and> r_UserID r = UserID c} \<and>
    distinct (map r_DeviceID (pl_left l)) \<and> tried (push_events n tr) = pl_left l \<and>
    attempted = length (pl_left l) \<and> sent = delivered (push_events n tr) \<and>
    failed = missed_count (push_events n tr) \<and> captured_count (push_events n tr) = failed \<and>
    sent + failed = attempted"
proof -
  obtain h m' h' where h: "ru_pushes ru n = Some h"
    and st: "push_step (r_pushDispatcher (ru_relay ru)) (r_pushTokens (ru_relay ru)) w h (Reported attempted sent failed) m' w' h'"
    by (rule run_step_push [OF assms(2)])
  from st obtain l' where l': "h = Sends l'" "pl_left l' = []" "attempted = pl_total l'" "sent = pl_sent l'"
    "failed = pl_failed l'" by cases auto
  have "push_accounted st tr ru n" by (rule run_reach_pushes [OF assms(1)])
  then obtain q m l where began: "push_began st tr n q m (Sends l)" and l: "tried (push_events n tr) = pl_left l"
    "attempted = pl_total l" "sent = delivered (push_events n tr)" "failed = missed_count (push_events n tr)"
    "captured_count (push_events n tr) = failed"
    using h l' by (auto simp: push_accounted_def)
  from began obtain tr1 w1 ru1 ks where re: "run_reach st tr1 w1 ru1" and m: "m = r_pushTokens (ru_relay ru1)"
    and ks: "enumerates ks (regs m)" and h0: "Sends l = start_push ks q m" by (auto simp: push_began_def)
  have "push_inv m" using run_reach_relay_ok [OF re] by (simp add: relay_ok_def m)
  from start_push_devices [OF h0 [symmetric] this ks] obtain c where
    "pl_total l = length (pl_left l)" "distinct (map r_DeviceID (pl_left l))" "ClaimsFromContext q = Some c"
    "set (pl_left l) = {r. regs m (r_DeviceID r) = Some r \<and> r_UserID r = UserID c}"
    by auto
  with began l tried_length [of "push_events n tr"] show ?thesis
    by (intro exI [of _ q] exI [of _ m] exI [of _ l] exI [of _ c]) simp
qed

section \<open>Whose devices\<close>

text \<open>A registration without the times that the registry keeps with it.\<close>

definition holder :: "push_memory \<Rightarrow> string \<Rightarrow> (string \<times> token) option" where
  "holder m d = map_option (\<lambda>r. (r_UserID r, r_Token r)) (regs m d)"

lemma holder_MarkFailure [simp]: "holder (MarkFailure m d now) = holder m"
  by (auto simp: holder_def MarkFailure_def split: option.split)

lemma holder_push_step: "push_step disp m w h e m' w' h' \<Longrightarrow> holder m' = holder m"
  by (erule push_step.cases) simp_all

lemma holder_pushRegister:
  assumes "pushRegister now q m = (m', resp)" and "holder m' d \<noteq> holder m d"
  shows "\<exists>c tok. ClaimsFromContext q = Some c \<and> holder m' d = Some (UserID c, tok)"
  using pushRegister_outcome [OF assms(1)] assms(2)
  by (auto simp: holder_def Upsert_def split: if_splits)

lemma run_step_changes_device:
  assumes "run_reach st tr w ru" and "run_step st w ru e w' ru'"
    and "holder (r_pushTokens (ru_relay ru')) d \<noteq> holder (r_pushTokens (ru_relay ru)) d"
  shows "\<exists>n x q out c tok. e = Handled n x RPushRegister q out \<and> ClaimsFromContext q = Some c \<and>
    holder (r_pushTokens (ru_relay ru')) d = Some (UserID c, tok) \<and>
    token_proved (st_auth st) (st_jwks st) (st_issuer st) (st_audience st) (auth_trace tr) n c"
  using assms(2)
proof (cases rule: run_step_kinds)
  case (handled n mo rt q out)
  have "rt \<noteq> RPushRegister \<Longrightarrow>
      r_pushTokens (fst (start_route mo rt q (ru_relay ru) w)) = r_pushTokens (ru_relay ru)"
    by (cases rt) (auto simp: start_route_def start_register_def run_route_def split: prod.split sum.split)
  with handled(3) assms(3) have "rt = RPushRegister" by (cases "rt = RPushRegister") auto
  moreover from this handled(3) obtain m resp where
    reg: "pushRegister (mo_now mo) q (r_pushTokens (ru_relay ru)) = (m, resp)"
    and "ru_relay ru' = (ru_relay ru)\<lparr>r_pushTokens := m\<rparr>"
    by (auto simp: start_route_def run_route_def split: prod.splits)
  then have "r_pushTokens (ru_relay ru') = m" by simp
  with reg have "pushRegister (mo_now mo) q (r_pushTokens (ru_relay ru)) = (r_pushTokens (ru_relay ru'), resp)"
    by simp
  from holder_pushRegister [OF this assms(3)] obtain c tok where
    "ClaimsFromContext q = Some c" "holder (r_pushTokens (ru_relay ru')) d = Some (UserID c, tok)" by blast
  ultimately show ?thesis using handler_claims_proved [OF assms(1)] assms(2) handled(1) by blast
next
  case (push n h x m h')
  with holder_push_step [OF push(3)] assms(3) show ?thesis by simp
qed (use assms(3) in simp_all)

section \<open>A failure that comes late\<close>

text \<open>
  When a failure is recorded, it is that of the last send of the loop, and it is recorded in the
  registration that the table has for the device now.
\<close>

lemma run_step_marks:
  assumes "run_reach st tr w ru" and "run_step st w ru (PushStep n (Captured tags txt)) w' ru'"
  shows "\<exists>r err l now. ru_pushes ru n = Some (Marks r err l) \<and> push_events n tr \<noteq> [] \<and>
    last (push_events n tr) = MissedBy r err \<and> tags = failure_tags r \<and>
    regs (r_pushTokens (ru_relay ru')) = (regs (r_pushTokens (ru_relay ru)))(r_DeviceID r :=
      map_option (\<lambda>x. x\<lparr>r_LastFailureAt := now\<rparr>) (regs (r_pushTokens (ru_relay ru)) (r_DeviceID r)))"
proof -
  obtain h m h' where h: "ru_pushes ru n = Some h"
    and st: "push_step (r_pushDispatcher (ru_relay ru)) (r_pushTokens (ru_relay ru)) w h (Captured tags txt) m w' h'"
    and ru': "ru' = ru\<lparr>ru_relay := (ru_relay ru)\<lparr>r_pushTokens := m\<rparr>, ru_pushes := (ru_pushes ru)(n \<mapsto> h')\<rparr>"
    by (rule run_step_push [OF assms(2)])
  from st obtain r err l now where "h = Marks r err l" "tags = failure_tags r"
    and "m = MarkFailure (r_pushTokens (ru_relay ru)) (r_DeviceID r) now" by cases auto
  moreover have "push_accounted st tr ru n" by (rule run_reach_pushes [OF assms(1)])
  ultimately show ?thesis
    using h ru' by (auto simp: push_accounted_def MarkFailure_def fun_upd_idem split: option.split
        intro!: exI [of _ r] exI [of _ now])
qed

end
