(* ===== verification/Main_Process.thy ===== *)
theory Main_Process
  imports Relay_Pushes
begin

text \<open>
  The process (\<open>main\<close> in \<open>cmd/chepherd-relay/main.go\<close>): the start of observability and of the
  relay, serving, and the two ways it ends. While it serves, its requests are the steps of
  \<open>Relay_System\<close>. The theorems about the relay are stated here for every execution of the
  process.
\<close>

section \<open>The process\<close>

text \<open>
  \<open>Signalled\<close> is the process between \<open>ctx.Done()\<close> and the call of \<open>Shutdown\<close>, \<open>Draining\<close> while
  \<open>Shutdown\<close> waits for the active requests or its deadline, \<open>Flushing\<close> in the loop of
  \<open>obsShutdown\<close>, with the providers still to stop, the time left of the context of ten seconds
  that both share, and the errors so far.
\<close>

datatype ('e, 'w) process =
    Serving "'e shutdown list" "'w running"
  | Signalled "'e shutdown list" "'w running"
  | Draining "'e shutdown list" "'w running"
  | Flushing "'e shutdown list" int "string list" "'w running"
  | Exited nat

text \<open>
  The start: \<open>flag.Parse\<close> ends the process when it is asked for help or cannot read the command
  line, \<open>log.Fatalf\<close> when observability fails.
\<close>

definition boot :: "('k, 'c, 'a, 'e, 'w) setting \<Rightarrow> time \<Rightarrow> 'w \<Rightarrow> 'w \<times> ('e, 'w) process" where
  "boot st now w =
     (case snd (flag_Parse (st_args st) Map.empty) of
        HelpAsked \<Rightarrow> (w, Exited 0)
      | BadFlags \<Rightarrow> (w, Exited 2)
      | FlagsRead \<Rightarrow>
          (case obs_Init (st_obs st) (obs_FromEnv (st_env st) ''chepherd-relay'' Version) w of
             (w', Inl _) \<Rightarrow> (w', Exited 1)
           | (w', Inr shutdowns) \<Rightarrow> (w', Serving shutdowns (start_serving st now))))"

text \<open>
  \<open>ShutdownReturned\<close> has the time left of the context; \<open>Flushed\<close> the provider, the time left, and
  the world before and after its stop; \<open>Returned\<close> what \<open>obsShutdown\<close> returned, which \<open>main\<close> drops.
\<close>

datatype ('e, 'w) main_event =
    During run_event
  | ListenFailed
  | Signal
  | ShutdownCalled
  | ShutdownReturned int
  | Flushed "'e shutdown" int 'w 'w
  | Returned "string option"

fun with_running :: "'w running \<Rightarrow> ('e, 'w) process \<Rightarrow> ('e, 'w) process" where
  "with_running ru (Serving sd _) = Serving sd ru"
| "with_running ru (Signalled sd _) = Signalled sd ru"
| "with_running ru (Draining sd _) = Draining sd ru"
| "with_running ru (Flushing sd left errs _) = Flushing sd left errs ru"
| "with_running ru (Exited n) = Exited n"

fun running_of :: "('e, 'w) process \<Rightarrow> 'w running option" where
  "running_of (Serving sd ru) = Some ru"
| "running_of (Signalled sd ru) = Some ru"
| "running_of (Draining sd ru) = Some ru"
| "running_of (Flushing sd left errs ru) = Some ru"
| "running_of (Exited _) = None"

definition ten_seconds :: int where
  "ten_seconds = 10000000000"

text \<open>No request is being served; an upgraded connection is not the server's any more.\<close>

definition requests_over :: "'w running \<Rightarrow> bool" where
  "requests_over ru \<longleftrightarrow> (\<forall>n. pred_option g_left (ru_gates ru n) \<and>
     pred_option (\<lambda>h. h \<in> range Done) (ru_live ru n) \<and> pred_option (\<lambda>h. h \<in> range Pushed) (ru_pushes ru n) \<and>
     ru_lookups ru n = None)"

text \<open>
  A step of the process. Requests go on until it exits. \<open>Shutdown\<close> returns when the requests are
  over or its context is. The goroutine of \<open>ListenAndServe\<close> ends the process with \<open>log.Fatal\<close>
  when listening fails for any reason but the shutdown; a failure just before the shutdown can
  get there at any time until the process has exited, and no deferred call or later line of
  \<open>main\<close> is run.
\<close>

inductive main_step ::
    "('k, 'c, 'a, 'e, 'w) setting \<Rightarrow> 'w \<Rightarrow> ('e, 'w) process \<Rightarrow> ('e, 'w) main_event \<Rightarrow> 'w \<Rightarrow> ('e, 'w) process \<Rightarrow> bool"
  for st where
  during: "running_of p = Some ru \<Longrightarrow> run_step st w ru e w' ru' \<Longrightarrow>
    main_step st w p (During e) w' (with_running ru' p)"
| listen_failed: "running_of p = Some ru \<Longrightarrow> main_step st w p ListenFailed w (Exited 1)"
| signal: "main_step st w (Serving sd ru) Signal w (Signalled sd ru)"
| shutdown: "main_step st w (Signalled sd ru) ShutdownCalled w (Draining sd ru)"
| drained: "0 \<le> left \<Longrightarrow> left \<le> ten_seconds \<Longrightarrow> requests_over ru \<or> left = 0 \<Longrightarrow>
    main_step st w (Draining sd ru) (ShutdownReturned left) w (Flushing sd left [] ru)"
| flush: "0 \<le> left' \<Longrightarrow> left' \<le> left \<Longrightarrow> run_shutdown (st_obs st) left' s w = (w', err) \<Longrightarrow>
    main_step st w (Flushing (s # sd) left errs ru) (Flushed s left' w w') w'
      (Flushing sd left' (errs @ (case err of None \<Rightarrow> [] | Some e \<Rightarrow> [e])) ru)"
| returned: "main_step st w (Flushing [] left errs ru) (Returned (join_errors errs)) w (Exited 0)"

inductive main_run ::
    "('k, 'c, 'a, 'e, 'w) setting \<Rightarrow> 'w \<Rightarrow> ('e, 'w) process \<Rightarrow> ('e, 'w) main_event list \<Rightarrow> 'w \<Rightarrow> ('e, 'w) process \<Rightarrow> bool"
  for st w p where
  stay: "main_run st w p [] w p"
| stepped: "main_run st w p tr w1 p1 \<Longrightarrow> main_step st w1 p1 e w2 p2 \<Longrightarrow> main_run st w p (tr @ [e]) w2 p2"

text \<open>An execution of the process from its start.\<close>

definition main_reach ::
    "('k, 'c, 'a, 'e, 'w) setting \<Rightarrow> ('e, 'w) main_event list \<Rightarrow> 'w \<Rightarrow> ('e, 'w) process \<Rightarrow> bool" where
  "main_reach st tr w p \<longleftrightarrow> (\<exists>now w0 w1 p1. boot st now w0 = (w1, p1) \<and> main_run st w1 p1 tr w p)"

lemma main_reach_induct [consumes 1, case_names boot step]:
  assumes "main_reach st tr w p"
    and "\<And>now w0 w p. boot st now w0 = (w, p) \<Longrightarrow> P [] w p"
    and "\<And>tr w p e w' p'. main_reach st tr w p \<Longrightarrow> P tr w p \<Longrightarrow> main_step st w p e w' p' \<Longrightarrow> P (tr @ [e]) w' p'"
  shows "P tr w p"
proof -
  obtain now w0 w1 p1 where b: "boot st now w0 = (w1, p1)" and run: "main_run st w1 p1 tr w p"
    using assms(1) by (auto simp: main_reach_def)
  from run show ?thesis
  proof (induction rule: main_run.induct)
    case stay
    show ?case by (rule assms(2) [OF b])
  next
    case (stepped tr w p e w' p')
    have "main_reach st tr w p" using b stepped.hyps(1) unfolding main_reach_def by blast
    from assms(3) [OF this stepped.IH stepped.hyps(2)] show ?case .
  qed
qed

lemma main_reach_step:
  assumes "main_reach st tr w p" and "main_step st w p e w' p'"
  shows "main_reach st (tr @ [e]) w' p'"
proof -
  obtain now w0 w1 p1 where b: "boot st now w0 = (w1, p1)" and run: "main_run st w1 p1 tr w p"
    using assms(1) by (auto simp: main_reach_def)
  show ?thesis
    unfolding main_reach_def by (intro exI conjI, rule b, rule main_run.stepped [OF run assms(2)])
qed

lemma main_reach_run: "main_run st w p tr' w' p' \<Longrightarrow> main_reach st tr w p \<Longrightarrow> main_reach st (tr @ tr') w' p'"
proof (induction rule: main_run.induct)
  case (stepped tr1 w1 p1 e w2 p2)
  from main_reach_step [OF stepped.IH [OF stepped.prems] stepped.hyps(2)] show ?case by simp
qed simp

lemma main_run_append:
  "main_run st w1 p1 tr' w2 p2 \<Longrightarrow> main_run st w p tr w1 p1 \<Longrightarrow> main_run st w p (tr @ tr') w2 p2"
proof (induction rule: main_run.induct)
  case (stepped tr' w1 p1 e w2 p2)
  from main_run.stepped [OF stepped.IH [OF stepped.prems] stepped.hyps(2)] show ?case by simp
qed simp

lemma main_run_one: "main_step st w p e w' p' \<Longrightarrow> main_run st w p [e] w' p'"
  using main_run.stepped [OF main_run.stay] by force

inductive_simps Exited_step [simp]: "main_step st w (Exited n) e w' p'"

lemma running_of_with [simp]:
  "running_of p = Some ru0 \<Longrightarrow> running_of (with_running ru p) = Some ru"
  by (cases p) auto

lemma with_running_Exited [simp]: "running_of p = Some ru0 \<Longrightarrow> with_running ru p \<noteq> Exited n"
  by (cases p) auto

lemma main_step_from_running: "main_step st w p e w' p' \<Longrightarrow> \<exists>ru. running_of p = Some ru"
  by (cases rule: main_step.cases) auto

section \<open>How it ends\<close>

fun flushes :: "('e, 'w) main_event list \<Rightarrow> ('e shutdown \<times> int \<times> 'w \<times> 'w) list" where
  "flushes [] = []"
| "flushes (Flushed s left w w' # tr) = (s, left, w, w') # flushes tr"
| "flushes (e # tr) = flushes tr"



lemma flushes_append [simp]: "flushes (tr @ tr') = flushes tr @ flushes tr'"
  by (induction tr rule: flushes.induct) auto














text \<open>The loop of \<open>obsShutdown\<close>, when no other step comes between, computes \<open>obs_Shutdown\<close>.\<close>

lemma flush_loop_is_obs_Shutdown:
  assumes "shutdown_loop (st_obs st) clock sd w = (w', es)"
    and "\<And>i. 0 \<le> clock i \<and> clock (Suc i) \<le> clock i" and "clock 0 \<le> left"
  shows "\<exists>tr left'. main_run st w (Flushing sd left errs ru) tr w' (Flushing [] left' (errs @ es) ru)"
  using assms
proof (induction sd arbitrary: clock w es left errs)
  case Nil
  then show ?case using main_run.stay by fastforce
next
  case (Cons s sd)
  obtain w1 e where one: "run_shutdown (st_obs st) (clock 0) s w = (w1, e)" by (metis surj_pair)
  obtain es1 where rest: "shutdown_loop (st_obs st) (\<lambda>n. clock (Suc n)) sd w1 = (w', es1)"
    and es: "es = (case e of None \<Rightarrow> [] | Some t \<Rightarrow> [t]) @ es1"
    using Cons.prems(1) one by (auto split: prod.splits option.splits)
  have "main_step st w (Flushing (s # sd) left errs ru) (Flushed s (clock 0) w w1) w1
      (Flushing sd (clock 0) (errs @ (case e of None \<Rightarrow> [] | Some t \<Rightarrow> [t])) ru)"
    using Cons.prems(2) [of 0] Cons.prems(3) one by (intro main_step.flush) auto
  note one_step = main_run_one [OF this]
  obtain tr left' where "main_run st w1 (Flushing sd (clock 0) (errs @ (case e of None \<Rightarrow> [] | Some t \<Rightarrow> [t])) ru) tr w'
      (Flushing [] left' ((errs @ (case e of None \<Rightarrow> [] | Some t \<Rightarrow> [t])) @ es1) ru)"
    using Cons.IH [OF rest, of "clock 0"] Cons.prems(2) by (metis (no_types, lifting))
  from main_run_append [OF this one_step] show ?case by (auto simp: es)
qed

section \<open>The serving relay inside the process\<close>

text \<open>What happens to the relay; the stop of a provider changes only the world outside.\<close>

fun run_events :: "('e, 'w) main_event list \<Rightarrow> run_event list" where
  "run_events [] = []"
| "run_events (During e # tr) = e # run_events tr"
| "run_events (Flushed s left w w' # tr) = Outside_World # run_events tr"
| "run_events (e # tr) = run_events tr"

lemma run_events_append [simp]: "run_events (tr @ tr') = run_events tr @ run_events tr'"
  by (induction tr rule: run_events.induct) auto

lemma process_run_reach:
  "main_reach st tr w p \<Longrightarrow> running_of p = Some ru \<Longrightarrow> run_reach st (run_events tr) w ru"
proof (induction arbitrary: ru rule: main_reach_induct)
  case (boot now w0 w p)
  then show ?case by (auto simp: boot_def split: flags_end.splits prod.splits sum.splits intro: run_reach.opened)
next
  case (step tr w p e w' p')
  obtain ru0 where ru0: "running_of p = Some ru0" using main_step_from_running [OF step.hyps(2)] ..
  note ih = step.IH [OF ru0]
  from step.hyps(2) show ?case
  proof cases
    case (during ru1 e1 ru2)
    with ru0 step.prems have "run_step st w ru0 e1 w' ru" by simp
    from run_reach.advanced [OF ih this] during(1) show ?thesis by simp
  next
    case (flush left' left s sd err errs ru1)
    with ih ru0 step.prems run_reach.advanced [OF _ run_step.outside_world] show ?thesis by simp
  qed (use ih ru0 step.prems in auto)
qed

lemma main_step_run:
  assumes "main_step st w p e w' p'" and "running_of p = Some ru" and "running_of p' = Some ru'"
  shows "ru' = ru \<or> (\<exists>e1. e = During e1 \<and> run_step st w ru e1 w' ru')"
  using assms by cases auto

lemma main_step_during:
  assumes "main_step st w p (During e) w' p'" and "running_of p = Some ru" and "running_of p' = Some ru'"
  shows "run_step st w ru e w' ru'"
  using assms by cases auto

text \<open>
  C21: The process embeds the systems of its components: in every execution of the process, from its
  start to its end, the signaling part is an execution of the system of \<open>Signaling\<close>, the hub one
  of the system of \<open>Ws_Relay\<close>, and the verifier with the verifications at the gate, if there is
  one, one of \<open>Auth_Interleaved\<close>. What is proved of those systems holds of the process.
\<close>

theorem process_embeds_systems:
  assumes "main_reach st tr w p" and "running_of p = Some ru"
  shows "reach (st_pid st) (concat (map sig_events (run_events tr))) (sig_part ru) \<and>
    ws_reach (concat (map hub_events (run_events tr))) (ws_part ru) \<and>
    (\<forall>v. ru_verifier ru = Some v \<longrightarrow>
       vreach (st_auth st) (st_jwks st) (st_issuer st) (st_audience st) (auth_trace (run_events tr))
         (auth_part v w ru))"
proof -
  note run = process_run_reach [OF assms]
  from run_reach_signaling [OF run] run_reach_hub [OF run] run_reach_auth [OF run] show ?thesis by simp
qed

section \<open>Authentication\<close>

text \<open>
  C1: A process that was given the URL of a key set, by flag or by environment, authenticates for as
  long as it runs, however its requests overlap. A handler, except those of health and statistics,
  runs only for a request whose token was accepted, and rightly: its header, its signature under
  a key that the configured URL published, its time, issuer and audience. And whatever
  changes the relay is done for such a request: by its handler, by a later step of a signaling
  handler, or by the WebSocket connection that it opened.
\<close>

theorem configured_process_authenticates:
  assumes "main_reach st tr w p" and "st_jwks st \<noteq> []"
    and "main_step st w p (During e) w' p'" and "running_of p = Some ru" and "running_of p' = Some ru'"
  shows "(\<forall>n x rt q out. e = Handled n x rt q out \<longrightarrow> rt \<notin> {RHealth, RStats} \<longrightarrow>
      verified_request st (run_events tr) n q) \<and>
    (ru_relay ru' \<noteq> ru_relay ru \<longrightarrow>
      (\<exists>n q. acts_for (run_events tr) e n q \<and> verified_request st (run_events tr) n q))"
proof -
  note run = process_run_reach [OF assms(1,4)]
  note step = main_step_during [OF assms(3-5)]
  from handled_was_verified [OF run assms(2)] step changes_are_verified [OF run assms(2) step]
  show ?thesis by (auto simp: open_routes_def)
qed

section \<open>Owners\<close>

text \<open>
  C23: Once a bastion is registered, it belongs to the same user, since the same time, for as long as
  the process runs, whatever requests it serves.
\<close>

theorem process_owner_permanent:
  assumes "main_reach st tr w p" and "main_run st w p tr' w' p'"
    and "running_of p = Some ru" and "running_of p' = Some ru'"
    and "owned_by ru i u created"
  shows "owned_by ru' i u created"
  using assms(2,4)
proof (induction arbitrary: ru' rule: main_run.induct)
  case stay
  with assms(3,5) show ?case by simp
next
  case (stepped tr1 w1 p1 e w2 p2)
  obtain ru1 where ru1: "running_of p1 = Some ru1" using main_step_from_running [OF stepped.hyps(2)] ..
  note run = process_run_reach [OF main_reach_run [OF stepped.hyps(1) assms(1)] ru1]
  from main_step_run [OF stepped.hyps(2) ru1 stepped.prems] stepped.IH [OF ru1]
    run_step_keeps_owner [OF run] show ?case by blast
qed

text \<open>
  C20: The record of a bastion changes only when a registration for it is handled whose token was
  accepted with the claims of the user who owns the bastion; in a process without a key set it
  never changes.
\<close>

theorem bastion_changes_only_by_owner:
  assumes "main_reach st tr w p" and "main_step st w p e w' p'"
    and "running_of p = Some ru" and "running_of p' = Some ru'"
    and "ledger (r_registry (ru_relay ru)) i = Some b" and "ledger (r_registry (ru_relay ru')) i \<noteq> Some b"
  shows "\<exists>n x q out c. e = During (Handled n x RRegister q out) \<and> ClaimsFromContext q = Some c \<and>
    UserID c = b_UserID b \<and>
    token_proved (st_auth st) (st_jwks st) (st_issuer st) (st_audience st) (auth_trace (run_events tr)) n c"
proof -
  have "ru' \<noteq> ru" using assms(5,6) by auto
  with main_step_run [OF assms(2-4)] obtain e1 where e: "e = During e1" "run_step st w ru e1 w' ru'" by blast
  from run_step_changes_bastion [OF process_run_reach [OF assms(1,3)] e(2) assms(5,6)] e(1) show ?thesis
    by blast
qed

text \<open>
  C38: A device token is stored, or moves to another holder, only when a registration of the device is
  handled whose token was accepted, and then the caller holds it; failed sends and everything
  else leave the holders alone.
\<close>

theorem device_changes_only_by_registration:
  assumes "main_reach st tr w p" and "main_step st w p e w' p'"
    and "running_of p = Some ru" and "running_of p' = Some ru'"
    and "holder (r_pushTokens (ru_relay ru')) d \<noteq> holder (r_pushTokens (ru_relay ru)) d"
  shows "\<exists>n x q out c tok. e = During (Handled n x RPushRegister q out) \<and> ClaimsFromContext q = Some c \<and>
    holder (r_pushTokens (ru_relay ru')) d = Some (UserID c, tok) \<and>
    token_proved (st_auth st) (st_jwks st) (st_issuer st) (st_audience st) (auth_trace (run_events tr)) n c"
proof -
  have "ru' \<noteq> ru" using assms(5) by auto
  with main_step_run [OF assms(2-4)] obtain e1 where e: "e = During e1" "run_step st w ru e1 w' ru'" by blast
  from run_step_changes_device [OF process_run_reach [OF assms(1,3)] e(2) assms(5)] e(1) show ?thesis by blast
qed

section \<open>Reports of pushes\<close>

text \<open>
  C25: When a request to send reports, it has tried exactly the devices that its caller held when it
  began, each once, and its counts are what happened: the sends that succeeded, and the failures,
  each of which was captured; whatever other requests did in between.
\<close>

theorem push_reports_are_true:
  assumes "main_reach st tr w p" and "main_step st w p (During (PushStep n (Reported attempted sent failed))) w' p'"
  shows "\<exists>q m l c. push_began st (run_events tr) n q m (Sends l) \<and> ClaimsFromContext q = Some c \<and>
    set (pl_left l) = {r. regs m (r_DeviceID r) = Some r \<and> r_UserID r = UserID c} \<and>
    distinct (map r_DeviceID (pl_left l)) \<and> tried (push_events n (run_events tr)) = pl_left l \<and>
    attempted = length (pl_left l) \<and> sent = delivered (push_events n (run_events tr)) \<and>
    failed = missed_count (push_events n (run_events tr)) \<and>
    captured_count (push_events n (run_events tr)) = failed \<and> sent + failed = attempted"
proof -
  from assms(2) obtain ru ru' where ru: "running_of p = Some ru"
    and step: "run_step st w ru (PushStep n (Reported attempted sent failed)) w' ru'" by cases
  show ?thesis by (rule run_step_report [OF process_run_reach [OF assms(1) ru] step])
qed

section \<open>No WebSocket behind the middleware\<close>

text \<open>
  C33: \<open>websocket.Accept\<close> upgrades only through \<open>http.Hijacker\<close>, and \<open>main\<close> serves every route
  through the observability middleware, whose writer does not offer it: in no execution of the
  process is a WebSocket ever joined, and the hub stays empty.
\<close>

theorem ws_never_joined_in_main:
  assumes "main_reach st tr w p" and "\<And>wt. st_upgrades st wt \<Longrightarrow> offers_hijack wt"
    and "running_of p = Some ru"
  shows "r_wsHub (ru_relay ru) = new_hub \<and> ru_phases ru = Map.empty"
  by (rule run_reach_no_socket [OF process_run_reach [OF assms(1,3)] assms(2)])


section \<open>A request that meets no other\<close>

lemma with_running_twice [simp]: "with_running ru (with_running ru' p) = with_running ru p"
  by (cases p) auto

lemma with_running_same [simp]: "running_of p = Some ru \<Longrightarrow> with_running ru p = p"
  by (cases p) auto

lemma set_gate_again [simp]:
  "set_gate n x ((set_gate n y ru)\<lparr>ru_verifier := v\<rparr>) = set_gate n x (ru\<lparr>ru_verifier := v\<rparr>)"
  by (simp add: set_gate_def)

text \<open>At the gate, a verification that runs alone gets to its verdict by steps of the process.\<close>

lemma alone_is_run:
  assumes "alone (st_auth st) v w h v' w' res"
    and "running_of p = Some ru" and "ru_verifier ru = Some v" and "ru_gates ru n = Some g" and "g_run g = h"
  shows "\<exists>tr. main_run st w p tr w'
    (with_running (set_gate n (g\<lparr>g_run := Verdict res\<rparr>) (ru\<lparr>ru_verifier := Some v'\<rparr>)) p)"
  using assms
proof (induction arbitrary: p ru g rule: alone.induct)
  case (over v w r)
  have "set_gate n (g\<lparr>g_run := Verdict r\<rparr>) (ru\<lparr>ru_verifier := Some v\<rparr>) = ru"
    using over.prems by (cases ru) (auto simp: set_gate_def fun_eq_iff)
  with over.prems main_run.stay show ?case by (intro exI [of _ "[]"]) simp
next
  case (turn v w h e v1 w1 h1 v2 w2 r)
  let ?ru1 = "set_gate n (g\<lparr>g_run := h1\<rparr>) (ru\<lparr>ru_verifier := Some v1\<rparr>)"
  have "run_step st w ru (Verifying n e) w1 ?ru1"
    using turn.hyps(1) turn.prems by (intro run_step.verifying) auto
  from main_run_one [OF main_step.during [OF turn.prems(1) this]]
  have one: "main_run st w p [During (Verifying n e)] w1 (with_running ?ru1 p)" .
  obtain tr where "main_run st w1 (with_running ?ru1 p) tr w2
      (with_running (set_gate n (g\<lparr>g_run := Verdict r\<rparr>) (ru\<lparr>ru_verifier := Some v2\<rparr>)) p)"
    using turn.IH [of "with_running ?ru1 p" ?ru1 "g\<lparr>g_run := h1\<rparr>"] turn.prems by auto
  from main_run_append [OF this one] show ?case by blast
qed

definition set_push :: "nat \<Rightarrow> pushing \<Rightarrow> push_memory \<Rightarrow> 'w running \<Rightarrow> 'w running" where
  "set_push n h m ru = ru\<lparr>ru_relay := (ru_relay ru)\<lparr>r_pushTokens := m\<rparr>, ru_pushes := (ru_pushes ru)(n \<mapsto> h)\<rparr>"

lemma set_push_simps [simp]:
  "ru_relay (set_push n h m ru) = (ru_relay ru)\<lparr>r_pushTokens := m\<rparr>"
  "ru_pushes (set_push n h m ru) = (ru_pushes ru)(n \<mapsto> h)"
  "ru_verifier (set_push n h m ru) = ru_verifier ru" "ru_used (set_push n h m ru) = ru_used ru"
  "ru_gates (set_push n h m ru) = ru_gates ru" "ru_live (set_push n h m ru) = ru_live ru"
  "ru_phases (set_push n h m ru) = ru_phases ru"
  "set_push n h m (set_push n h' m' ru) = set_push n h m ru"
  by (simp_all add: set_push_def)

lemma push_main_step:
  assumes "running_of p = Some ru" and "ru_pushes ru n = Some h"
    and "push_step (r_pushDispatcher (ru_relay ru)) (r_pushTokens (ru_relay ru)) w h e m w' h'"
  shows "main_step st w p (During (PushStep n e)) w' (with_running (set_push n h' m ru) p)"
  unfolding set_push_def by (rule main_step.during [OF assms(1) run_step.push_step [OF assms(2,3)]])

text \<open>In the loop of \<open>pushSend\<close>, a run that meets no other is one of the process.\<close>

lemma push_alone_is_run:
  assumes "push_alone disp m w h m' w' resp"
    and "running_of p = Some ru" and "disp = r_pushDispatcher (ru_relay ru)"
    and "m = r_pushTokens (ru_relay ru)" and "ru_pushes ru n = Some h"
  shows "\<exists>tr. main_run st w p tr w' (with_running (set_push n (Pushed resp) m' ru) p)"
  using assms
proof (induction arbitrary: p ru rule: push_alone.induct)
  case (over m w resp)
  then have same: "set_push n (Pushed resp) m ru = ru" by (simp add: set_push_def fun_upd_idem)
  show ?case
    unfolding same with_running_same [OF over.prems(1)] by (intro exI [of _ "[]"] main_run.stay)
next
  case (turn m w h e m1 w1 h1 m2 w2 resp)
  let ?ru1 = "set_push n h1 m1 ru"
  have "main_step st w p (During (PushStep n e)) w1 (with_running ?ru1 p)"
    using turn.hyps(1) turn.prems by (intro push_main_step) simp_all
  note one = main_run_one [OF this]
  obtain tr where "main_run st w1 (with_running ?ru1 p) tr w2 (with_running (set_push n (Pushed resp) m2 ru) p)"
    using turn.IH [of "with_running ?ru1 p" ?ru1] turn.prems by auto
  from main_run_append [OF this one] show ?case by blast
qed

text \<open>
  What is left when the handler of the request \<open>n\<close> has run: of the state \<open>ru\<close>, all but the
  relay, the places where the handler goes on, and the records of the request itself.
\<close>

definition after_handler :: "nat \<Rightarrow> nat \<Rightarrow> 'w relay \<Rightarrow> served \<Rightarrow> 'w running \<Rightarrow> 'w running \<Rightarrow> bool" where
  "after_handler n c r' out ru ru' \<longleftrightarrow>
     ru_relay ru' = r' \<and> ru_verifier ru' = ru_verifier ru \<and> ru_used ru' = ru_used ru \<and>
     ru_gates ru' = ru_gates ru \<and>
     ru_live ru' = ru_live (admit n c out ru) \<and> ru_phases ru' = ru_phases (admit n c out ru) \<and>
     (\<forall>m. m \<noteq> n \<longrightarrow> ru_pushes ru' m = ru_pushes ru m)"

text \<open>A registration that meets no other looks its own bastion up.\<close>

lemma register_alone:
  assumes "run_route mo RRegister q (ru_relay ru) w = (r', w', out)" and "running_of p = Some ru0"
    and "\<And>r1 w1 o1. start_route mo RRegister q (ru_relay ru) w = (r1, w1, o1) \<Longrightarrow>
      \<exists>e. run_step st w ru0 e w1 (admit n c o1 (ru\<lparr>ru_relay := r1\<rparr>))"
  shows "\<exists>tr ru'. main_run st w p tr w' (with_running ru' p) \<and> after_handler n c r' out ru ru'"
proof -
  obtain m res where start: "start_registration (mo_entropy mo) (mo_now mo) q (r_registry (ru_relay ru)) = (m, res)"
    by (cases "start_registration (mo_entropy mo) (mo_now mo) q (r_registry (ru_relay ru))")
  let ?r = "(ru_relay ru)\<lparr>r_registry := m\<rparr>"
  have eq: "r' = ?r" "w' = w" "out = Replied (case res of Inl resp \<Rightarrow> resp | Inr (i, tok) \<Rightarrow> registered_response m i tok)"
    using assms(1) start by (auto simp: run_route_def registerBastion_parts split: sum.splits)
  show ?thesis
  proof (cases res)
    case (Inl resp)
    then have "start_route mo RRegister q (ru_relay ru) w = (?r, w, Replied resp)"
      by (simp add: start_route_def start_register_def start)
    from assms(3) [OF this] obtain e where "run_step st w ru0 e w (admit n c (Replied resp) (ru\<lparr>ru_relay := ?r\<rparr>))" ..
    from main_run_one [OF main_step.during [OF assms(2) this]] show ?thesis
      unfolding eq by (intro exI conjI) (auto simp: after_handler_def)
  next
    case (Inr x)
    obtain i tok where x: "x = (i, tok)" by (cases x)
    let ?ru1 = "admit n c (Registers i tok) (ru\<lparr>ru_relay := ?r\<rparr>)"
    have "start_route mo RRegister q (ru_relay ru) w = (?r, w, Registers i tok)"
      by (simp add: start_route_def start_register_def start Inr x)
    from assms(3) [OF this] obtain e where "run_step st w ru0 e w ?ru1" ..
    note one = main_run_one [OF main_step.during [OF assms(2) this]]
    have at: "running_of (with_running ?ru1 p) = Some ?ru1" using assms(2) by simp
    have "ru_lookups ?ru1 n = Some (i, tok)" by simp
    from main_run_append [OF main_run_one [OF main_step.during [OF at run_step.looked_up [OF this]]] one] show ?thesis
      unfolding eq by (intro exI conjI) (auto simp: after_handler_def)
  qed
qed

lemma route_alone:
  assumes "run_route mo rt q (ru_relay ru) w = (r', w', out)" and "running_of p = Some ru0"
    and "\<And>r1 w1 o1. start_route mo rt q (ru_relay ru) w = (r1, w1, o1) \<Longrightarrow>
      \<exists>e. run_step st w ru0 e w1 (admit n c o1 (ru\<lparr>ru_relay := r1\<rparr>))"
  shows "\<exists>tr ru'. main_run st w p tr w' (with_running ru' p) \<and> after_handler n c r' out ru ru'"
proof -
  consider (other) "rt \<notin> {RPushSend, RRegister}" | (push) "rt = RPushSend" | (register) "rt = RRegister" by blast
  then show ?thesis
  proof cases
    case other
    with assms(1) have "start_route mo rt q (ru_relay ru) w = (r', w', out)" by (simp add: start_route_def)
    from assms(3) [OF this] obtain e where "run_step st w ru0 e w' (admit n c out (ru\<lparr>ru_relay := r'\<rparr>))" ..
    from main_run_one [OF main_step.during [OF assms(2) this]] show ?thesis
      using assms(1) other
      by (intro exI conjI)
        (auto simp: after_handler_def run_route_def split: served.split ws_entry.split prod.splits route.splits)
  next
    case register
    show ?thesis by (rule register_alone [OF assms(1) [unfolded register] assms(2) assms(3) [unfolded register]])
  next
    case push
    let ?h = "start_push (mo_devices mo) q (r_pushTokens (ru_relay ru))"
    let ?ru1 = "ru\<lparr>ru_pushes := (ru_pushes ru)(n \<mapsto> ?h)\<rparr>"
    have "start_route mo rt q (ru_relay ru) w = (ru_relay ru, w, Pushes ?h)" by (simp add: start_route_def push)
    from assms(3) [OF this] obtain e where "run_step st w ru0 e w ?ru1" by (auto simp: admit_def)
    note one = main_run_one [OF main_step.during [OF assms(2) this]]
    obtain s resp where sends: "pushSend (r_pushDispatcher (ru_relay ru)) (mo_ctx mo) (\<lambda>_. id) (mo_devices mo) q
        (r_pushTokens (ru_relay ru)) w = (s, resp)" by (metis surj_pair)
    with assms(1) push have out: "r' = (ru_relay ru)\<lparr>r_pushTokens := sl_tokens s\<rparr>" "w' = sl_world s" "out = Replied resp"
      by (auto simp: run_route_def)
    have at: "running_of (with_running ?ru1 p) = Some ?ru1" using assms(2) by simp
    from push_alone_is_run [OF pushSend_is_alone [OF sends] at, of n st] assms(2) obtain tr where
      "main_run st w (with_running ?ru1 p) tr (sl_world s)
        (with_running (set_push n (Pushed resp) (sl_tokens s) ?ru1) p)" by auto
    from main_run_append [OF this one] show ?thesis
      by (intro exI conjI) (auto simp: out after_handler_def)
  qed
qed

text \<open>The same for a request, from the multiplexer on.\<close>

definition after_request :: "nat \<Rightarrow> nat \<Rightarrow> verifier option \<Rightarrow> 'w relay \<Rightarrow> served \<Rightarrow> 'w running \<Rightarrow> 'w running \<Rightarrow> bool" where
  "after_request n c v' r' out ru ru' \<longleftrightarrow>
     ru_verifier ru' = v' \<and> ru_relay ru' = r' \<and> ru_used ru' = insert n (ru_used ru) \<and>
     ru_live ru' = ru_live (admit n c out ru) \<and> ru_phases ru' = ru_phases (admit n c out ru) \<and>
     (\<forall>m. m \<noteq> n \<longrightarrow> ru_gates ru' m = ru_gates ru m \<and> ru_pushes ru' m = ru_pushes ru m)"

text \<open>A request that goes to the gate gets to its verdict, the one of the sequential \<open>Verify\<close>.\<close>

lemma gate_alone:
  assumes "running_of p = Some ru" and "n \<notin> ru_used ru" and "rq_claims rq = None"
    and "enter_mux (Some v) rq = ToGate rt rq' token" and "ru_verifier ru = Some v"
    and "Verify (st_auth st) t token v w = (v1, w1, res)"
  shows "\<exists>tr. main_run st w p tr w1 (with_running
    (set_gate n \<lparr>g_route = rt, g_request = rq', g_run = Verdict res, g_left = False\<rparr>
      ((use_number n ru)\<lparr>ru_verifier := Some v1\<rparr>)) p)"
proof -
  let ?g = "\<lparr>g_route = rt, g_request = rq', g_run = start_verification (st_auth st) token, g_left = False\<rparr>"
  let ?ru1 = "set_gate n ?g (use_number n ru)"
  have "enter_mux (ru_verifier ru) rq = ToGate rt rq' token" using assms(4,5) by simp
  note one = main_run_one [OF main_step.during [OF assms(1) run_step.at_gate [OF assms(2,3) this]]]
  have "alone (st_auth st) v w (start_verification (st_auth st) token) v1 w1 res"
    unfolding Verify_is_solo_run using assms(6) by blast
  from alone_is_run [OF this, of "with_running ?ru1 p" ?ru1 n ?g] assms(1,5) obtain tr where
    two: "main_run st w (with_running ?ru1 p) tr w1
      (with_running (set_gate n (?g\<lparr>g_run := Verdict res\<rparr>) (?ru1\<lparr>ru_verifier := Some v1\<rparr>)) p)" by auto
  from main_run_append [OF two one] show ?thesis by auto
qed

lemma serve_alone:
  assumes "serve (st_auth st) mo rq (ru_verifier ru) (ru_relay ru) w = (v', r', w', out)"
    and "running_of p = Some ru" and "n \<notin> ru_used ru" and "rq_claims rq = None" and "moment_ok st ru mo"
  shows "\<exists>tr ru'. main_run st w p tr w' (with_running ru' p) \<and> after_request n (mo_conn mo) v' r' out ru ru'"
proof (cases "enter_mux (ru_verifier ru) rq")
  case (Settled resp)
  then have eq: "v' = ru_verifier ru" "r' = ru_relay ru" "w' = w" "out = Replied resp"
    using assms(1) by (auto simp: serve_def mux_parts)
  from main_run_one [OF main_step.during [OF assms(2) run_step.at_once [OF assms(3,4) Settled]]]
  have "main_run st w p [During (AtOnce n resp)] w (with_running (use_number n ru) p)" .
  with eq show ?thesis by (intro exI conjI) (auto simp: after_request_def)
next
  case (Handle rt rq')
  then have v': "v' = ru_verifier ru" and run: "run_route mo rt rq' (ru_relay (use_number n ru)) w = (r', w', out)"
    using assms(1) by (auto simp: serve_def mux_parts split: prod.splits)
  have "\<exists>e. run_step st w ru e w1 (admit n (mo_conn mo) o1 ((use_number n ru)\<lparr>ru_relay := r1\<rparr>))"
    if "start_route mo rt rq' (ru_relay (use_number n ru)) w = (r1, w1, o1)" for r1 w1 o1
    using run_step.handled_open [OF assms(3,4) Handle assms(5), of w r1 w1 o1] that by auto
  from route_alone [OF run assms(2) this] obtain tr ru' where
    "main_run st w p tr w' (with_running ru' p)" "after_handler n (mo_conn mo) r' out (use_number n ru) ru'" by blast
  with v' show ?thesis
    by (intro exI conjI) (auto simp: after_request_def after_handler_def split: served.split ws_entry.split)
next
  case (ToGate rt rq' token)
  then obtain v where v: "ru_verifier ru = Some v" by (rule enter_mux_gate)
  obtain v1 w1 res where ver: "Verify (st_auth st) (mo_clocks mo) token v w = (v1, w1, res)" by (metis prod_cases3)
  let ?g = "\<lparr>g_route = rt, g_request = rq', g_run = Verdict res, g_left = False\<rparr>"
  let ?ru2 = "set_gate n ?g ((use_number n ru)\<lparr>ru_verifier := Some v1\<rparr>)"
  obtain tr where here: "main_run st w p tr w1 (with_running ?ru2 p)"
    using gate_alone [OF assms(2,3,4) _ v ver] ToGate v by auto
  have gate: "ru_gates ?ru2 n = Some ?g" by simp
  have at: "running_of (with_running ?ru2 p) = Some ?ru2" using assms(2) by simp
  show ?thesis
  proof (cases "leave_gate (st_auth st) rq' res")
    case (Refused resp)
    then have eq: "v' = Some v1" "r' = ru_relay ru" "w' = w1" "out = Replied resp"
      using assms(1) ToGate v ver by (auto simp: serve_def mux_parts)
    have "run_step st w1 ?ru2 (TurnedAway n resp) w1 (set_gate n (?g\<lparr>g_left := True\<rparr>) ?ru2)"
      using run_step.turned_away [OF gate, of res st resp w1] Refused by simp
    from main_run_append [OF main_run_one [OF main_step.during [OF at this]] here] eq show ?thesis
      by (intro exI conjI) (auto simp: after_request_def)
  next
    case (Passed rq'')
    let ?ru3 = "set_gate n (?g\<lparr>g_left := True\<rparr>) ?ru2"
    have v': "v' = Some v1" and run: "run_route mo rt rq'' (ru_relay ?ru3) w1 = (r', w', out)"
      using assms(1) ToGate v ver Passed by (auto simp: serve_def mux_parts split: prod.splits)
    have "moment_ok st ?ru2 mo" using assms(5) by (simp add: moment_ok_def)
    with run_step.handled_verified [OF gate, of res st rq'' mo w1] Passed
    have "\<exists>e. run_step st w1 ?ru2 e w2 (admit n (mo_conn mo) o1 (?ru3\<lparr>ru_relay := r1\<rparr>))"
      if "start_route mo rt rq'' (ru_relay ?ru3) w1 = (r1, w2, o1)" for r1 w2 o1
      using that by auto
    from route_alone [OF run at this] obtain tr3 ru' where
      "main_run st w1 (with_running ?ru2 p) tr3 w' (with_running ru' p)"
      "after_handler n (mo_conn mo) r' out ?ru3 ru'" by auto
    with main_run_append [OF this(1) here] v' show ?thesis
      by (intro exI conjI) (auto simp: after_request_def after_handler_def split: served.split ws_entry.split)
  qed
qed

text \<open>
  What \<open>serve\<close> computes for a request is what the process can do with it: from every state there
  are steps of the process to a state with the relay, the verifier and the world that \<open>serve\<close>
  says, in which what \<open>serve\<close> leaves waiting goes on.
\<close>

theorem serve_is_solo_run:
  assumes "main_reach st tr w p" and "running_of p = Some ru" and "n \<notin> ru_used ru"
    and "serve (st_auth st) mo rq (ru_verifier ru) (ru_relay ru) w = (v', r', w', out)"
    and "rq_claims rq = None" and "moment_ok st ru mo"
  shows "\<exists>tr' ru'. main_reach st (tr @ tr') w' (with_running ru' p) \<and>
    after_request n (mo_conn mo) v' r' out ru ru'"
  using serve_alone [OF assms(4,2,3,5,6)] main_reach_run [OF _ assms(1)] by blast

end
