(* ===== verification/Relay_Demo.thy ===== *)
theory Relay_Demo
  imports Relay_Theorems Ws_Theorems
begin

text \<open>
  Concrete requests to the relay of \<open>cmd/chepherd-relay/main.go\<close> as witnesses: the identity
  service, key and token are those of \<open>Auth_Demo\<close>.
\<close>

definition demo_moment :: moment where
  "demo_moment =
     \<lparr>mo_now = 1000000000000, mo_clocks = demo_clocks 1000, mo_entropy = Inr [1], mo_bastions = [],
      mo_devices = [], mo_rooms = [], mo_ctx = demo_send_ctx, mo_pid = 1, mo_conn = 2,
      mo_accept = (\<lambda>wt rq subs. offers_hijack wt)\<rparr>"

definition demo_relay :: "nat relay" where
  "demo_relay = (newRelay 0 (\<lambda>_. []) no_outside (\<lambda>_ n w. (w, Inl ''none'')))\<lparr>r_pushDispatcher := demo_dispatcher\<rparr>"

definition web_request :: "string \<Rightarrow> string \<Rightarrow> (string \<times> string) list \<Rightarrow> claims request" where
  "web_request m p hs = \<lparr>rq_method = m, rq_path = p, rq_query = [], rq_headers = hs, rq_body = json_print (JObj []), rq_claims = None\<rparr>"

lemma demo_reach: "relay_reach lib (main_verifier url iss aud) demo_relay"
  unfolding demo_relay_def by (rule relay_new)

definition hopeful :: "claims request" where
  "hopeful = web_request ''POST'' ''/v1/register'' [(''Authorization'', ''Bearer chep_ab'')]"

lemma hopeful_not_bearer: "\<not> bearer (demo_lib True) (mo_clocks demo_moment) hopeful demo_verifier 0 c"
proof -
  have "mint_token (Inr [171]) = Inr ''chep_ab''" by code_simp
  from daemon_token_rejected [OF this, of "demo_lib True"] show ?thesis
    by (auto simp: bearer_def hopeful_def web_request_def header_get_def first_value_def)
qed

theorem unauthenticated_leaves_relay_witness:
  "\<exists>v' w' out. serve (demo_lib True) demo_moment hopeful (Some demo_verifier) demo_relay 0 = (v', demo_relay, w', out)"
proof -
  obtain v' r' w' out where s: "serve (demo_lib True) demo_moment hopeful (Some demo_verifier) demo_relay 0 = (v', r', w', out)"
    by (metis prod_cases4)
  from unauthenticated_leaves_relay [OF s hopeful_not_bearer] s show ?thesis by auto
qed

text \<open>A user re-registers the bastion that the store already holds for her.\<close>

definition alice_store :: memory where
  "alice_store = fst (Register NewMemory (zero_bastion\<lparr>b_ID := ''b1'', b_UserID := ''alice''\<rparr>) (Inr [0]) 5)"

text \<open>An identity service whose token carries the relay's user id.\<close>

definition alice_claims_json :: json where
  "alice_claims_json = JObj [(''chepherd:user_id'', JStr ''alice''), (''iss'', JStr ''idp'')]"

definition alice_body :: string where
  "alice_body = b64_encode (json_bytes alice_claims_json)"

definition alice_jwt :: string where
  "alice_jwt = jwt_of alice_body"

definition alice_rq :: "claims request" where
  "alice_rq = \<lparr>rq_method = ''POST'', rq_path = ''/v1/register'', rq_query = [],
     rq_headers = [(''Authorization'', ''Bearer '' @ alice_jwt)],
     rq_body = json_print (JObj [(''id'', JStr ''b1'')]), rq_claims = None\<rparr>"

lemma id_json: "literal_json (JObj [(''id'', JStr ''b1'')])"
  by code_simp

lemma alice_rq_decodes:
  "decode_body fs z (WithClaims alice_rq c) = dec_struct fs z (JObj [(''id'', JStr ''b1'')])"
  by (rule decode_body_literal [OF _ id_json]) (simp add: alice_rq_def WithClaims_def)

definition alice_claims :: claims where
  "alice_claims = zero_claims\<lparr>UserID := ''alice'', Issuer := ''idp''\<rparr>"

lemma alice_decode: "base64URLDecode alice_body = Inr (json_bytes alice_claims_json)"
  unfolding alice_body_def by (rule b64_roundtrip)

lemma alice_parsed: "parse_claims (json_bytes alice_claims_json) = Some alice_claims"
proof -
  have lit: "literal_json alice_claims_json" unfolding alice_claims_json_def by code_simp
  have "unquote ''chepherd:user_id'' = ''chepherd:user_id''" "unquote ''iss'' = ''iss''"
    "unquote ''alice'' = ''alice''" "unquote ''idp'' = ''idp''"
    by (simp_all add: plain_reading)
  then show ?thesis
    unfolding parse_claims_def json_bytes_read(1) [OF lit]
    by (simp add: alice_claims_json_def demo_fields zero_claims_def alice_claims_def)
qed

lemma alice_shape:
  "token_shape alice_jwt demo_head alice_body ''Aw'' \<lparr>h_Alg = ''RS256'', h_Kid = ''k1'', h_Typ = []\<rparr>"
proof -
  have "split_on (CHR ''.'') alice_jwt = [demo_head, alice_body, ''Aw'']"
    using jwt_of_parts b64_no_dot by (simp add: alice_jwt_def alice_body_def)
  then show ?thesis by (auto simp: token_shape_def demo_decode demo_parsed)
qed

lemma alice_verified:
  "Verify (demo_lib True) (demo_clocks 1000) alice_jwt demo_cached 0 = (demo_cached, 0, Inr alice_claims)"
proof -
  have "keyFor (demo_lib True) (demo_clocks 1000) ''k1'' demo_cached 0 = (demo_cached, 0, Inr demo_key)"
    by (simp add: keyFor_def cached_key_def reread_key_def demo_cached_def demo_verifier_def NewVerifier_def demo_clocks_def
        time_sub_def min_duration_def max_duration_def one_hour_def)
  moreover have "check_claims (demo_lib True) demo_cached (at_check (demo_clocks 1000)) alice_body = Inr alice_claims"
    by (simp add: check_claims_def alice_decode alice_parsed demo_cached_def demo_verifier_def NewVerifier_def)
      (simp add: alice_claims_def zero_claims_def)
  ultimately show ?thesis
    by (simp add: Verify_shape [OF alice_shape] demo_decode) (simp add: demo_lib_def demo_key_def)
qed

lemma alice_passes:
  "auth_Middleware (demo_lib True) (demo_clocks 1000) alice_rq demo_cached 0 =
     (demo_cached, 0, Passed (WithClaims alice_rq alice_claims))"
  unfolding middleware_passes alice_rq_def
  by (simp add: header_get_def first_value_def alice_verified)

definition alice_row :: "string \<Rightarrow> time \<Rightarrow> bastion" where
  "alice_row tok seen = zero_bastion\<lparr>b_ID := ''b1'', b_UserID := ''alice'', b_DaemonToken := tok,
     b_CreatedAt := 5, b_LastSeenAt := seen\<rparr>"

definition alice_relay :: "nat relay" where
  "alice_relay = demo_relay\<lparr>r_registry := \<lparr>rows = (\<lambda>_. alice_row ''chep_00'' 5), next_row = 1,
     byID = [''b1'' \<mapsto> 0], byToken = [''chep_00'' \<mapsto> 0]\<rparr>\<rparr>"

lemma alice_relay_inv: "reg_inv (r_registry alice_relay)"
  by (auto simp: alice_relay_def reg_inv_def alice_row_def)

lemma alice_route: "map_of routes (rq_path alice_rq) = Some RRegister"
  by (simp add: routes_def alice_rq_def)

lemma alice_registers:
  "ledger (fst (registerBastion (Inr [1]) 1000000000000 id (WithClaims alice_rq alice_claims) (r_registry alice_relay))) ''b1'' =
     Some (alice_row ''chep_01'' 1000000000000)"
proof -
  have t: "mint_token (Inr [1]) = Inr ''chep_01''" by code_simp
  have d: "decode_body register_fields \<lparr>rb_ID = [], rb_Capabilities = [], rb_ChepherdVersion = [], rb_Hostname = []\<rparr>
      (WithClaims alice_rq alice_claims) =
      Some \<lparr>rb_ID = ''b1'', rb_Capabilities = [], rb_ChepherdVersion = [], rb_Hostname = []\<rparr>"
    by (simp add: alice_rq_decodes register_fields_def find_field_def fld_def plain_reading)
  have "Register (r_registry alice_relay) (zero_bastion\<lparr>b_ID := ''b1'', b_UserID := ''alice'',
        b_ChepherdVersion := [], b_Capabilities := [], b_Hostname := []\<rparr>) (Inr [1]) 1000000000000 =
      (\<lparr>rows = (\<lambda>_. alice_row ''chep_00'' 5)(0 := alice_row ''chep_01'' 1000000000000), next_row = 1,
        byID = [''b1'' \<mapsto> 0], byToken = [''chep_01'' \<mapsto> 0]\<rparr>, Inr ''chep_01'')"
    by (simp add: Register_def t alice_relay_def alice_row_def zero_bastion_def fun_eq_iff)
  moreover have "rq_method (WithClaims alice_rq alice_claims) = ''POST''" "UserID alice_claims = ''alice''"
    "ClaimsFromContext (WithClaims alice_rq alice_claims) = Some alice_claims"
    by (simp_all add: WithClaims_def ClaimsFromContext_def alice_rq_def alice_claims_def)
  ultimately show ?thesis by (simp add: registerBastion_def d ledger_def)
qed

theorem serve_changes_bastion_only_by_owner_witness:
  "\<exists>v' r' w' out c. serve (demo_lib True) demo_moment alice_rq (Some demo_cached) alice_relay 0 = (v', r', w', out) \<and>
     ledger (r_registry r') ''b1'' \<noteq> ledger (r_registry alice_relay) ''b1'' \<and>
     bearer (demo_lib True) (mo_clocks demo_moment) alice_rq demo_cached 0 c \<and> UserID c = ''alice''"
proof -
  obtain v' r' w' out where s: "serve (demo_lib True) demo_moment alice_rq (Some demo_cached) alice_relay 0 = (v', r', w', out)"
    by (metis prod_cases4)
  have old: "ledger (r_registry alice_relay) ''b1'' = Some (alice_row ''chep_00'' 5)"
    by (simp add: ledger_def alice_relay_def)
  have m: "mux (demo_lib True) (demo_clocks 1000) alice_rq (Some demo_cached) 0 =
      (Some demo_cached, 0, Enter RRegister (WithClaims alice_rq alice_claims))"
    using alice_route alice_passes by (simp add: mux_def protect_def open_routes_def)
  have "ledger (r_registry r') ''b1'' = Some (alice_row ''chep_01'' 1000000000000)"
    using s alice_registers
    by (auto simp: serve_def m demo_moment_def run_route_def split: prod.splits)
  then have new: "ledger (r_registry r') ''b1'' \<noteq> Some (alice_row ''chep_00'' 5)"
    by (auto dest: arg_cong [of _ _ b_LastSeenAt] simp: alice_row_def)
  from serve_changes_bastion_only_by_owner [OF s alice_relay_inv old new] s new old
  show ?thesis by (auto simp: alice_row_def)
qed

theorem relay_stays_well_formed_witness: "reg_inv (r_registry demo_relay) \<and> push_inv (r_pushTokens demo_relay)"
  by (rule relay_stays_well_formed [OF demo_reach [of "demo_lib True" "[]" "[]" "[]"]])

text \<open>A poll in a relay without a verifier.\<close>

definition poll_request :: "claims request" where
  "poll_request = (web_request ''GET'' ''/v1/signaling/poll'' [])\<lparr>rq_query := [(''bastion'', ''b1'')]\<rparr>"

theorem signaling_request_is_system_step_witness:
  "\<exists>s'. sys_step 1 init_sys (0, start_event (Polling ''b1'' 0)) s'"
proof -
  have "\<exists>r'. serve (demo_lib True) demo_moment poll_request None demo_relay 0 = (None, r', 0, Waiting (Polling ''b1'' 0))"
    by (simp add: serve_def mux_def routes_def poll_request_def web_request_def open_routes_def protect_def
        run_route_def signalingPoll_def query_get_def first_value_def offer_queue_def demo_relay_def
        newRelay_def new_signaling_def Let_def)
  then obtain r' where s: "serve (demo_lib True) demo_moment poll_request None demo_relay 0 =
      (None, r', 0, Waiting (Polling ''b1'' 0))" ..
  from signaling_request_is_system_step [OF s, of init_sys 0] show ?thesis
    by (auto simp: init_sys_def demo_relay_def newRelay_def demo_moment_def)
qed

text \<open>Alice, whom no bastion is permitted, polls for the offers of the bastion \<open>b1\<close>.\<close>

definition nosy_poll :: "claims request" where
  "nosy_poll = alice_rq\<lparr>rq_method := ''GET'', rq_path := ''/v1/signaling/poll'', rq_query := [(''bastion'', ''b1'')]\<rparr>"

theorem signaling_ignores_claims_witness:
  "\<exists>v' r' w' q. serve (demo_lib True) demo_moment nosy_poll (Some demo_cached) alice_relay 0 =
     (v', r', w', Waiting (Polling ''b1'' q)) \<and> \<not> PermitsBastion alice_claims ''b1''"
proof -
  obtain v' r' w' out where s: "serve (demo_lib True) demo_moment nosy_poll (Some demo_cached) alice_relay 0 = (v', r', w', out)"
    by (metis prod_cases4)
  have b: "bearer (demo_lib True) (mo_clocks demo_moment) nosy_poll demo_cached 0 alice_claims"
    using alice_verified
    by (auto simp: bearer_def nosy_poll_def alice_rq_def header_get_def first_value_def demo_moment_def)
  have "map_of routes (rq_path nosy_poll) = Some (RSignal EPoll)" by (simp add: nosy_poll_def routes_def)
  from signaling_ignores_claims [OF s b this] obtain h where h: "out = Waiting h"
    "start_handler (mo_pid demo_moment) (mo_now demo_moment) EPoll (plain nosy_poll) (r_signaling alice_relay) = (r_signaling r', h)"
    by blast
  have "query_get (plain nosy_poll) ''bastion'' = ''b1''"
    by (simp add: plain_def nosy_poll_def query_get_def first_value_def)
  with h(2) have "\<exists>q. h = Polling ''b1'' q" by (auto simp: signalingPoll_def Let_def split: prod.splits)
  moreover have "\<not> PermitsBastion alice_claims ''b1''"
    by (simp add: PermitsBastion_def alice_claims_def zero_claims_def)
  ultimately show ?thesis using s h(1) by blast
qed

theorem ws_join_is_system_step_witness:
  "\<exists>s'. ws_step init_ws (Connected 2) s'"
proof -
  have "\<exists>h'. HandleHTTP (\<lambda>wt rq subs. offers_hijack wt) ServerWriter 2 (plain_rq ''client'' ''b1'' ''m'') new_hub =
      (h', WsJoined ''b1'' 0)"
    by (simp add: HandleHTTP_def plain_upgrade joinRoom_def new_hub_def Let_def)
  then obtain h' where "HandleHTTP (\<lambda>wt rq subs. offers_hijack wt) ServerWriter 2 (plain_rq ''client'' ''b1'' ''m'') new_hub =
      (h', WsJoined ''b1'' 0)" ..
  from ws_join_is_system_step [OF this, of init_ws] show ?thesis by (auto simp: init_ws_def)
qed

definition ws_request :: "claims request" where
  "ws_request = (web_request ''GET'' ''/v1/signaling/ws'' [])
     \<lparr>rq_query := [(''role'', ''client''), (''bastion_id'', ''b1'')]\<rparr>"

text \<open>The same request joins when the server's own writer is handed over.\<close>

theorem serve_never_joins_ws_witness:
  "\<exists>v' r' w' out. serve (demo_lib True) demo_moment ws_request None demo_relay 0 = (v', r', w', out) \<and>
     r_wsHub r' = r_wsHub demo_relay \<and>
     (\<exists>h'. HandleHTTP (mo_accept demo_moment) ServerWriter 2 ws_request (r_wsHub demo_relay) = (h', WsJoined ''b1'' 0))"
proof -
  obtain v' r' w' out where s: "serve (demo_lib True) demo_moment ws_request None demo_relay 0 = (v', r', w', out)"
    by (metis prod_cases4)
  have "mo_accept demo_moment wt rq subs \<Longrightarrow> offers_hijack wt" for wt rq subs
    by (simp add: demo_moment_def)
  from serve_never_joins_ws [OF this s] have "r_wsHub r' = r_wsHub demo_relay" by simp
  moreover have "HandleHTTP_start ws_request = Upgrade ''client'' ''b1'' [] [''chepherd-rc-v1'']"
    by (simp add: HandleHTTP_start_def ws_parse_def parseSecWSProtocol_def header_values_def ws_request_def
        web_request_def query_get_def first_value_def Let_def)
  then have "\<exists>h'. HandleHTTP (mo_accept demo_moment) ServerWriter 2 ws_request (r_wsHub demo_relay) = (h', WsJoined ''b1'' 0)"
    by (simp add: HandleHTTP_def demo_moment_def demo_relay_def newRelay_def joinRoom_def new_hub_def Let_def)
  ultimately show ?thesis using s by blast
qed

theorem dev_mode_has_no_identity_witness:
  "\<exists>v' w' out. serve (demo_lib True) demo_moment (web_request ''POST'' ''/v1/push/send'' []) None demo_relay 0 =
     (v', demo_relay, w', out)"
proof -
  obtain v' r' w' out where s: "serve (demo_lib True) demo_moment (web_request ''POST'' ''/v1/push/send'' [])
      (main_verifier [] [] []) demo_relay 0 = (v', r', w', out)"
    by (metis prod_cases4)
  from dev_mode_has_no_identity [OF _ _ _ s] have "r' = demo_relay" by (simp add: web_request_def)
  with s show ?thesis by (simp add: main_verifier_def)
qed

end
