(* ===== verification/Process_Demo.thy ===== *)
theory Process_Demo
  imports Main_Process Relay_Demo
begin

text \<open>
  Processes of \<open>cmd/chepherd-relay/main.go\<close> from their start, as witnesses of the properties of
  \<open>Main_Process\<close>; the identity service is the one of \<open>Relay_Demo\<close>.
\<close>

definition demo_setting :: "(nat, nat, nat, nat, nat) setting" where
  "demo_setting =
     \<lparr>st_obs = quiet_obs, st_auth = (demo_lib True), st_env = (\<lambda>_. []),
      st_args = [''-jwks=https://idp/certs'', ''--issuer'', ''idp'', ''-audience='', ''-addr'', '':80''],
      st_outside = no_outside, st_apns = (\<lambda>_ n w. (w, Inl ''none'')), st_pid = 1, st_upgrades = offers_hijack\<rparr>"

lemma demo_args:
  "flag_arg_of ''-jwks=https://idp/certs'' = Flag ''jwks'' (Some ''https://idp/certs'')"
  "flag_arg_of ''--issuer'' = Flag ''issuer'' None" "flag_arg_of ''-audience='' = Flag ''audience'' (Some [])"
  "flag_arg_of ''-addr'' = Flag ''addr'' None"
  by code_simp+

lemma demo_flags:
  "flag_Parse (st_args demo_setting) Map.empty =
     ([''jwks'' \<mapsto> ''https://idp/certs'', ''issuer'' \<mapsto> ''idp'', ''audience'' \<mapsto> [], ''addr'' \<mapsto> '':80''], FlagsRead)"
  unfolding demo_setting_def setting.simps flag_Parse.simps(2) demo_args by (simp add: defined_flags_def demo_args)

definition demo_running :: "nat running" where
  "demo_running = start_serving demo_setting 0"

lemma demo_setting_flags:
  "setting_flags demo_setting =
     \<lparr>fl_addr = '':80'', fl_jwks = ''https://idp/certs'', fl_issuer = ''idp'', fl_audience = []\<rparr>"
  by (simp add: setting_flags_def demo_flags parse_flags_def flag_string_def)

lemma demo_boot: "boot demo_setting 0 0 = (0, Serving [] demo_running)"
  by (simp add: boot_def demo_running_def demo_flags) (simp add: demo_setting_def obs_Init_def obs_FromEnv_def)

lemma demo_booted: "main_reach demo_setting [] 0 (Serving [] demo_running)"
  unfolding main_reach_def by (intro exI conjI, rule demo_boot, rule main_run.stay)

lemma demo_running_simps [simp]:
  "ru_verifier demo_running = Some demo_verifier" "ru_used demo_running = {}"
  "ru_live demo_running = Map.empty" "ru_phases demo_running = Map.empty"
  "r_registry (ru_relay demo_running) = NewMemory" "r_pushTokens (ru_relay demo_running) = NewPushMemory"
  "r_wsHub (ru_relay demo_running) = new_hub" "ru_pushes demo_running = Map.empty" "st_auth demo_setting = (demo_lib True)"
  by (simp_all add: demo_running_def demo_setting_flags main_verifier_def demo_verifier_def)
    (simp add: demo_setting_def)

lemma demo_moment_ok: "moment_ok demo_setting demo_running demo_moment"
  by (simp add: moment_ok_def demo_moment_def NewMemory_def NewPushMemory_def new_hub_def enumerates_def)
    (simp add: demo_setting_def)

text \<open>Between two states of a run that differ in a property there is a step that changes it.\<close>

lemma run_has_change:
  assumes "main_run st w p tr w' p'" and "main_reach st tr0 w p"
    and "running_of p = Some ru" and "P ru" and "running_of p' = Some ru'" and "\<not> P ru'"
  shows "\<exists>tr1 w1 p1 ru1 e w2 p2 ru2. main_reach st tr1 w1 p1 \<and> main_step st w1 p1 (During e) w2 p2 \<and>
    running_of p1 = Some ru1 \<and> running_of p2 = Some ru2 \<and> P ru1 \<and> \<not> P ru2"
  using assms(1,5,6)
proof (induction arbitrary: ru' rule: main_run.induct)
  case stay
  with assms(3,4) show ?case by simp
next
  case (stepped tr1 w1 p1 e w2 p2)
  obtain ru1 where ru1: "running_of p1 = Some ru1" using main_step_from_running [OF stepped.hyps(2)] ..
  show ?case
  proof (cases "P ru1")
    case True
    with stepped.prems(2) have "ru' \<noteq> ru1" by auto
    with main_step_run [OF stepped.hyps(2) ru1 stepped.prems(1)] obtain e1 where "e = During e1" by blast
    with main_reach_run [OF stepped.hyps(1) assms(2)] stepped.hyps(2) ru1 stepped.prems True show ?thesis by blast
  next
    case False
    from stepped.IH [OF ru1 False] show ?thesis .
  qed
qed

section \<open>Stopping\<close>


abbreviation "observed_end \<equiv> [Signal, ShutdownCalled, ShutdownReturned 5, Flushed FlushSentry 5 0 (1 :: nat),
  Flushed (ShutdownTracer 7) 4 1 (11 :: nat), Returned (Some ''deadline'')]"



section \<open>A registration\<close>

lemma alice_first: "Verify (demo_lib True) (demo_clocks 1000) alice_jwt demo_verifier 0 = (demo_cached, 1, Inr alice_claims)"
proof -
  have "keyFor (demo_lib True) (demo_clocks 1000) ''k1'' demo_verifier 0 = (demo_cached, 1, Inr demo_key)"
    by (simp add: keyFor_def demo_cache demo_refresh)
  moreover have "check_claims (demo_lib True) demo_cached (at_check (demo_clocks 1000)) alice_body = Inr alice_claims"
    by (simp add: check_claims_def alice_decode alice_parsed demo_cached_def demo_verifier_def NewVerifier_def)
      (simp add: alice_claims_def zero_claims_def)
  ultimately show ?thesis
    by (simp add: Verify_shape [OF alice_shape] demo_decode) (simp add: demo_lib_def demo_key_def)
qed

text \<open>After that her key is in the cache, and the world does not matter.\<close>

lemma alice_again: "Verify (demo_lib True) (demo_clocks 1000) alice_jwt demo_cached w = (demo_cached, w, Inr alice_claims)"
proof -
  obtain p where p: "verify_header (demo_lib True) alice_jwt = Inr p" "pt_kid p = ''k1''"
    using verify_headerI [OF alice_shape, of "demo_lib True"] by simp
  have hit: "cached_key demo_cached (at_lookup (demo_clocks 1000)) (pt_kid p) = Some demo_key"
    by (simp add: p(2) cached_key_def demo_cached_def demo_verifier_def NewVerifier_def demo_clocks_def
        time_sub_def min_duration_def max_duration_def one_hour_def)
  have "Verify (demo_lib True) (demo_clocks 1000) alice_jwt demo_cached w =
      (demo_cached, w, verify_signed (demo_lib True) demo_cached (at_check (demo_clocks 1000)) p demo_key)" for w
    by (rule Verify_hit [OF p(1) hit])
  with alice_verified show ?thesis by simp
qed

lemma alice_enters:
  assumes "header_get rq ''Authorization'' = (''Bearer '' @ alice_jwt)" and "map_of routes (rq_path rq) = Some rt"
    and "rt \<notin> open_routes" and "Verify (demo_lib True) (demo_clocks 1000) alice_jwt v w = (v', w', Inr alice_claims)"
  shows "mux (demo_lib True) (demo_clocks 1000) rq (Some v) w = (Some v', w', Enter rt (WithClaims rq alice_claims))"
proof -
  have "auth_Middleware (demo_lib True) (demo_clocks 1000) rq v w = (v', w', Passed (WithClaims rq alice_claims))"
    unfolding middleware_passes using assms(1,4) by simp
  with assms(2,3) show ?thesis by (simp add: mux_def protect_def)
qed

lemma alice_header: "header_get alice_rq ''Authorization'' = (''Bearer '' @ alice_jwt)"
  by (simp add: alice_rq_def header_get_def first_value_def)

lemma alice_registers_first:
  "\<exists>m resp. registerBastion (Inr [1]) 1000000000000 id (WithClaims alice_rq alice_claims) NewMemory = (m, resp) \<and>
     (\<exists>b. ledger m ''b1'' = Some b \<and> b_UserID b = ''alice'' \<and> b_CreatedAt b = 1000000000000 \<and> b_LastSeenAt b = 1000000000000)"
proof -
  have t: "mint_token (Inr [1]) = Inr ''chep_01''" by code_simp
  have d: "decode_body register_fields \<lparr>rb_ID = [], rb_Capabilities = [], rb_ChepherdVersion = [], rb_Hostname = []\<rparr>
      (WithClaims alice_rq alice_claims) =
      Some \<lparr>rb_ID = ''b1'', rb_Capabilities = [], rb_ChepherdVersion = [], rb_Hostname = []\<rparr>"
    by (simp add: alice_rq_decodes register_fields_def find_field_def fld_def plain_reading)
  have "rq_method (WithClaims alice_rq alice_claims) = ''POST''" "UserID alice_claims = ''alice''"
    "ClaimsFromContext (WithClaims alice_rq alice_claims) = Some alice_claims"
    by (simp_all add: WithClaims_def ClaimsFromContext_def alice_rq_def alice_claims_def)
  then show ?thesis
    by (simp add: registerBastion_def d Register_def t NewMemory_def ledger_def zero_bastion_def Let_def)
qed

lemma alice_served:
  "\<exists>r' resp. serve (demo_lib True) demo_moment alice_rq (Some demo_verifier) (ru_relay demo_running) 0 =
     (Some demo_cached, r', 1, Replied resp) \<and>
     enumerates [] (regs (r_pushTokens r')) \<and> enumerates [] (rooms (r_wsHub r')) \<and>
     (\<exists>b. ledger (r_registry r') ''b1'' = Some b \<and> b_UserID b = ''alice'' \<and> b_CreatedAt b = 1000000000000 \<and> b_LastSeenAt b = 1000000000000)"
proof -
  obtain m' resp b where reg: "registerBastion (Inr [1]) 1000000000000 id (WithClaims alice_rq alice_claims) NewMemory = (m', resp)"
    and b: "ledger m' ''b1'' = Some b" "b_UserID b = ''alice''" "b_CreatedAt b = 1000000000000"
      "b_LastSeenAt b = 1000000000000"
    using alice_registers_first by blast
  have "serve (demo_lib True) demo_moment alice_rq (Some demo_verifier) (ru_relay demo_running) 0 =
      (Some demo_cached, (ru_relay demo_running)\<lparr>r_registry := m'\<rparr>, 1, Replied resp)"
    using reg by (simp add: serve_def demo_moment_def run_route_def open_routes_def
        alice_enters [OF alice_header alice_route _ alice_first])
  moreover have "enumerates [] (regs NewPushMemory)" "enumerates [] (rooms new_hub)"
    by (simp_all add: NewPushMemory_def new_hub_def enumerates_def)
  ultimately show ?thesis using b by (intro exI conjI) auto
qed

lemma alice_request_plain: "rq_claims alice_rq = None" by (simp add: alice_rq_def)

lemma alice_runs:
  "\<exists>tr ru b. main_run demo_setting 0 (Serving [] demo_running) tr 1 (Serving [] ru) \<and>
     ru_verifier ru = Some demo_cached \<and> 1 \<notin> ru_used ru \<and> ru_phases ru 3 = None \<and>
     (enumerates [] (regs (r_pushTokens (ru_relay ru))) \<and> enumerates [] (rooms (r_wsHub (ru_relay ru)))) \<and>
     ledger (r_registry (ru_relay ru)) ''b1'' = Some b \<and> b_UserID b = ''alice'' \<and>
     b_CreatedAt b = 1000000000000 \<and> b_LastSeenAt b = 1000000000000"
proof -
  obtain r' resp where s: "serve (demo_lib True) demo_moment alice_rq (Some demo_verifier) (ru_relay demo_running) 0 =
      (Some demo_cached, r', 1, Replied resp)"
    and maps: "enumerates [] (regs (r_pushTokens r'))" "enumerates [] (rooms (r_wsHub r'))"
    and b: "\<exists>b. ledger (r_registry r') ''b1'' = Some b \<and> b_UserID b = ''alice'' \<and> b_CreatedAt b = 1000000000000 \<and>
      b_LastSeenAt b = 1000000000000"
    using alice_served by blast
  obtain tr ru where "main_run demo_setting 0 (Serving [] demo_running) tr 1 (Serving [] ru)"
    and "after_request 0 (mo_conn demo_moment) (Some demo_cached) r' (Replied resp) demo_running ru"
    using serve_alone [of demo_setting demo_moment alice_rq demo_running 0 "Some demo_cached" r' 1
        "Replied resp" "Serving [] demo_running" 0] s demo_moment_ok alice_request_plain by auto
  with b maps show ?thesis by (fastforce simp: after_request_def)
qed

lemma alice_owns:
  "\<exists>tr ru. main_run demo_setting 0 (Serving [] demo_running) tr 1 (Serving [] ru) \<and>
     owned_by ru ''b1'' ''alice'' 1000000000000"
  using alice_runs by (auto simp: owned_by_def)

theorem configured_process_authenticates_witness:
  "\<exists>tr w p e n q. main_reach demo_setting tr w p \<and> acts_for (run_events tr) e n q \<and>
     verified_request demo_setting (run_events tr) n q"
proof -
  obtain tr ru where run: "main_run demo_setting 0 (Serving [] demo_running) tr 1 (Serving [] ru)"
    and own: "owned_by ru ''b1'' ''alice'' 1000000000000" using alice_owns by blast
  have "\<not> owned_by demo_running ''b1'' ''alice'' 1000000000000"
    by (simp add: owned_by_def NewMemory_def ledger_def)
  with own have "ru_relay ru \<noteq> ru_relay demo_running" by (auto simp: owned_by_def)
  with run_has_change [OF run demo_booted, of demo_running "\<lambda>x. ru_relay x = ru_relay demo_running" ru]
  obtain tr1 w1 p1 ru1 e w2 p2 ru2 where "main_reach demo_setting tr1 w1 p1"
    "main_step demo_setting w1 p1 (During e) w2 p2" "running_of p1 = Some ru1" "running_of p2 = Some ru2"
    "ru_relay ru2 \<noteq> ru_relay ru1" by auto
  with configured_process_authenticates [of demo_setting tr1 w1 p1 e w2 p2 ru1 ru2] show ?thesis
    by (auto simp: demo_setting_flags)
qed

theorem process_owner_permanent_witness:
  "\<exists>w ru. running_of (Signalled [] ru) = Some ru \<and> main_run demo_setting 1 (Serving [] ru) [Signal] w (Signalled [] ru) \<and>
     owned_by ru ''b1'' ''alice'' 1000000000000"
proof -
  obtain tr ru where run: "main_run demo_setting 0 (Serving [] demo_running) tr 1 (Serving [] ru)"
    and own: "owned_by ru ''b1'' ''alice'' 1000000000000" using alice_owns by blast
  have more: "main_run demo_setting 1 (Serving [] ru) [Signal] 1 (Signalled [] ru)"
    by (rule main_run_one [OF main_step.signal])
  from process_owner_permanent [OF main_reach_run [OF run demo_booted] more _ _ own]
  have "owned_by ru ''b1'' ''alice'' 1000000000000" by simp
  with more show ?thesis by auto
qed

section \<open>A second registration\<close>

text \<open>Alice registers her bastion again, for a new token; her key is still in the cache.\<close>

definition later_moment :: "string list \<Rightarrow> moment" where
  "later_moment ks = demo_moment\<lparr>mo_entropy := Inr [2], mo_now := 2000000000000, mo_conn := 3, mo_bastions := ks\<rparr>"

lemma alice_registers_again:
  assumes "reg_inv m" and "ledger m ''b1'' = Some b" and "b_UserID b = ''alice''"
  shows "\<exists>m' resp. registerBastion (Inr [2]) 2000000000000 id (WithClaims alice_rq alice_claims) m = (m', resp) \<and>
    (\<exists>b'. ledger m' ''b1'' = Some b' \<and> b_LastSeenAt b' = 2000000000000)"
proof -
  have t: "mint_token (Inr [2]) = Inr ''chep_02''" by code_simp
  have d: "decode_body register_fields \<lparr>rb_ID = [], rb_Capabilities = [], rb_ChepherdVersion = [], rb_Hostname = []\<rparr>
      (WithClaims alice_rq alice_claims) =
      Some \<lparr>rb_ID = ''b1'', rb_Capabilities = [], rb_ChepherdVersion = [], rb_Hostname = []\<rparr>"
    by (simp add: alice_rq_decodes register_fields_def find_field_def fld_def plain_reading)
  have "rq_method (WithClaims alice_rq alice_claims) = ''POST''" "UserID alice_claims = ''alice''"
    "ClaimsFromContext (WithClaims alice_rq alice_claims) = Some alice_claims"
    by (simp_all add: WithClaims_def ClaimsFromContext_def alice_rq_def alice_claims_def)
  then show ?thesis
    using Register_refines [OF assms(1), of "zero_bastion\<lparr>b_ID := ''b1'', b_UserID := ''alice''\<rparr>" "Inr [2]" 2000000000000]
      assms(2,3)
    by (auto simp: registerBastion_def d t spec_register_def zero_bastion_def rotated_row_def Let_def prod_eq_iff
        split: prod.split sum.split)
qed

theorem bastion_changes_only_by_owner_witness:
  "\<exists>tr n c. UserID c = ''alice'' \<and> token_proved (demo_lib True) ''https://idp/certs'' ''idp'' [] tr n c"
proof -
  obtain tr ru b where run: "main_run demo_setting 0 (Serving [] demo_running) tr 1 (Serving [] ru)"
    and ru: "ru_verifier ru = Some demo_cached" "1 \<notin> ru_used ru" "ru_phases ru 3 = None"
      "enumerates [] (regs (r_pushTokens (ru_relay ru))) \<and> enumerates [] (rooms (r_wsHub (ru_relay ru)))"
    and b: "ledger (r_registry (ru_relay ru)) ''b1'' = Some b" "b_UserID b = ''alice''" "b_LastSeenAt b = 1000000000000"
    using alice_runs by blast
  note re = main_reach_run [OF run demo_booted]
  have inv: "reg_inv (r_registry (ru_relay ru))" using run_reach_registry [OF process_run_reach [OF re]] by simp
  obtain m' resp b' where reg: "registerBastion (Inr [2]) 2000000000000 id (WithClaims alice_rq alice_claims)
      (r_registry (ru_relay ru)) = (m', resp)" and b': "ledger m' ''b1'' = Some b'" "b_LastSeenAt b' = 2000000000000"
    using alice_registers_again [OF inv b(1,2)] by blast
  let ?r' = "(ru_relay ru)\<lparr>r_registry := m'\<rparr>"
  obtain ks where ks: "enumerates ks (byID (r_registry (ru_relay ru)))"
    using enumerates_exists [of "byID (r_registry (ru_relay ru))"] inv by (auto simp: reg_inv_def)
  have "mux (demo_lib True) (demo_clocks 1000) alice_rq (Some demo_cached) 1 =
      (Some demo_cached, 1, Enter RRegister (WithClaims alice_rq alice_claims))"
    by (rule alice_enters [OF alice_header alice_route _ alice_again]) (simp add: open_routes_def)
  then have s: "serve (demo_lib True) (later_moment ks) alice_rq (Some demo_cached) (ru_relay ru) 1 =
      (Some demo_cached, ?r', 1, Replied resp)"
    using reg by (simp add: serve_def later_moment_def demo_moment_def run_route_def)
  have "moment_ok demo_setting ru (later_moment ks)"
    using ru(3,4) ks by (simp add: moment_ok_def later_moment_def demo_moment_def)
      (simp add: demo_setting_def)
  with serve_alone [of demo_setting "later_moment ks" alice_rq ru 1 "Some demo_cached" ?r' 1 "Replied resp" "Serving [] ru" 1]
    s ru alice_request_plain obtain tr' ru' where more: "main_run demo_setting 1 (Serving [] ru) tr' 1 (Serving [] ru')"
    and after: "after_request 1 (mo_conn (later_moment ks)) (Some demo_cached) ?r' (Replied resp) ru ru'" by auto
  have "ledger (r_registry (ru_relay ru')) ''b1'' \<noteq> Some b"
    using after b(3) b' by (auto simp: after_request_def)
  with run_has_change [OF more re, of ru "\<lambda>x. ledger (r_registry (ru_relay x)) ''b1'' = Some b" ru'] b(1)
  obtain tr1 w1 p1 ru1 e w2 p2 ru2 where "main_reach demo_setting tr1 w1 p1"
    "main_step demo_setting w1 p1 (During e) w2 p2" "running_of p1 = Some ru1" "running_of p2 = Some ru2"
    "ledger (r_registry (ru_relay ru1)) ''b1'' = Some b" "ledger (r_registry (ru_relay ru2)) ''b1'' \<noteq> Some b" by auto
  from bastion_changes_only_by_owner [OF this] show ?thesis using b(2) by (auto simp: demo_setting_flags)
qed

section \<open>A device and a push\<close>

definition alice_says :: "string \<Rightarrow> json \<Rightarrow> claims request" where
  "alice_says path j = alice_rq\<lparr>rq_path := path, rq_body := json_print j\<rparr>"

lemma alice_says_simps [simp]:
  "header_get (alice_says path j) ''Authorization'' = (''Bearer '' @ alice_jwt)" "rq_path (alice_says path j) = path"
  "rq_claims (alice_says path j) = None" "rq_method (WithClaims (alice_says path j) c) = ''POST''"
  "ClaimsFromContext (WithClaims (alice_says path j) c) = Some c"
  "rq_body (WithClaims (alice_says path j) c) = json_print j"
  by (simp_all add: alice_says_def alice_rq_def header_get_def first_value_def WithClaims_def ClaimsFromContext_def)

definition alice_device :: registration where
  "alice_device = \<lparr>r_UserID = ''alice'', r_DeviceID = ''d1'',
     r_Token = \<lparr>t_Platform = PlatformiOS, t_Value = ''w'', t_BundleID = []\<rparr>, r_UpdatedAt = 1000000000000,
     r_LastFailureAt = zero_time\<rparr>"

lemma alice_device_registered:
  "\<exists>resp. pushRegister 1000000000000 (WithClaims (alice_says ''/v1/push/register'' device_json) alice_claims) NewPushMemory =
     (\<lparr>regs = [''d1'' \<mapsto> alice_device]\<rparr>, resp)"
proof -
  have "decode_body push_register_fields \<lparr>pr_DeviceID = [], pr_Platform = [], pr_Value = [], pr_BundleID = []\<rparr>
      (WithClaims (alice_says ''/v1/push/register'' device_json) alice_claims) =
      Some \<lparr>pr_DeviceID = ''d1'', pr_Platform = ''ios'', pr_Value = ''w'', pr_BundleID = []\<rparr>"
    using device_decoded [of "''alice''"] by (simp add: decode_body_def as_user_def zero_register_body_def)
  then show ?thesis
    by (simp add: pushRegister_def parse_platform_def Upsert_def NewPushMemory_def alice_device_def)
      (simp add: alice_claims_def)
qed

lemma alice_device_runs:
  "\<exists>tr ru. main_run demo_setting 0 (Serving [] demo_running) tr 1 (Serving [] ru) \<and>
     ru_verifier ru = Some demo_cached \<and> ru_used ru = {0} \<and>
     ru_relay ru = (ru_relay demo_running)\<lparr>r_pushTokens := \<lparr>regs = [''d1'' \<mapsto> alice_device]\<rparr>\<rparr> \<and>
     ru_phases ru = Map.empty \<and> ru_live ru = Map.empty"
proof -
  let ?rq = "alice_says ''/v1/push/register'' device_json"
  have "map_of routes (rq_path ?rq) = Some RPushRegister" by (simp add: routes_def)
  from alice_enters [OF _ this _ alice_first] have m: "mux (demo_lib True) (demo_clocks 1000) ?rq (Some demo_verifier) 0 =
      (Some demo_cached, 1, Enter RPushRegister (WithClaims ?rq alice_claims))" by (simp add: open_routes_def)
  obtain resp where reg: "pushRegister 1000000000000 (WithClaims ?rq alice_claims) NewPushMemory =
      (\<lparr>regs = [''d1'' \<mapsto> alice_device]\<rparr>, resp)" using alice_device_registered by blast
  let ?r' = "(ru_relay demo_running)\<lparr>r_pushTokens := \<lparr>regs = [''d1'' \<mapsto> alice_device]\<rparr>\<rparr>"
  have s: "serve (demo_lib True) demo_moment ?rq (Some demo_verifier) (ru_relay demo_running) 0 =
      (Some demo_cached, ?r', 1, Replied resp)"
    using reg by (simp add: serve_def m demo_moment_def run_route_def)
  from serve_alone [of demo_setting demo_moment ?rq demo_running 0 "Some demo_cached" ?r' 1
      "Replied resp" "Serving [] demo_running" 0] s demo_moment_ok
  obtain tr ru where "main_run demo_setting 0 (Serving [] demo_running) tr 1 (Serving [] ru)"
    and "after_request 0 (mo_conn demo_moment) (Some demo_cached) ?r' (Replied resp) demo_running ru" by auto
  then show ?thesis by (intro exI [of _ tr] exI [of _ ru]) (auto simp: after_request_def)
qed

theorem device_changes_only_by_registration_witness:
  "\<exists>tr n c. UserID c = ''alice'' \<and> token_proved (demo_lib True) ''https://idp/certs'' ''idp'' [] tr n c"
proof -
  obtain tr ru where run: "main_run demo_setting 0 (Serving [] demo_running) tr 1 (Serving [] ru)"
    and ru: "r_pushTokens (ru_relay ru) = \<lparr>regs = [''d1'' \<mapsto> alice_device]\<rparr>"
    using alice_device_runs by force
  let ?P = "\<lambda>x. holder (r_pushTokens (ru_relay x)) ''d1'' \<noteq> Some (''alice'', r_Token alice_device)"
  have "?P demo_running" "\<not> ?P ru" by (simp_all add: holder_def ru NewPushMemory_def) (simp add: alice_device_def)
  with run_has_change [OF run demo_booted, of demo_running ?P ru]
  obtain tr1 w1 p1 ru1 e w2 p2 ru2 where st: "main_reach demo_setting tr1 w1 p1"
    "main_step demo_setting w1 p1 (During e) w2 p2" "running_of p1 = Some ru1" "running_of p2 = Some ru2"
    and P: "?P ru1" "\<not> ?P ru2" by auto
  have "holder (r_pushTokens (ru_relay ru2)) ''d1'' \<noteq> holder (r_pushTokens (ru_relay ru1)) ''d1''" using P by auto
  from device_changes_only_by_registration [OF st this] P(2) obtain n c where
    "token_proved (demo_lib True) ''https://idp/certs'' ''idp'' [] (auth_trace (run_events tr1)) n c" "UserID c = ''alice''"
    by (auto simp: demo_setting_flags)
  then show ?thesis by blast
qed












definition push_moment :: moment where
  "push_moment = demo_moment\<lparr>mo_conn := 3, mo_devices := [''d1'']\<rparr>"

lemma alice_push_starts:
  "\<exists>n. start_push [''d1''] (WithClaims (alice_says ''/v1/push/send'' (JObj [])) alice_claims)
     \<lparr>regs = [''d1'' \<mapsto> alice_device]\<rparr> =
     Sends \<lparr>pl_notif = n, pl_total = 1, pl_left = [alice_device], pl_sent = 0, pl_failed = 0\<rparr>"
proof -
  let ?z = "\<lparr>ps_Title = [], ps_Body = [], ps_Sound = [], ps_Priority = [], ps_SessionUUID = [],
      ps_CollapseKey = [], ps_TTLSeconds = 0\<rparr>"
  have "decode_body push_send_fields ?z (WithClaims (alice_says ''/v1/push/send'' (JObj [])) alice_claims) = Some ?z"
    using demo_send_decoded [of "''alice''"] by (simp add: decode_body_def as_user_def zero_send_body_def)
  moreover have "ListTokens \<lparr>regs = [''d1'' \<mapsto> alice_device]\<rparr> [''d1''] (UserID alice_claims) = [alice_device]"
    by (simp add: ListTokens_def alice_device_def alice_claims_def)
  ultimately show ?thesis by (simp add: start_push_def)
qed

text \<open>
  No provider is configured: the only device is missed. Here the process is between the failed
  send and its mark.
\<close>

abbreviation "alice_error \<equiv> ErrNoDispatcher (t_Platform (r_Token alice_device))"

abbreviation alice_loop :: "notification \<Rightarrow> push_loop" where
  "alice_loop n \<equiv> \<lparr>pl_notif = n, pl_total = 1, pl_left = [], pl_sent = 0, pl_failed = 1\<rparr>"

lemma alice_push_missed:
  "\<exists>tr ru n. main_reach demo_setting tr 1 (Serving [] ru) \<and>
     ru_pushes ru 1 = Some (Marks alice_device alice_error (alice_loop n)) \<and> ru_verifier ru = Some demo_cached \<and>
     ru_used ru = {0, 1} \<and> ru_phases ru = Map.empty \<and>
     ru_relay ru = (ru_relay demo_running)\<lparr>r_pushTokens := \<lparr>regs = [''d1'' \<mapsto> alice_device]\<rparr>\<rparr>"
proof -
  let ?rq = "alice_says ''/v1/push/send'' (JObj [])"
  let ?q = "WithClaims ?rq alice_claims"
  let ?m = "\<lparr>regs = [''d1'' \<mapsto> alice_device]\<rparr>"
  obtain tr ru where run: "main_run demo_setting 0 (Serving [] demo_running) tr 1 (Serving [] ru)"
    and ru: "ru_verifier ru = Some demo_cached" "ru_used ru = {0}" "ru_phases ru = Map.empty"
      "ru_relay ru = (ru_relay demo_running)\<lparr>r_pushTokens := ?m\<rparr>"
    using alice_device_runs by blast
  have "map_of routes (rq_path ?rq) = Some RPushSend" "bearer_token ?rq = Some alice_jwt"
    by (simp_all add: routes_def bearer_token_def has_prefix_def trim_prefix_def)
  then have gate: "enter_mux (Some demo_cached) ?rq = ToGate RPushSend ?rq alice_jwt"
    by (simp add: enter_mux_def open_routes_def)
  let ?g = "\<lparr>g_route = RPushSend, g_request = ?rq, g_run = Verdict (Inr alice_claims), g_left = False\<rparr>"
  let ?ru1 = "set_gate 1 ?g ((use_number 1 ru)\<lparr>ru_verifier := Some demo_cached\<rparr>)"
  have at: "running_of (Serving [] ru) = Some ru" and new: "1 \<notin> ru_used ru" by (simp_all add: ru)
  have "Verify (st_auth demo_setting) (demo_clocks 1000) alice_jwt demo_cached 1 = (demo_cached, 1, Inr alice_claims)"
    using alice_again by simp
  from gate_alone [OF at new _ gate ru(1) this] obtain tr1 where
    run1: "main_run demo_setting 1 (Serving [] ru) tr1 1 (Serving [] ?ru1)" by auto
  obtain n where start: "start_push [''d1''] ?q ?m =
      Sends \<lparr>pl_notif = n, pl_total = 1, pl_left = [alice_device], pl_sent = 0, pl_failed = 0\<rparr>"
    using alice_push_starts by blast
  let ?l0 = "\<lparr>pl_notif = n, pl_total = 1, pl_left = [alice_device], pl_sent = 0, pl_failed = 0\<rparr>"
  have ok: "moment_ok demo_setting ?ru1 push_moment"
    by (simp add: moment_ok_def ru push_moment_def demo_moment_def NewMemory_def new_hub_def enumerates_def)
      (simp add: demo_setting_def)
  have route: "start_route push_moment RPushSend ?q (ru_relay ?ru1) 1 = (ru_relay ?ru1, 1, Pushes (Sends ?l0))"
    using start by (simp add: start_route_def ru push_moment_def)
  let ?ru2 = "admit 1 3 (Pushes (Sends ?l0)) ((set_gate 1 (?g\<lparr>g_left := True\<rparr>) ?ru1)\<lparr>ru_relay := ru_relay ?ru1\<rparr>)"
  have st2: "main_step demo_setting 1 (Serving [] ?ru1) (During (Handled 1 3 RPushSend ?q (Pushes (Sends ?l0)))) 1 (Serving [] ?ru2)"
    using main_step.during [OF _ run_step.handled_verified [of ?ru1 1 ?g "Inr alice_claims" demo_setting ?q push_moment 1
        "ru_relay ?ru1" 1 "Pushes (Sends ?l0)"], of "Serving [] ?ru1"] ok route
    by (simp add: push_moment_def)
  have ru2: "ru_pushes ?ru2 1 = Some (Sends ?l0)" "ru_relay ?ru2 = ru_relay ?ru1" by simp_all
  have disp: "d_Send (r_pushDispatcher (ru_relay ?ru2)) ctx tok nn w = (w, [], Some (ErrNoDispatcher (t_Platform tok)))" for ctx tok nn w
    using push_unconfigured [of "\<lambda>_. []" no_outside] by (simp add: ru demo_running_def start_serving_def
        newRelay_def multi_dispatcher_def) (simp add: demo_setting_def)
  let ?ru3 = "set_push 1 (Marks alice_device alice_error (alice_loop n)) (r_pushTokens (ru_relay ?ru2)) ?ru2"
  have miss: "push_step (r_pushDispatcher (ru_relay ?ru2)) (r_pushTokens (ru_relay ?ru2)) 1 (Sends ?l0)
      (MissedBy alice_device alice_error) (r_pushTokens (ru_relay ?ru2)) 1 (Marks alice_device alice_error (alice_loop n))"
    using push_step.missed [of ?l0 alice_device "[]", OF _ disp] by simp
  have "main_step demo_setting 1 (Serving [] ?ru2) (During (PushStep 1 (MissedBy alice_device alice_error))) 1 (Serving [] ?ru3)"
    using push_main_step [OF _ ru2(1) miss, of "Serving [] ?ru2"] by simp
  from main_reach_step [OF main_reach_step [OF main_reach_run [OF run1 main_reach_run [OF run demo_booted]] st2] this]
  show ?thesis by (intro exI conjI) (assumption, auto simp: ru)
qed

theorem push_reports_are_true_witness:
  "\<exists>tr w p w' p' l. main_reach demo_setting tr w p \<and>
     main_step demo_setting w p (During (PushStep 1 (Reported 1 0 1))) w' p' \<and>
     length (pl_left (l :: push_loop)) = 1 \<and> tried (push_events 1 (run_events tr)) = pl_left l"
proof -
  obtain tr ru n where re: "main_reach demo_setting tr 1 (Serving [] ru)"
    and h: "ru_pushes ru 1 = Some (Marks alice_device alice_error (alice_loop n))" using alice_push_missed by blast
  let ?ru4 = "set_push 1 (Sends (alice_loop n)) (MarkFailure (r_pushTokens (ru_relay ru)) (r_DeviceID alice_device) 7) ru"
  from push_main_step [OF _ h push_step.marked [where now = 7], of "Serving [] ru"]
  have "main_step demo_setting 1 (Serving [] ru)
      (During (PushStep 1 (Captured (failure_tags alice_device) (push_error_text alice_error)))) 1 (Serving [] ?ru4)" by simp
  from main_reach_step [OF re this] obtain tr4 where re4: "main_reach demo_setting tr4 1 (Serving [] ?ru4)" by blast
  have "ru_pushes ?ru4 1 = Some (Sends (alice_loop n))" by simp
  from push_main_step [OF _ this push_step.reported, of "Serving [] ?ru4"]
  obtain ru5 where st5: "main_step demo_setting 1 (Serving [] ?ru4) (During (PushStep 1 (Reported 1 0 1))) 1 (Serving [] ru5)"
    by auto
  from push_reports_are_true [OF re4 st5] obtain l :: push_loop where l: "1 = length (pl_left l)"
    "tried (push_events 1 (run_events tr4)) = pl_left l" by blast
  show ?thesis by (intro exI conjI, rule re4, rule st5, rule l(1) [symmetric], rule l(2))
qed



section \<open>A process without a key set\<close>

definition open_setting :: "(nat, nat, nat, nat, nat) setting" where
  "open_setting = demo_setting\<lparr>st_args := []\<rparr>"

definition open_running :: "nat running" where
  "open_running = start_serving open_setting 0"

lemma open_boot: "boot open_setting 0 0 = (0, Serving [] open_running)"
  by (simp add: boot_def open_running_def)
    (simp add: open_setting_def demo_setting_def obs_Init_def obs_FromEnv_def)

lemma open_booted: "main_reach open_setting [] 0 (Serving [] open_running)"
  unfolding main_reach_def by (intro exI conjI, rule open_boot, rule main_run.stay)

lemma open_running_simps [simp]:
  "ru_verifier open_running = None" "ru_used open_running = {}"
  "ru_live open_running = Map.empty" "ru_phases open_running = Map.empty"
  by (simp_all add: open_running_def main_verifier_def setting_flags_def parse_flags_def flag_string_def)
    (simp add: open_setting_def demo_setting_def)

lemma open_moment_ok: "moment_ok open_setting open_running demo_moment"
  by (simp add: moment_ok_def demo_moment_def open_running_def NewMemory_def NewPushMemory_def new_hub_def enumerates_def)
    (simp add: open_setting_def demo_setting_def)

definition web_offer :: "claims request" where
  "web_offer = \<lparr>rq_method = ''POST'', rq_path = ''/v1/signaling/offer'', rq_query = [], rq_headers = [],
     rq_body = json_print (JObj [(''bastion_id'', JStr ''b1''), (''offer'', JStr ''v=0'')]), rq_claims = None\<rparr>"

lemma web_offer_literal: "literal_json (JObj [(''bastion_id'', JStr ''b1''), (''offer'', JStr ''v=0'')])"
  by code_simp

lemma web_offer_decodes:
  "decode_body fs z web_offer = dec_struct fs z (JObj [(''bastion_id'', JStr ''b1''), (''offer'', JStr ''v=0'')])"
  by (rule decode_body_literal [OF _ web_offer_literal]) (simp add: web_offer_def)

lemma web_offer_sending:
  "\<exists>s' b a q env. signalingOffer pid now web_offer s = (s', Sending OfferStyle b (genClientID pid now) a q env)"
proof -
  have "decode_body offer_body_fields \<lparr>ob_BastionID = [], ob_Offer = None\<rparr> web_offer =
      Some \<lparr>ob_BastionID = ''b1'', ob_Offer = Some (JStr ''v=0'')\<rparr>"
    unfolding web_offer_decodes
    by (simp add: offer_body_fields_def find_field_def fld_def dec_raw_def plain_reading)
  then show ?thesis by (simp add: signalingOffer_def web_offer_def Let_def split: prod.split)
qed

lemma web_offer_served:
  "\<exists>r' h. serve lib demo_moment web_offer None r w = (None, r', w, Waiting h) \<and>
     start_event h = Registered (genClientID 1 (mo_now demo_moment))"
proof -
  obtain s' b a q env where o: "signalingOffer 1 (mo_now demo_moment) web_offer (r_signaling r) =
      (s', Sending OfferStyle b (genClientID 1 (mo_now demo_moment)) a q env)" using web_offer_sending by blast
  have "mux lib t web_offer None w = (None, w, Enter (RSignal EOffer) web_offer)" for t
    by (simp add: mux_def protect_def web_offer_def routes_def open_routes_def)
  moreover have "mo_pid demo_moment = 1" by (simp add: demo_moment_def)
  ultimately show ?thesis using o by (simp add: serve_def run_route_def)
qed

theorem serve_is_solo_run_witness:
  "\<exists>tr w ru. main_reach open_setting tr w (Serving [] ru) \<and> ru_live ru 0 \<noteq> None"
proof -
  obtain r' h where s: "serve (st_auth open_setting) demo_moment web_offer None (ru_relay open_running) 0 =
      (None, r', 0, Waiting h)" using web_offer_served [of "st_auth open_setting" "ru_relay open_running" 0] by blast
  with serve_is_solo_run [OF open_booted, of open_running 0 demo_moment web_offer None r' 0 "Waiting h"] open_moment_ok
  show ?thesis by (fastforce simp: web_offer_def after_request_def)
qed

theorem process_embeds_systems_witness:
  "\<exists>tr w ru cid. main_reach open_setting tr w (Signalled [] ru) \<and>
     reach (st_pid open_setting) [(0, Registered cid)] (sig_part ru)"
proof -
  obtain r' h where s: "serve (st_auth open_setting) demo_moment web_offer None (ru_relay open_running) 0 =
      (None, r', 0, Waiting h)" and ev: "start_event h = Registered (genClientID 1 (mo_now demo_moment))"
    using web_offer_served [of "st_auth open_setting" "ru_relay open_running" 0] by blast
  have m: "enter_mux None web_offer = Handle (RSignal EOffer) web_offer"
    by (simp add: enter_mux_def web_offer_def routes_def open_routes_def)
  have "start_route demo_moment (RSignal EOffer) web_offer (ru_relay open_running) 0 = (r', 0, Waiting h)"
    using s by (simp add: serve_def mux_parts m start_route_def split: prod.splits)
  from run_step.handled_open [OF _ _ _ open_moment_ok this, of 0 web_offer] m
  have "run_step open_setting 0 open_running (Handled 0 (mo_conn demo_moment) (RSignal EOffer) web_offer (Waiting h)) 0
      (admit 0 (mo_conn demo_moment) (Waiting h) ((use_number 0 open_running)\<lparr>ru_relay := r'\<rparr>))"
    by (simp add: web_offer_def)
  from main_reach_step [OF open_booted main_step.during [OF _ this]]
  have "main_reach open_setting [During (Handled 0 (mo_conn demo_moment) (RSignal EOffer) web_offer (Waiting h))] 0
      (Serving [] (admit 0 (mo_conn demo_moment) (Waiting h) ((use_number 0 open_running)\<lparr>ru_relay := r'\<rparr>)))"
    by simp
  from main_reach_step [OF this main_step.signal]
  have re: "main_reach open_setting
      [During (Handled 0 (mo_conn demo_moment) (RSignal EOffer) web_offer (Waiting h)), Signal] 0
      (Signalled [] (admit 0 (mo_conn demo_moment) (Waiting h) ((use_number 0 open_running)\<lparr>ru_relay := r'\<rparr>)))"
    by simp
  from process_embeds_systems [OF re] ev re show ?thesis by auto
qed

theorem ws_never_joined_in_main_witness:
  "\<exists>tr w ru. main_reach open_setting tr w (Serving [] ru) \<and> ru_used ru = {0} \<and>
     r_wsHub (ru_relay ru) = new_hub \<and>
     (\<exists>h'. HandleHTTP (mo_accept demo_moment) ServerWriter 2 ws_request new_hub = (h', WsJoined ''b1'' 0))"
proof -
  obtain v' r' w' out where s: "serve (st_auth open_setting) demo_moment ws_request (ru_verifier open_running)
      (ru_relay open_running) 0 = (v', r', w', out)" by (metis prod_cases4)
  have "rq_claims ws_request = None" by (simp add: ws_request_def web_request_def)
  with serve_alone [OF s, of "Serving [] open_running" 0] open_moment_ok obtain tr ru where
    run: "main_run open_setting 0 (Serving [] open_running) tr w' (Serving [] ru)"
    and after: "after_request 0 (mo_conn demo_moment) v' r' out open_running ru" by auto
  note re = main_reach_run [OF run open_booted]
  have "st_upgrades open_setting wt \<Longrightarrow> offers_hijack wt" for wt by (simp add: open_setting_def demo_setting_def)
  from ws_never_joined_in_main [OF re this] have "r_wsHub (ru_relay ru) = new_hub" by simp
  moreover have "ru_used ru = {0}" using after by (simp add: after_request_def)
  moreover have "HandleHTTP_start ws_request = Upgrade ''client'' ''b1'' [] [''chepherd-rc-v1'']"
    by (simp add: HandleHTTP_start_def ws_parse_def parseSecWSProtocol_def header_values_def ws_request_def
        web_request_def query_get_def first_value_def Let_def)
  then have "\<exists>h'. HandleHTTP (mo_accept demo_moment) ServerWriter 2 ws_request new_hub = (h', WsJoined ''b1'' 0)"
    by (simp add: HandleHTTP_def demo_moment_def joinRoom_def new_hub_def Let_def)
  ultimately show ?thesis using re by blast
qed

end
