(* ===== verification/Spec2Isabelle.thy ===== *)
theory Spec2Isabelle
  imports Registry_Runs Signaling_Json Ws_Delivery Auth_Interleaved_Theorems Process_Demo
begin

text \<open>
  A verification development for \<^bold>\<open>chepherd-relay\<close>, the signaling, authentication and push
  proxy of the chepherd remote-control system: a Go server under \<open>src/cmd/chepherd-relay\<close> and
  \<open>src/internal\<close>.

  \<^bold>\<open>The program.\<close> Clients (web, iOS, Android) want to reach daemons (bastions) that they own. The
  relay lets a client post a WebRTC offer for a bastion and wait for the answer, lets the bastion
  poll for offers and post answers, and queues ICE candidates; as a fallback it forwards
  WebSocket frames between the clients and the daemon of a bastion. It keeps a ledger of bastions
  with their daemon tokens and a table of device tokens for push notifications, verifies bearer
  tokens (JWT, RS256, keys from a JWKS endpoint), and wraps every request in an observability
  layer. A request goes through \<open>obs.Middleware\<close>, the multiplexer, \<open>Verifier.Middleware\<close> and a
  handler; the handlers share the struct \<open>relay\<close>.

  \<^bold>\<open>The theories.\<close>

  \<^item> \<open>Relay_Prelude\<close>: byte strings, machine integers, instants, orders of map loops, and what the
    program uses of \<open>strings\<close>, \<open>strconv\<close>, \<open>time\<close> and \<open>encoding/hex\<close>. \<open>Http_Model\<close>: requests,
    responses, \<open>writeJSON\<close>. \<open>Go_Channel\<close>: buffered channels, with the locale \<open>bounded_fifo\<close>.
  \<^item> \<open>Utf8\<close>, \<open>Json_Text\<close>, \<open>Json_Strings\<close>, \<open>Json_Values\<close>, \<open>Json_Roundtrip\<close>, \<open>Json_Data\<close>,
    \<open>Json_Wire\<close>: \<open>encoding/json\<close> on the bytes that the relay reads and writes. String literals with
    their escapes, surrogates and invalid bytes; the scanner as a pushdown automaton over tokens
    with its depth limit of 10,000; the printer with the escaping of mark-up; the decoding of
    trees into structs. What is written is read back with the same value exactly when it is not
    nested too deeply, and whatever is read is well-formed.
  \<^item> \<open>Bastion_Registry\<close>, \<open>Registry_Runs\<close> (\<open>internal/registry/registry.go\<close>): a store of rows with
    two maps of pointers into it. The locale \<open>bastion_store\<close> states the interface \<open>Registry\<close>
    against a ledger with one row for each bastion; every run of calls refines that ledger, owners
    are permanent, and exactly the current daemon token of a bastion is accepted.
  \<^item> \<open>Signaling\<close> and \<open>Signaling_*\<close> (the handlers \<open>signaling*\<close> of \<open>cmd/chepherd-relay/main.go\<close>): the
    maps of channels, and each handler cut at its blocking points into the steps of an inductive
    relation; the system runs any number of requests in any interleaving. Offers and candidates
    are delivered first-in first-out and once, answers go to the client they name, queues stay
    bounded; the entry that a full queue leaks and the collision of client ids are exhibited.
    \<open>Signaling_Ends\<close> shows that every request ends by its own steps, by a timer if nothing else. \<open>Signaling_Json\<close> follows the values to the wire: what a bastion or a client reads
    from a response is what was posted, but for a candidate nested so deeply that it makes the
    response of its poll unreadable.
  \<^item> \<open>Ws_Relay\<close>, \<open>Ws_Inv\<close>, \<open>Ws_Theorems\<close>, \<open>Ws_Delivery\<close> (\<open>internal/wsrelay/wsrelay.go\<close>): rooms and
    connections by address, \<open>leaveRoom\<close> in its three lock sections, all interleavings. Frames stay
    within a bastion, empty rooms are given back, frames are delivered while no identity is used
    twice, and a reconnecting client can be stranded when one is.
  \<^item> \<open>Base64_Url\<close>, \<open>Auth\<close>, \<open>Auth_Theorems\<close>, \<open>Auth_Demo\<close> (\<open>internal/auth\<close>): the decoder of token
    segments, claims, the key cache and its refresh, \<open>Verify\<close> with every error, the middleware.
    What an accepted token proves, where its key came from and how old it can be, failing closed.
    \<open>Auth_Concurrent\<close>, \<open>Auth_Interleaved\<close>, \<open>Auth_Interleaved_Theorems\<close>: any number of verifications
    on one verifier, cut at the sections of \<open>keyFor\<close> and \<open>refresh\<close> under the mutex. \<open>Verify\<close> is
    the run of these steps that nobody interferes with; an accepted token is sound in every
    interleaving; two refreshes can overtake each other.
  \<^item> \<open>Push_Registry\<close>, \<open>Push_Dispatch\<close> (\<open>internal/push\<close>): the table of devices with the locale
    \<open>token_registry\<close> for the interface \<open>TokenRegistry\<close>; the envelopes for APNs and FCM, the
    routing by platform and the construction from the environment. The locale \<open>push_sender\<close> is the
    contract of the interface \<open>Dispatcher\<close>, kept by both backends and by the router.
    \<open>Push_Concurrent\<close>: the loop of \<open>pushSend\<close> cut at its calls, with the sequential \<open>pushSend\<close>
    as one of its runs.
  \<^item> \<open>Obs\<close> (\<open>internal/obs/obs.go\<close>): start and stop of the providers, the scrubbing of events, and
    the middleware over a model of response writers, with the locale \<open>response_writer\<close>.
  \<^item> \<open>Relay_Handlers\<close>, \<open>Relay_Main\<close>, \<open>Relay_Push_Theorems\<close>, \<open>Relay_Theorems\<close>, \<open>Relay_Demo\<close>
    (\<open>cmd/chepherd-relay/main.go\<close>): the remaining handlers, the state of the relay, the routes,
    and the way of a request through all layers. An unauthenticated request leaves the relay alone
    and can at most make the verifier refresh its keys, only its owner changes a bastion, the registries stay well formed, a signaling request is a step of
    the signaling system and does not depend on the claims of the caller.
  \<^item> \<open>Relay_Gate\<close>, \<open>Relay_System\<close>, \<open>Relay_Runs\<close> (\<open>main\<close> while it serves): all requests side by
    side. A request is settled or handled at once, or its verification runs at the gate by the
    steps of \<open>Auth_Concurrent\<close>; a waiting handler goes on by the steps of \<open>Signaling\<close>, a
    WebSocket connection by those of \<open>Ws_Relay\<close>, a push by those of \<open>Push_Concurrent\<close>, a
    registration by its look-up. The executions project to the three systems of these components,
    and every change of the relay is traced back to a verified request. \<open>Relay_Pushes\<close>: what a
    push tries and reports beside all other requests, and what a late failure hits.
  \<^item> \<open>Main_Process\<close>, \<open>Process_Demo\<close> (\<open>main\<close>): the command line, start, serving, signal, shutdown and
    the flushing of the providers one by one, as the executions of a process. A process started
    with a key-set URL authenticates every request, only its owner changes a bastion, bastions
    keep their owners, no WebSocket is ever joined, a late push failure marks whoever holds the
    device, and a process that served exits with status 0 only after every configured provider
    was stopped. The sequential functions \<open>mux\<close> and \<open>serve\<close> summarise the way of one request;
    \<open>serve_is_solo_run\<close> shows that the process can take it.

  \<^bold>\<open>Conventions.\<close> A Go string is a list of bytes (\<^typ>\<open>string\<close>), an \<open>int\<close> or \<open>int64\<close> that can
  overflow is a \<open>64 word\<close>, an instant is an integer of nanoseconds. Errors are values of
  datatypes with their texts. Objects shared by pointer live in stores indexed by addresses. A
  loop over a map takes the order of the keys as an argument; clocks, random bytes and the
  outside world are arguments too. Code that is not part of the repository (the SDKs, the
  provider clients, the WebSocket library), cryptography, the HTTP client and files are records of
  functions; no theorem assumes anything about them except \<open>ws_never_joined_in_main\<close>, which uses
  that \<open>websocket.Accept\<close> needs \<open>http.Hijacker\<close>. No definition uses fuel: recursion is
  structural, and loops that wait are steps of relations.

  \<^bold>\<open>Not modelled.\<close> Sockets; the texts that \<open>flag\<close> prints; start-up log lines; response
  headers; the texts of decoding errors; the redirects of the multiplexer for unclean paths;
  deadlines and durations of the waits (a time-out is a case of a select that can win whenever
  the channel is not ready; of the ten seconds for the shutdown the time left is modelled); the
  rounding of a long uptime to floating point. In \<open>Relay_System\<close> a handler runs up to its first
  wait, or to its second lock section, in one step; \<open>stats\<close>, which only reads, reads the maps and
  the hub in one step. While the server shuts down, further requests may still arrive.
\<close>

end
